(* ===== verification/PgPrelude.thy ===== *)
theory PgPrelude
  imports Main "HOL-Library.Finite_Map" "HOL-Library.Multiset"
    "HOL-Library.Char_ord" "HOL-Library.List_Lexorder"
begin

text \<open>
  Shared ground of the development: the types that stand for Go's built-in data, the constants
  of package \<open>model\<close> (github.com/prometheus/common) as parameters, and the generic lemmas on
  finite maps and sorting that the component theories use.

  A Go string is a byte sequence and becomes a \<open>string\<close> (a list of 8-bit characters); Go's
  \<open><\<close> on strings compares bytes lexicographically, which is the order of List\_Lexorder over
  Char\_ord.  A Go \<open>map[string]T\<close> becomes \<open>(string, T) fmap\<close>: finite, with at most one value per
  key and no iteration order.  Where the code ranges over a map and the order could be seen,
  the order is an explicit argument of the model.  A nillable string pointer of a protobuf
  message becomes a \<open>string option\<close>.
\<close>

section \<open>Automation collections\<close>

named_theorems getter_simps \<open>nil-safe protobuf getters\<close>
named_theorems store_simps \<open>what each store operation does to the groups\<close>

section \<open>Basic types\<close>

type_synonym labels = "(string, string) fmap"

text \<open>
  Constants of package \<open>model\<close>, which is not part of this repository: the byte that joins the
  parts of a grouping key, the name of the instance label and the prefix of reserved label
  names.  Every definition that reads one of them takes the record as an argument.
\<close>

record model_consts =
  SeparatorByte :: char
  InstanceLabel :: string
  ReservedLabelPrefix :: string

text \<open>The documented values, used at concrete inputs only.\<close>

definition prom_consts :: model_consts where
  "prom_consts = \<lparr>SeparatorByte = CHR 0xFF, InstanceLabel = ''instance'',
     ReservedLabelPrefix = ''__''\<rparr>"

lemma prom_consts_sel [simp]:
  "SeparatorByte prom_consts = CHR 0xFF"
  "InstanceLabel prom_consts = ''instance''"
  "ReservedLabelPrefix prom_consts = ''__''"
  by (simp_all add: prom_consts_def)

text \<open>A generated protobuf getter: the pointed-to string, or the empty string for nil.\<close>

definition getStr :: "string option \<Rightarrow> string" where
  "getStr p = (case p of None \<Rightarrow> '''' | Some s \<Rightarrow> s)"

lemma getStr_simps [simp, getter_simps]: "getStr None = ''''" "getStr (Some s) = s"
  by (simp_all add: getStr_def)

section \<open>Finite maps\<close>

text \<open>The keys of a map after \<open>sort.Strings\<close>: independent of the iteration order.\<close>

definition sortedKeys :: "(string, 'v) fmap \<Rightarrow> string list" where
  "sortedKeys m = sorted_list_of_set (fmdom' m)"

lemma set_sortedKeys [simp]: "set (sortedKeys m) = fmdom' m"
  by (simp add: sortedKeys_def)

lemma distinct_sortedKeys [simp]: "distinct (sortedKeys m)"
  by (simp add: sortedKeys_def)

lemma sorted_sortedKeys [simp]: "sorted (sortedKeys m)"
  by (simp add: sortedKeys_def)

lemma sortedKeys_unique:
  assumes "distinct ks" "set ks = fmdom' m"
  shows "sort ks = sortedKeys m"
proof -
  have "sorted_list_of_set (set ks) = sort (remdups ks)"
    by (rule sorted_list_of_set_sort_remdups)
  then show ?thesis using assms by (simp add: sortedKeys_def distinct_remdups_id)
qed

lemma sortedKeys_empty [simp]: "sortedKeys fmempty = []"
  by (simp add: sortedKeys_def)

lemma sortedKeys_Nil_iff [simp]: "sortedKeys m = [] \<longleftrightarrow> m = fmempty"
proof
  assume "sortedKeys m = []"
  then have "fmdom' m = {}" using set_sortedKeys [of m] by simp
  then show "m = fmempty"
    by (intro fmap_ext) (auto simp: fmlookup_dom'_iff)
qed simp

lemma fmdom'_iff_Some: "k \<in> fmdom' m \<longleftrightarrow> (\<exists>v. fmlookup m k = Some v)"
  by (auto simp: fmlookup_dom'_iff)

lemma fmdom'_iff_not_None: "k \<in> fmdom' m \<longleftrightarrow> fmlookup m k \<noteq> None"
  by (auto simp: fmlookup_dom'_iff)

lemma fmdom'_empty_iff: "fmdom' m = {} \<longleftrightarrow> m = fmempty"
proof
  assume "fmdom' m = {}"
  then have "fmlookup m k = None" for k
    using fmdom'_iff_not_None [of k m] by blast
  then show "m = fmempty" by (intro fmap_ext) simp
qed simp

lemma fmdom'_fmupd [simp]: "fmdom' (fmupd k v m) = insert k (fmdom' m)"
  by (auto simp: fmdom'_iff_not_None)

lemma fmlookup_add_option:
  "fmlookup (m ++\<^sub>f n) k = (case fmlookup n k of None \<Rightarrow> fmlookup m k | Some v \<Rightarrow> Some v)"
proof (cases "fmlookup n k")
  case None
  then have "k |\<notin>| fmdom n" by (rule fmdom_notI)
  then show ?thesis using None by simp
next
  case (Some v)
  then have "k |\<in>| fmdom n" by (rule fmdomI)
  then show ?thesis using Some by simp
qed

declare fmlookup_add [simp del]

lemma fmadd_lookup_left: "fmlookup n k = None \<Longrightarrow> fmlookup (m ++\<^sub>f n) k = fmlookup m k"
  by (simp add: fmlookup_add_option)

lemma fmadd_lookup_right: "fmlookup n k = Some v \<Longrightarrow> fmlookup (m ++\<^sub>f n) k = Some v"
  by (simp add: fmlookup_add_option)

lemma fmupd_same [simp]: "fmlookup m k = Some v \<Longrightarrow> fmupd k v m = m"
  by (rule fmap_ext) auto

lemma fmdom'_fmmap [simp]: "fmdom' (fmmap f m) = fmdom' m"
  by (auto simp: fmdom'_iff_not_None)

section \<open>Sorting by a key\<close>

text \<open>
  What \<open>sort.Sort\<close> guarantees: the result is a permutation and is sorted by \<open>Less\<close>.  It does
  not promise stability, so the result is determined only where the keys are distinct; then
  every implementation agrees with the stable insertion sort of the library.
\<close>

locale key_sorter =
  fixes srt :: "'a list \<Rightarrow> 'a list"
    and key :: "'a \<Rightarrow> 'k :: linorder"
  assumes srt_mset: "mset (srt xs) = mset xs"
    and srt_sorted: "sorted (map key (srt xs))"
begin

lemma srt_set: "set (srt xs) = set xs"
  by (metis srt_mset set_mset_mset)

lemma srt_length: "length (srt xs) = length xs"
  by (metis srt_mset size_mset)

lemma srt_determined:
  assumes "distinct (map key xs)" "mset ys = mset xs" "sorted (map key ys)"
  shows "srt xs = ys"
proof -
  have inj: "inj_on key (set xs)"
    using assms(1) by (simp add: distinct_map)
  have "sort_key key xs = srt xs"
    using inj by (intro sort_key_inj_key_eq) (simp_all add: srt_mset srt_sorted)
  moreover have "sort_key key xs = ys"
    using inj assms by (intro sort_key_inj_key_eq) simp_all
  ultimately show ?thesis by simp
qed

lemma srt_order_irrelevant:
  assumes "distinct (map key xs)" "mset xs = mset ys"
  shows "srt xs = srt ys"
  using assms by (intro srt_determined) (simp_all add: srt_mset srt_sorted)

lemma srt_id_if_sorted:
  assumes "distinct (map key xs)" "sorted (map key xs)"
  shows "srt xs = xs"
  using assms by (intro srt_determined) simp_all

end

lemma distinct_map_mset_cong:
  assumes "mset xs = mset ys"
  shows "distinct (map f xs) \<longleftrightarrow> distinct (map f ys)"
proof -
  have "mset (map f xs) = mset (map f ys)"
    using assms by (simp add: mset_map)
  then show ?thesis by (rule mset_eq_imp_distinct_iff)
qed

end
