(* ===== verification/GoStrings.thy ===== *)
theory GoStrings
  imports PgPrelude "HOL-Library.Sublist"
begin

text \<open>
  The functions of Go's package \<open>strings\<close> that the program calls, on byte strings, and the
  joining of parts by a separator byte that grouping keys and URL paths share.
\<close>

section \<open>Prefixes, suffixes and trimming\<close>

definition HasPrefix :: "string \<Rightarrow> string \<Rightarrow> bool" where
  "HasPrefix s p \<longleftrightarrow> take (length p) s = p"

definition HasSuffix :: "string \<Rightarrow> string \<Rightarrow> bool" where
  "HasSuffix s x \<longleftrightarrow> length x \<le> length s \<and> drop (length s - length x) s = x"

definition TrimSuffix :: "string \<Rightarrow> string \<Rightarrow> string" where
  "TrimSuffix s x = (if HasSuffix s x then take (length s - length x) s else s)"

text \<open>\<open>strings.TrimRight\<close> with a one-byte cutset.\<close>

fun TrimRight :: "string \<Rightarrow> char \<Rightarrow> string" where
  "TrimRight s c = rev (dropWhile (\<lambda>x. x = c) (rev s))"

text \<open>\<open>strings.ToLower\<close> on the bytes of an ASCII string.\<close>

definition ascii_lower :: "char \<Rightarrow> char" where
  "ascii_lower c = (let n = (of_char c :: nat) in if 65 \<le> n \<and> n \<le> 90 then char_of (n + 32) else c)"

definition ToLower :: "string \<Rightarrow> string" where
  "ToLower s = map ascii_lower s"

lemma HasSuffix_append [simp]: "HasSuffix (s @ x) x"
  by (simp add: HasSuffix_def)

lemma HasSuffix_iff: "HasSuffix s x \<longleftrightarrow> (\<exists>p. s = p @ x)"
  by (auto simp: HasSuffix_def) (metis append_take_drop_id)

lemma HasPrefix_iff: "HasPrefix s p \<longleftrightarrow> (\<exists>r. s = p @ r)"
proof
  assume "HasPrefix s p"
  then have "s = p @ drop (length p) s"
    by (metis HasPrefix_def append_take_drop_id)
  then show "\<exists>r. s = p @ r" ..
qed (auto simp: HasPrefix_def)

lemma TrimSuffix_append [simp]: "TrimSuffix (s @ x) x = s"
  by (simp add: TrimSuffix_def)

lemma TrimSuffix_eq_iff: "x \<noteq> [] \<Longrightarrow> TrimSuffix s x = s \<longleftrightarrow> \<not> HasSuffix s x"
  by (auto simp: TrimSuffix_def HasSuffix_iff)

lemma TrimRight_replicate:
  assumes "s = [] \<or> last s \<noteq> c"
  shows "TrimRight (s @ replicate n c) c = s"
proof -
  have "dropWhile (\<lambda>x. x = c) (replicate n c @ rev s) = rev s"
    using assms by (induction n) (cases s rule: rev_cases; simp)+
  then show ?thesis by simp
qed

section \<open>Joining parts with a separator byte\<close>

fun joinSep :: "char \<Rightarrow> string list \<Rightarrow> string" where
  "joinSep c [] = []"
| "joinSep c [p] = p"
| "joinSep c (p # q # ps) = p @ c # joinSep c (q # ps)"

lemma joinSep_Cons: "ps \<noteq> [] \<Longrightarrow> joinSep c (p # ps) = p @ c # joinSep c ps"
  by (cases ps) simp_all

lemma joinSep_has_sep: "2 \<le> length ps \<Longrightarrow> c \<in> set (joinSep c ps)"
  by (induction c ps rule: joinSep.induct) auto

lemma append_sep_inject:
  assumes "c \<notin> set xs" "c \<notin> set ys" "xs @ c # us = ys @ c # vs"
  shows "xs = ys \<and> us = vs"
  using assms
proof (induction xs arbitrary: ys)
  case Nil
  then show ?case by (cases ys) auto
next
  case (Cons x xs)
  then show ?case by (cases ys) auto
qed

lemma joinSep_inject:
  assumes "ps \<noteq> []" "qs \<noteq> []"
    and "\<forall>p \<in> set ps. c \<notin> set p" "\<forall>q \<in> set qs. c \<notin> set q"
    and "joinSep c ps = joinSep c qs"
  shows "ps = qs"
  using assms
proof (induction ps arbitrary: qs)
  case Nil
  then show ?case by simp
next
  case (Cons p ps)
  obtain q qs' where qs: "qs = q # qs'" using Cons.prems(2) by (cases qs) auto
  show ?case
  proof (cases "ps = [] \<or> qs' = []")
    case True
    then have "ps = [] \<and> qs' = []"
      using Cons.prems(3-5) qs by (cases "ps = []"; cases "qs' = []") (auto simp: joinSep_Cons)
    then show ?thesis using Cons.prems qs by simp
  next
    case False
    then have "p @ c # joinSep c ps = q @ c # joinSep c qs'"
      using Cons.prems qs by (simp add: joinSep_Cons)
    moreover have "c \<notin> set p" "c \<notin> set q" using Cons.prems(3,4) qs by simp_all
    ultimately have "p = q" "joinSep c ps = joinSep c qs'"
      by (auto dest: append_sep_inject [rotated 2])
    moreover from this have "ps = qs'"
      using Cons.IH [of qs'] Cons.prems(3,4) False qs by auto
    ultimately show ?thesis using qs by simp
  qed
qed

section \<open>Splitting at a separator byte\<close>

text \<open>\<open>strings.Split\<close> with a one-byte separator: one more part than separators.\<close>

fun splitOn :: "char \<Rightarrow> string \<Rightarrow> string list" where
  "splitOn c [] = [[]]"
| "splitOn c (x # xs) =
     (if x = c then [] # splitOn c xs
      else (case splitOn c xs of [] \<Rightarrow> [[x]] | p # ps \<Rightarrow> (x # p) # ps))"

lemma splitOn_not_Nil [simp]: "splitOn c s \<noteq> []"
  by (induction s) (auto split: list.splits)

lemma joinSep_splitOn [simp]: "joinSep c (splitOn c s) = s"
proof (induction s)
  case (Cons x xs)
  show ?case
  proof (cases "splitOn c xs")
    case (Cons p ps)
    then show ?thesis using Cons.IH by (cases ps) (auto simp: joinSep_Cons)
  qed simp
qed simp

lemma splitOn_no_sep: "p \<in> set (splitOn c s) \<Longrightarrow> c \<notin> set p"
  by (induction s arbitrary: p) (auto split: list.splits if_splits)

lemma splitOn_joinSep:
  assumes "ps \<noteq> []" "\<forall>p \<in> set ps. c \<notin> set p"
  shows "splitOn c (joinSep c ps) = ps"
  using assms by (intro joinSep_inject [of _ _ c]) (auto dest: splitOn_no_sep)

end
