(* ===== verification/UrlLabels.thy ===== *)
theory UrlLabels
  imports GoStrings
begin

text \<open>
  The grouping labels in the URL path: \<open>decodeBase64\<close> and \<open>splitLabels\<close> of handler/push.go, the
  base64 encoding that handler/status.go uses for links, and the parts of Go's package
  \<open>encoding/base64\<close> behind them (\<open>RawURLEncoding\<close>: no padding, not strict, line breaks ignored).
  What makes a label name valid and how names are unescaped is decided by package \<open>model\<close>,
  under the scheme chosen in main.go; both are parameters.
\<close>

section \<open>The base64 alphabet\<close>

definition b64alphabet :: string where
  "b64alphabet = ''ABCDEFGHIJKLMNOPQRSTUVWXYZabcdefghijklmnopqrstuvwxyz0123456789-_''"

definition b64char :: "nat \<Rightarrow> char" where
  "b64char v = b64alphabet ! v"

fun indexOf :: "char \<Rightarrow> string \<Rightarrow> nat \<Rightarrow> nat option" where
  "indexOf c [] i = None"
| "indexOf c (x # xs) i = (if x = c then Some i else indexOf c xs (i + 1))"

definition b64val :: "char \<Rightarrow> nat option" where
  "b64val c = indexOf c b64alphabet 0"

lemma b64val_char: "v < 64 \<Longrightarrow> b64val (b64char v) = Some v"
proof -
  have "list_all (\<lambda>v. b64val (b64char v) = Some v) [0..<64]" by code_simp
  then show "v < 64 \<Longrightarrow> ?thesis" by (simp add: list_all_iff)
qed

lemma b64char_not_pad: "v < 64 \<Longrightarrow> b64char v \<noteq> CHR ''=''"
proof -
  have "list_all (\<lambda>v. b64char v \<noteq> CHR ''='' \<and> b64char v \<noteq> CHR ''/'') [0..<64]" by code_simp
  then show "v < 64 \<Longrightarrow> ?thesis" by (simp add: list_all_iff)
qed

lemma b64char_not_slash: "v < 64 \<Longrightarrow> b64char v \<noteq> CHR ''/''"
proof -
  have "list_all (\<lambda>v. b64char v \<noteq> CHR ''='' \<and> b64char v \<noteq> CHR ''/'') [0..<64]" by code_simp
  then show "v < 64 \<Longrightarrow> ?thesis" by (simp add: list_all_iff)
qed

section \<open>Encoding\<close>

text \<open>\<open>RawURLEncoding.EncodeToString\<close>: three bytes to four characters, a rest of two to three, of one to two.\<close>

fun b64encode :: "nat list \<Rightarrow> string" where
  "b64encode (a # b # c # rest) =
     b64char (a div 4) # b64char (a mod 4 * 16 + b div 16) # b64char (b mod 16 * 4 + c div 64) #
     b64char (c mod 64) # b64encode rest"
| "b64encode [a, b] = [b64char (a div 4), b64char (a mod 4 * 16 + b div 16), b64char (b mod 16 * 4)]"
| "b64encode [a] = [b64char (a div 4), b64char (a mod 4 * 16)]"
| "b64encode [] = []"

definition bytes :: "string \<Rightarrow> nat list" where
  "bytes s = map of_char s"

definition encodeBase64 :: "string \<Rightarrow> string" where
  "encodeBase64 s = b64encode (bytes s)"

section \<open>Decoding\<close>

text \<open>The bytes of a quantum of two, three or four values.\<close>

fun quantum :: "nat list \<Rightarrow> nat list" where
  "quantum [v0, v1] = [v0 * 4 + v1 div 16]"
| "quantum [v0, v1, v2] = [v0 * 4 + v1 div 16, v1 mod 16 * 16 + v2 div 4]"
| "quantum [v0, v1, v2, v3] = [v0 * 4 + v1 div 16, v1 mod 16 * 16 + v2 div 4, v2 mod 4 * 64 + v3]"
| "quantum vs = []"

text \<open>
  \<open>DecodeString\<close>: \<open>si\<close> is the position in the input, \<open>acc\<close> the values of the current quantum.
  The result is what was decoded and, after an error, the offset of \<open>CorruptInputError\<close>.
\<close>

fun b64decode :: "string \<Rightarrow> nat \<Rightarrow> nat list \<Rightarrow> nat list \<times> nat option" where
  "b64decode [] si acc =
     (if acc = [] then ([], None) else if length acc = 1 then ([], Some (si - 1)) else (quantum acc, None))"
| "b64decode (c # cs) si acc =
     (case b64val c of
        Some v \<Rightarrow>
          if length acc = 3
          then (case b64decode cs (si + 1) [] of (rest, err) \<Rightarrow> (quantum (acc @ [v]) @ rest, err))
          else b64decode cs (si + 1) (acc @ [v])
      | None \<Rightarrow> if c = CHR 0x0A \<or> c = CHR 0x0D then b64decode cs (si + 1) acc else ([], Some si))"

definition decodeBase64 :: "string \<Rightarrow> string \<times> nat option" where
  "decodeBase64 s =
     (case b64decode (TrimRight s CHR ''='') 0 [] of (b, err) \<Rightarrow> (map char_of b, err))"

lemma small:
  assumes "a < 256" "b < 256"
  shows "a div 4 < 64" "a mod 4 * 16 + b div 16 < 64" "a mod 16 * 4 + b div 64 < (64 :: nat)"
    "a mod 4 * 16 < 64" "a mod 16 * 4 < 64" "a div 16 < 16" "a div 64 < 4"
proof -
  have m: "a mod 4 \<le> 3" "a mod 16 \<le> 15" "b div 16 \<le> 15" "b div 64 \<le> 3" "a div 4 \<le> 63" "a div 16 \<le> 15" "a div 64 \<le> 3"
    using assms by simp_all
  then show "a div 4 < 64" "a mod 4 * 16 + b div 16 < 64" "a mod 16 * 4 + b div 64 < 64"
    "a mod 4 * 16 < 64" "a mod 16 * 4 < 64" "a div 16 < 16" "a div 64 < 4"
    by linarith+
qed

lemma b64encode_decode:
  "\<forall>b \<in> set bs. b < 256 \<Longrightarrow> b64decode (b64encode bs) si [] = (bs, None)"
proof (induction bs arbitrary: si rule: b64encode.induct)
  case (1 a b c rest)
  then have lim: "a < 256" "b < 256" "c < 256" by simp_all
  have "c mod 64 < 64" by simp
  then show ?case
    using 1 small(1,2) [OF lim(1,2)] small(3) [OF lim(2,3)] small(6) [OF lim(2,2)] small(7) [OF lim(3,3)]
    by (simp add: b64val_char)
next
  case (2 a b)
  then have lim: "a < 256" "b < 256" by simp_all
  show ?case
    using small(1,2) [OF lim] small(5,6) [OF lim(2,2)] by (simp add: b64val_char)
next
  case (3 a)
  then have lim: "a < 256" by simp
  show ?case
    using small(1,4) [OF lim lim] by (simp add: b64val_char)
qed simp

lemma b64encode_chars: "\<forall>b \<in> set bs. b < 256 \<Longrightarrow> x \<in> set (b64encode bs) \<Longrightarrow> x \<noteq> CHR ''='' \<and> x \<noteq> CHR ''/''"
proof (induction bs rule: b64encode.induct)
  case (1 a b c rest)
  then have lim: "a < 256" "b < 256" "c < 256" by simp_all
  have "c mod 64 < 64" by simp
  then show ?case
    using 1 small(1,2) [OF lim(1,2)] small(3) [OF lim(2,3)] by (auto simp: b64char_not_pad b64char_not_slash)
next
  case (2 a b)
  then have lim: "a < 256" "b < 256" by simp_all
  show ?case
    using 2 small(1,2) [OF lim] small(5) [OF lim(2,2)] by (auto simp: b64char_not_pad b64char_not_slash)
next
  case (3 a)
  then have lim: "a < 256" by simp
  show ?case using 3 small(1,4) [OF lim lim] by (auto simp: b64char_not_pad b64char_not_slash)
qed simp

lemma bytes_lim: "\<forall>b \<in> set (bytes s). b < 256"
  by (auto simp: bytes_def nat_of_char_less_256)

lemma char_bytes: "map char_of (bytes s) = s"
  by (simp add: bytes_def comp_def)

lemma encodeBase64_chars: "CHR ''='' \<notin> set (encodeBase64 s)" "CHR ''/'' \<notin> set (encodeBase64 s)"
  using b64encode_chars [OF bytes_lim, of _ s] unfolding encodeBase64_def by blast+

lemma decode_encode_padded: "decodeBase64 (encodeBase64 s @ replicate n CHR ''='') = (s, None)"
proof -
  have "encodeBase64 s = [] \<or> last (encodeBase64 s) \<noteq> CHR ''=''"
    using encodeBase64_chars(1) [of s] last_in_set by metis
  then have "TrimRight (encodeBase64 s @ replicate n CHR ''='') CHR ''='' = encodeBase64 s"
    by (rule TrimRight_replicate)
  then show ?thesis
    using b64encode_decode [OF bytes_lim, of s 0] unfolding decodeBase64_def
    by (simp only: encodeBase64_def case_prod_conv char_bytes)
qed

section \<open>Splitting the label path\<close>

record label_syntax =
  UnescapeName :: "string \<Rightarrow> string"
  IsValidLabelName :: "string \<Rightarrow> bool"

definition Base64Suffix :: string where
  "Base64Suffix = ''@base64''"

datatype url_error =
    OddComponents string
  | ImproperLabelName string
  | InvalidBase64 string string nat

text \<open>The body of the loop: the label that a name component and a value component stand for.\<close>

definition parseLabel ::
  "model_consts \<Rightarrow> label_syntax \<Rightarrow> string \<Rightarrow> string \<Rightarrow> url_error + string \<times> string" where
  "parseLabel mc syn name value =
     (let trimmedName = TrimSuffix name Base64Suffix;
          unescapedName = UnescapeName syn trimmedName
      in if \<not> IsValidLabelName syn unescapedName \<or> HasPrefix trimmedName (ReservedLabelPrefix mc)
         then Inl (ImproperLabelName trimmedName)
         else if name = trimmedName then Inr (unescapedName, value)
         else (case decodeBase64 value of
                 (decodedValue, None) \<Rightarrow> Inr (unescapedName, decodedValue)
               | (decodedValue, Some offset) \<Rightarrow> Inl (InvalidBase64 trimmedName value offset)))"

text \<open>The loop over pairs of components; the map under construction is the last argument.\<close>

fun splitComponents ::
  "model_consts \<Rightarrow> label_syntax \<Rightarrow> string list \<Rightarrow> labels \<Rightarrow> url_error + labels" where
  "splitComponents mc syn [] result = Inr result"
| "splitComponents mc syn [c] result = Inr result"
| "splitComponents mc syn (name # value # rest) result =
     (case parseLabel mc syn name value of
        Inl err \<Rightarrow> Inl err
      | Inr (n, v) \<Rightarrow> splitComponents mc syn rest (fmupd n v result))"

definition splitLabels :: "model_consts \<Rightarrow> label_syntax \<Rightarrow> string \<Rightarrow> url_error + labels" where
  "splitLabels mc syn lbls =
     (if length lbls \<le> 1 then Inr fmempty
      else let components = splitOn CHR ''/'' (drop 1 lbls) in
           if odd (length components) then Inl (OddComponents lbls)
           else splitComponents mc syn components fmempty)"

section \<open>Writing a label path\<close>

text \<open>
  A label of a path: the name, the value, and, if the value is written in base64, the number of
  padding characters that are appended.
\<close>

type_synonym path_label = "string \<times> string \<times> nat option"

definition segments :: "path_label \<Rightarrow> string list" where
  "segments pl = (case pl of
     (n, v, Some k) \<Rightarrow> [n @ Base64Suffix, encodeBase64 v @ replicate k CHR ''='']
   | (n, v, None) \<Rightarrow> [n, v])"

definition labelPath :: "path_label list \<Rightarrow> string" where
  "labelPath pls = concat (map (\<lambda>seg. CHR ''/'' # seg) (concat (map segments pls)))"

text \<open>Which labels can be written: a plain value without slash, a name that survives the checks.\<close>

definition writable :: "model_consts \<Rightarrow> label_syntax \<Rightarrow> path_label \<Rightarrow> bool" where
  "writable mc syn pl = (case pl of (n, v, b) \<Rightarrow>
     CHR ''/'' \<notin> set n \<and> IsValidLabelName syn n \<and> UnescapeName syn n = n \<and>
     \<not> HasPrefix n (ReservedLabelPrefix mc) \<and> (b \<noteq> None \<or> \<not> HasSuffix n Base64Suffix \<and> CHR ''/'' \<notin> set v))"

definition labelsOf :: "path_label list \<Rightarrow> labels" where
  "labelsOf pls = fold (\<lambda>(n, v, b) m. fmupd n v m) pls fmempty"

lemma Base64Suffix_not_Nil [simp]: "Base64Suffix \<noteq> []"
  by (simp add: Base64Suffix_def)

definition writtenValue :: "string \<Rightarrow> nat option \<Rightarrow> string" where
  "writtenValue v b = (case b of Some k \<Rightarrow> encodeBase64 v @ replicate k CHR ''='' | None \<Rightarrow> v)"

lemma segments_written:
  "segments (n, v, b) = [n @ (if b = None then [] else Base64Suffix), writtenValue v b]"
  by (cases b) (simp_all add: segments_def writtenValue_def)

lemma parseLabel_writable:
  assumes "writable mc syn (n, v, b)"
  shows "parseLabel mc syn (n @ (if b = None then [] else Base64Suffix)) (writtenValue v b) = Inr (n, v)"
proof -
  have "TrimSuffix n Base64Suffix = n" if "b = None"
    using assms that by (simp add: writable_def TrimSuffix_eq_iff)
  then show ?thesis
    using assms decode_encode_padded [of v]
    by (cases b) (simp_all add: parseLabel_def Let_def writable_def writtenValue_def)
qed

lemma splitComponents_path:
  "list_all (writable mc syn) pls \<Longrightarrow>
   splitComponents mc syn (concat (map segments pls)) m = Inr (fold (\<lambda>(n, v, b) m. fmupd n v m) pls m)"
proof (induction pls arbitrary: m)
  case (Cons pl pls)
  obtain n v b where pl: "pl = (n, v, b)" by (cases pl)
  then have w: "writable mc syn (n, v, b)" and ws: "list_all (writable mc syn) pls" using Cons.prems by simp_all
  show ?case
    using Cons.IH [OF ws] parseLabel_writable [OF w]
    by (simp add: pl segments_written)
qed simp

text \<open>What an accepted label satisfies.\<close>

lemma parseLabel_ok:
  "parseLabel mc syn name value = Inr (n, v) \<Longrightarrow>
   IsValidLabelName syn n \<and> n = UnescapeName syn (TrimSuffix name Base64Suffix) \<and>
   \<not> HasPrefix (TrimSuffix name Base64Suffix) (ReservedLabelPrefix mc)"
  by (auto simp: parseLabel_def Let_def split: if_splits prod.splits option.splits)

lemma joinSep_concat: "segs \<noteq> [] \<Longrightarrow> concat (map (\<lambda>seg. c # seg) segs) = c # joinSep c segs"
  by (induction c segs rule: joinSep.induct) auto

lemma segments_no_slash: "writable mc syn pl \<Longrightarrow> seg \<in> set (segments pl) \<Longrightarrow> CHR ''/'' \<notin> set seg"
  by (cases pl) (auto simp: writable_def segments_def Base64Suffix_def encodeBase64_chars split: option.splits)

lemma length_segments: "length (concat (map segments pls)) = 2 * length pls"
  by (induction pls) (auto simp: segments_written)

lemma splitComponents_names:
  assumes "splitComponents mc syn cs m = Inr m'" "\<forall>n \<in> fmdom' m. P n"
    and "\<And>name value n v. parseLabel mc syn name value = Inr (n, v) \<Longrightarrow> P n"
  shows "\<forall>n \<in> fmdom' m'. P n"
  using assms
proof (induction mc syn cs m rule: splitComponents.induct)
  case (3 mc syn nm vl rest res)
  then show ?case by (auto split: sum.splits)
qed simp_all

section \<open>Properties\<close>

text \<open>
  Decoding undoes the encoding used by the web page, for every byte string and with any number
  of padding characters appended.
\<close>

lemma base64_roundtrip: "decodeBase64 (encodeBase64 s @ replicate n CHR ''='') = (s, None)"
  by (rule decode_encode_padded)

text \<open>
  A path written from a list of labels, each in plain or in base64 form with any padding, is split into
  exactly these labels (the last one wins where a name occurs twice); the base64 form carries arbitrary byte
  strings.
\<close>

lemma splitLabels_roundtrip:
  assumes "list_all (writable mc syn) pls"
  shows "splitLabels mc syn (labelPath pls) = Inr (labelsOf pls)"
proof (cases "pls = []")
  case True
  then show ?thesis by (simp add: splitLabels_def labelPath_def labelsOf_def)
next
  case False
  let ?segs = "concat (map segments pls)"
  have len: "length ?segs = 2 * length pls" by (rule length_segments)
  have ne: "?segs \<noteq> []"
  proof
    assume "?segs = []"
    then have "length ?segs = 0" by (simp only: list.size)
    then show False using len False by simp
  qed
  have path: "labelPath pls = CHR ''/'' # joinSep CHR ''/'' ?segs"
    unfolding labelPath_def by (rule joinSep_concat [OF ne])
  have "CHR ''/'' \<in> set (joinSep CHR ''/'' ?segs)"
    using len False by (intro joinSep_has_sep) (cases pls; simp)
  then have "1 < length (labelPath pls)" unfolding path by (cases "joinSep CHR ''/'' ?segs") auto
  moreover have "splitOn CHR ''/'' (drop 1 (labelPath pls)) = ?segs"
    unfolding path using ne assms
    by (simp only: drop_Suc_Cons drop_0 One_nat_def) (intro splitOn_joinSep, auto simp: list_all_iff dest: segments_no_slash)
  moreover have "even (length ?segs)" by (simp only: len) simp
  ultimately show ?thesis
    using splitComponents_path [OF assms, of fmempty] unfolding splitLabels_def Let_def labelsOf_def by simp
qed

text \<open>
  A name that is escaped in the URL is checked for the reserved prefix before it is unescaped, so a
  reserved label name passes where unescaping is enabled.
\<close>

lemma escaped_reserved_name_passes:
  assumes "\<not> HasSuffix name Base64Suffix" "\<not> HasPrefix name (ReservedLabelPrefix mc)"
    and "IsValidLabelName syn (UnescapeName syn name)" "CHR ''/'' \<notin> set name" "CHR ''/'' \<notin> set value"
  shows "splitLabels mc syn (CHR ''/'' # name @ CHR ''/'' # value) = Inr (fmupd (UnescapeName syn name) value fmempty)"
proof -
  have "splitOn CHR ''/'' (joinSep CHR ''/'' [name, value]) = [name, value]"
    using assms(4,5) by (intro splitOn_joinSep) simp_all
  then show ?thesis
    using assms(1-3) TrimSuffix_eq_iff [of Base64Suffix name]
    by (simp add: splitLabels_def Let_def parseLabel_def)
qed

end
