(* ===== verification/GoNum.thy ===== *)
theory GoNum
  imports Complex_Main "HOL-Library.Log_Nat" "HOL-Library.Word" PgPrelude
begin

text \<open>
  Go's \<open>time.Time\<close>, \<open>time.Duration\<close> and \<open>float64\<close>, as far as the program computes with them.
  A \<open>time.Time\<close> is the instant in nanoseconds relative to the Unix epoch, unbounded as the
  type's range is (its seconds are 64 bits wide); the zero \<open>time.Time\<close> is midnight of
  January 1 of the year 1.  Integers of 64 bits wrap.  A float64 is a binary64 value:
  the finite ones are written \<open>F64 m e\<close> for \<open>m * 2 ^ e\<close>.
\<close>

section \<open>Instants\<close>

type_synonym gotime = int

definition zeroTime :: gotime where
  "zeroTime = - 62135596800000000000"

definition IsZero :: "gotime \<Rightarrow> bool" where
  "IsZero t \<longleftrightarrow> t = zeroTime"

definition wrap64 :: "int \<Rightarrow> int" where
  "wrap64 n = sint (word_of_int n :: 64 word)"

definition UnixNano :: "gotime \<Rightarrow> int" where
  "UnixNano t = wrap64 t"

text \<open>\<open>Time.Sub\<close> saturates at the extreme durations.\<close>

definition Sub :: "gotime \<Rightarrow> gotime \<Rightarrow> int" where
  "Sub t u = max (- 9223372036854775808) (min 9223372036854775807 (t - u))"

lemma wrap64_id: "- 9223372036854775808 \<le> n \<Longrightarrow> n < 9223372036854775808 \<Longrightarrow> wrap64 n = n"
  by (simp add: wrap64_def sint_sbintrunc' signed_take_bit_int_eq_self)

section \<open>float64\<close>

text \<open>\<open>F64Inf True\<close> is minus infinity.\<close>

datatype float64 = F64NaN | F64Inf bool | F64NegZero | F64 int int

text \<open>Round the quotient of an integer by a positive integer to the nearest integer, ties to even.\<close>

definition roundQuot :: "int \<Rightarrow> int \<Rightarrow> int" where
  "roundQuot a b =
     (let q = a div b; r = a mod b in
      if 2 * r < b then q else if 2 * r > b then q + 1 else if even q then q else q + 1)"

text \<open>
  The exponent \<open>e\<close> with \<open>2 ^ 52 \<le> (a / d) / 2 ^ e < 2 ^ 53\<close> for positive \<open>a\<close> and \<open>d\<close>,
  but never below that of the subnormal numbers.
\<close>

definition binExp :: "int \<Rightarrow> int \<Rightarrow> int" where
  "binExp a d =
     (let k = bitlen a - bitlen d;
          e = (if a * 2 ^ nat (- k) < d * 2 ^ nat k then k - 53 else k - 52)
      in max e (- 1074))"

text \<open>The binary64 value nearest to \<open>n / d\<close>, for positive \<open>d\<close>.\<close>

definition f64_of_quot :: "int \<Rightarrow> int \<Rightarrow> float64" where
  "f64_of_quot n d =
     (if n = 0 then F64 0 0
      else let a = \<bar>n\<bar>;
               e = binExp a d;
               m = roundQuot (a * 2 ^ nat (- e)) (d * 2 ^ nat e)
           in if 0 \<le> e \<and> 2 ^ 1024 \<le> m * 2 ^ nat e then F64Inf (n < 0)
              else if m = 0 \<and> n < 0 then F64NegZero
              else F64 (sgn n * m) e)"

text \<open>The conversion \<open>float64(n)\<close> of an integer, and the division of a float by a positive
  integer constant that is itself a float64.\<close>

definition f64_of_int :: "int \<Rightarrow> float64" where
  "f64_of_int n = f64_of_quot n 1"

fun f64_div_const :: "float64 \<Rightarrow> int \<Rightarrow> float64" where
  "f64_div_const F64NaN d = F64NaN"
| "f64_div_const (F64Inf s) d = F64Inf s"
| "f64_div_const F64NegZero d = F64NegZero"
| "f64_div_const (F64 m e) d = f64_of_quot (m * 2 ^ nat e) (d * 2 ^ nat (- e))"

text \<open>The comparisons: false as soon as an operand is not a number.\<close>

definition fin_le :: "int \<Rightarrow> int \<Rightarrow> int \<Rightarrow> int \<Rightarrow> bool" where
  "fin_le m e n f = (let k = min e f in m * 2 ^ nat (e - k) \<le> n * 2 ^ nat (f - k))"

fun f64_le :: "float64 \<Rightarrow> float64 \<Rightarrow> bool" where
  "f64_le F64NaN y = False"
| "f64_le x F64NaN = False"
| "f64_le (F64Inf True) y = True"
| "f64_le x (F64Inf False) = True"
| "f64_le (F64Inf False) y = False"
| "f64_le x (F64Inf True) = False"
| "f64_le F64NegZero F64NegZero = True"
| "f64_le F64NegZero (F64 n f) = fin_le 0 0 n f"
| "f64_le (F64 m e) F64NegZero = fin_le m e 0 0"
| "f64_le (F64 m e) (F64 n f) = fin_le m e n f"

definition f64_lt :: "float64 \<Rightarrow> float64 \<Rightarrow> bool" where
  "f64_lt x y \<longleftrightarrow> f64_le x y \<and> \<not> f64_le y x"

text \<open>Go's operators \<open><=\<close> and \<open><\<close>; they are no order, since nothing compares with \<open>F64NaN\<close>.\<close>

instantiation float64 :: ord
begin

definition less_eq_float64 :: "float64 \<Rightarrow> float64 \<Rightarrow> bool" where
  "less_eq_float64 x y \<longleftrightarrow> f64_le x y"

definition less_float64 :: "float64 \<Rightarrow> float64 \<Rightarrow> bool" where
  "less_float64 x y \<longleftrightarrow> f64_lt x y"

instance ..

end

lemmas f64_ops = less_eq_float64_def less_float64_def f64_lt_def

definition f64_pos :: "float64 \<Rightarrow> bool" where
  "f64_pos x \<longleftrightarrow> F64 0 0 < x"

end
