(* ===== verification/Dto.thy ===== *)
theory Dto
  imports GoNum GoStrings
begin

text \<open>
  The protobuf messages of github.com/prometheus/client\_model that the program builds, reads and
  stores, as records of the fields the program uses.  A pointer field of the message is an
  \<open>option\<close>; the generated getters are nil-safe and return the zero value for nil, as
  \<open>getStr\<close> does for strings.  The messages themselves are generated code outside this
  repository; the program relies on nothing of them but these fields and getters.
\<close>

section \<open>Metric types\<close>

datatype MetricType = COUNTER | GAUGE | SUMMARY | UNTYPED | HISTOGRAM | GAUGE_HISTOGRAM

section \<open>Label pairs and metrics\<close>

record LabelPair =
  lpName :: "string option"
  lpValue :: "string option"

definition GetName :: "LabelPair \<Rightarrow> string" where
  "GetName lp = getStr (lpName lp)"

definition GetValue :: "LabelPair \<Rightarrow> string" where
  "GetValue lp = getStr (lpValue lp)"

record Quantile =
  qQuantile :: float64
  qValue :: float64

record Summary =
  sSampleCount :: "64 word"
  sSampleSum :: float64
  sQuantile :: "Quantile list"

record Bucket =
  bCumulativeCount :: "64 word"
  bCumulativeCountFloat :: float64
  bUpperBound :: float64

record BucketSpan =
  spOffset :: "32 word"
  spLength :: "32 word"

record Histogram =
  hSampleCount :: "64 word"
  hSampleCountFloat :: float64
  hSampleSum :: float64
  hBucket :: "Bucket list"
  hSchema :: "32 word"
  hZeroThreshold :: float64
  hZeroCount :: "64 word"
  hZeroCountFloat :: float64
  hNegativeSpan :: "BucketSpan list"
  hNegativeDelta :: "64 word list"
  hNegativeCount :: "float64 list"
  hPositiveSpan :: "BucketSpan list"
  hPositiveDelta :: "64 word list"
  hPositiveCount :: "float64 list"

record Metric =
  mLabel :: "LabelPair list"
  mGauge :: "float64 option"
  mCounter :: "float64 option"
  mSummary :: "Summary option"
  mUntyped :: "float64 option"
  mHistogram :: "Histogram option"
  mTimestampMs :: "64 word option"

section \<open>Metric families\<close>

record MetricFamily =
  mfName :: "string option"
  mfHelp :: "string option"
  mfType :: "MetricType option"
  mfMetric :: "Metric list"

definition GetHelp :: "MetricFamily \<Rightarrow> string" where
  "GetHelp mf = getStr (mfHelp mf)"

definition GetFamilyName :: "MetricFamily \<Rightarrow> string" where
  "GetFamilyName mf = getStr (mfName mf)"

text \<open>\<open>GetType\<close>: the zero value of the enumeration is \<open>COUNTER\<close>.\<close>

definition GetType :: "MetricFamily \<Rightarrow> MetricType" where
  "GetType mf = (case mfType mf of None \<Rightarrow> COUNTER | Some t \<Rightarrow> t)"

definition GetGaugeValue :: "Metric \<Rightarrow> float64" where
  "GetGaugeValue m = (case mGauge m of None \<Rightarrow> F64 0 0 | Some v \<Rightarrow> v)"

lemma getters [simp, getter_simps]:
  "GetName \<lparr>lpName = Some n, lpValue = v\<rparr> = n"
  "GetValue \<lparr>lpName = k, lpValue = Some w\<rparr> = w"
  "GetName (lp\<lparr>lpValue := x\<rparr>) = GetName lp"
  "GetValue (lp\<lparr>lpValue := Some w\<rparr>) = w"
  by (simp_all add: GetName_def GetValue_def)

end
