(* ===== verification/LabelSan.thy ===== *)
theory LabelSan
  imports Dto
begin

text \<open>
  \<open>sanitizeLabels\<close> and \<open>labelPairs\<close> of storage/diskmetricstore.go: every metric of a pushed
  family gets the grouping labels and an instance label, and its label pairs are sorted by
  name.  The lemmas characterise the result as a label map and show that neither the
  iteration order of the Go map nor an unstable sort can be observed where the names of a
  metric's labels are distinct.
\<close>

section \<open>Sorting label pairs\<close>

text \<open>\<open>sort.Sort(labelPairs(...))\<close> with \<open>Less\<close> comparing the names.\<close>

definition sortLabelPairs :: "LabelPair list \<Rightarrow> LabelPair list" where
  "sortLabelPairs s = sort_key GetName s"

interpretation lps: key_sorter sortLabelPairs GetName
  by unfold_locales (simp_all add: sortLabelPairs_def)

abbreviation labelNames :: "LabelPair list \<Rightarrow> string list" where
  "labelNames lps \<equiv> map GetName lps"

section \<open>The loop over the labels of one metric\<close>

text \<open>
  The inner loop: \<open>todo\<close> is \<open>gLabelsNotYetDone\<close>.  The last component tells whether the loop
  left through \<open>continue metric\<close>, which happens once nothing is left to do and the instance
  label has been seen; the label pairs behind that point are kept as they are.
\<close>

fun labelLoop :: "string \<Rightarrow> LabelPair list \<Rightarrow> labels \<Rightarrow> bool \<Rightarrow> LabelPair list \<times> labels \<times> bool \<times> bool" where
  "labelLoop inst [] todo hasInstance = ([], todo, hasInstance, False)"
| "labelLoop inst (lp # rest) todo hasInstance =
     (let ln = GetName lp;
          lp' = (case fmlookup todo ln of Some lv \<Rightarrow> lp\<lparr>lpValue := Some lv\<rparr> | None \<Rightarrow> lp);
          todo' = (case fmlookup todo ln of Some lv \<Rightarrow> fmdrop ln todo | None \<Rightarrow> todo);
          hasInstance' = (if ln = inst then True else hasInstance)
      in if fmdom' todo' = {} \<and> hasInstance' then (lp' # rest, todo', hasInstance', True)
         else (case labelLoop inst rest todo' hasInstance' of
                 (rest', todo'', h, early) \<Rightarrow> (lp' # rest', todo'', h, early)))"

definition newLabelPair :: "string \<Rightarrow> string \<Rightarrow> LabelPair" where
  "newLabelPair n v = \<lparr>lpName = Some n, lpValue = Some v\<rparr>"

text \<open>The label pairs appended for the grouping labels that are still missing.\<close>

definition missingPairs :: "labels \<Rightarrow> string list \<Rightarrow> LabelPair list" where
  "missingPairs todo ks = map (\<lambda>ln. newLabelPair ln (getStr (fmlookup todo ln))) ks"

text \<open>
  One iteration of the outer loop.  \<open>rng\<close> is the order in which the runtime iterates over
  what is left of \<open>gLabelsNotYetDone\<close>; that map is carried from metric to metric.
\<close>

definition sanitizeMetricBy ::
  "(labels \<Rightarrow> string list) \<Rightarrow> string \<Rightarrow> labels \<Rightarrow> labels \<Rightarrow> Metric \<Rightarrow> Metric \<times> labels" where
  "sanitizeMetricBy rng inst groupingLabels carried m =
     (case labelLoop inst (mLabel m) (carried ++\<^sub>f groupingLabels) False of
        (lbls, todo, hasInstance, early) \<Rightarrow>
          if early then (m\<lparr>mLabel := sortLabelPairs lbls\<rparr>, todo)
          else
            let added = missingPairs todo (rng todo);
                hasInstance' = (hasInstance \<or> inst \<in> set (rng todo));
                lbls' = lbls @ added @ (if hasInstance' then [] else [newLabelPair inst ''''])
            in (m\<lparr>mLabel := sortLabelPairs lbls'\<rparr>, fmempty))"

definition sanitizeMetric :: "string \<Rightarrow> labels \<Rightarrow> labels \<Rightarrow> Metric \<Rightarrow> Metric \<times> labels" where
  "sanitizeMetric = sanitizeMetricBy sortedKeys"

fun sanitizeMetrics :: "string \<Rightarrow> labels \<Rightarrow> labels \<Rightarrow> Metric list \<Rightarrow> Metric list" where
  "sanitizeMetrics inst groupingLabels carried [] = []"
| "sanitizeMetrics inst groupingLabels carried (m # ms) =
     (case sanitizeMetric inst groupingLabels carried m of
        (m', carried') \<Rightarrow> m' # sanitizeMetrics inst groupingLabels carried' ms)"

definition sanitizeLabels :: "model_consts \<Rightarrow> MetricFamily \<Rightarrow> labels \<Rightarrow> MetricFamily" where
  "sanitizeLabels mc mf groupingLabels =
     mf\<lparr>mfMetric := sanitizeMetrics (InstanceLabel mc) groupingLabels fmempty (mfMetric mf)\<rparr>"

section \<open>What the loop computes\<close>

definition override :: "labels \<Rightarrow> LabelPair \<Rightarrow> LabelPair" where
  "override todo lp = (case fmlookup todo (GetName lp) of Some lv \<Rightarrow> lp\<lparr>lpValue := Some lv\<rparr> | None \<Rightarrow> lp)"

lemma GetName_override [simp]: "GetName (override todo lp) = GetName lp"
  by (simp add: override_def GetName_def split: option.split)

lemma override_absent: "fmlookup todo (GetName lp) = None \<Longrightarrow> override todo lp = lp"
  by (simp add: override_def)

lemma map_override_absent:
  "\<forall>lp \<in> set lps. fmlookup todo (GetName lp) = None \<Longrightarrow> map (override todo) lps = lps"
  by (induction lps) (simp_all add: override_absent)

definition remaining :: "labels \<Rightarrow> LabelPair list \<Rightarrow> labels" where
  "remaining todo lps = fmfilter (\<lambda>n. n \<notin> set (labelNames lps)) todo"

lemma labelLoop_step:
  "labelLoop inst (lp # rest) todo h =
     (let todo' = fmdrop (GetName lp) todo; h' = (h \<or> GetName lp = inst)
      in if todo' = fmempty \<and> h' then (override todo lp # rest, todo', h', True)
         else (case labelLoop inst rest todo' h' of
                 (rest', todo'', h'', early) \<Rightarrow> (override todo lp # rest', todo'', h'', early)))"
proof -
  have "(case fmlookup todo (GetName lp) of Some lv \<Rightarrow> fmdrop (GetName lp) todo | None \<Rightarrow> todo)
      = fmdrop (GetName lp) todo"
    by (auto split: option.split intro!: fmap_ext)
  then show ?thesis
    by (auto simp: Let_def override_def fmdom'_empty_iff cong: if_cong)
qed

lemma labelLoop_distinct:
  assumes "distinct (labelNames lps)" "labelLoop inst lps todo h = (lps', todo', h', early)"
  shows "lps' = map (override todo) lps \<and> todo' = remaining todo lps \<and>
    (h' \<longleftrightarrow> h \<or> inst \<in> set (labelNames lps)) \<and> (early \<longrightarrow> todo' = fmempty \<and> h')"
  using assms
proof (induction lps arbitrary: todo h lps' todo' h' early)
  case Nil
  then show ?case by (auto simp: remaining_def intro: fmap_ext)
next
  case (Cons lp rest)
  let ?todo = "fmdrop (GetName lp) todo" and ?h = "h \<or> GetName lp = inst"
  have fresh: "GetName lp \<notin> set (labelNames rest)" and dist: "distinct (labelNames rest)"
    using Cons.prems(1) by simp_all
  have keep: "map (override ?todo) rest = map (override todo) rest"
  proof (intro map_cong refl)
    fix x assume "x \<in> set rest"
    then have "GetName x \<in> set (labelNames rest)" by simp
    then have "GetName x \<noteq> GetName lp" using fresh by metis
    then show "override ?todo x = override todo x" by (simp add: override_def)
  qed
  have rem: "remaining ?todo rest = remaining todo (lp # rest)"
    by (auto simp: remaining_def intro!: fmap_ext)
  have gone: "?todo = fmempty \<Longrightarrow> map (override todo) rest = rest \<and> remaining todo (lp # rest) = fmempty"
    using keep rem by (auto simp: map_override_absent remaining_def intro!: fmap_ext)
  show ?case
  proof (cases "?todo = fmempty \<and> ?h")
    case True
    then show ?thesis using Cons.prems(2) gone
      by (auto simp: labelLoop_step Let_def simp del: labelLoop.simps)
  next
    case False
    then obtain r where r: "labelLoop inst rest ?todo ?h = (r, todo', h', early)"
      and "lps' = override todo lp # r"
      using Cons.prems(2)
      by (auto simp: labelLoop_step Let_def simp del: labelLoop.simps split: prod.splits if_splits)
    then show ?thesis
      using Cons.IH [OF dist r] keep rem by auto
  qed
qed

text \<open>Without any assumption on the names: every entry of the map that has been used up was written
  to some label pair, and the loop leaves early only when nothing is missing.\<close>

definition hasLabel :: "LabelPair list \<Rightarrow> string \<Rightarrow> string \<Rightarrow> bool" where
  "hasLabel lps n v \<longleftrightarrow> (\<exists>lp \<in> set lps. GetName lp = n \<and> GetValue lp = v)"

lemma hasLabel_simps [simp]:
  "\<not> hasLabel [] n v"
  "hasLabel (lp # lps) n v \<longleftrightarrow> (GetName lp = n \<and> GetValue lp = v) \<or> hasLabel lps n v"
  "hasLabel (as @ bs) n v \<longleftrightarrow> hasLabel as n v \<or> hasLabel bs n v"
  by (auto simp: hasLabel_def)

lemma hasLabel_sort [simp]: "hasLabel (sortLabelPairs lps) n v \<longleftrightarrow> hasLabel lps n v"
  by (simp add: hasLabel_def lps.srt_set)

lemma labelLoop_general:
  assumes "labelLoop inst lps todo h = (lps', todo', h', early)"
  shows "labelNames lps' = labelNames lps \<and>
    (\<forall>n v. fmlookup todo n = Some v \<longrightarrow> fmlookup todo' n = Some v \<or> hasLabel lps' n v) \<and>
    (h' \<longrightarrow> h \<or> inst \<in> set (labelNames lps)) \<and> (early \<longrightarrow> todo' = fmempty \<and> h')"
  using assms
proof (induction lps arbitrary: todo h lps' todo' h' early)
  case Nil
  then show ?case by simp
next
  case (Cons lp rest)
  let ?todo = "fmdrop (GetName lp) todo" and ?h = "h \<or> GetName lp = inst"
  have written: "fmlookup todo n = Some v \<Longrightarrow> fmlookup ?todo n = Some v \<or>
      (GetName (override todo lp) = n \<and> GetValue (override todo lp) = v)" for n v
    by (auto simp: override_def)
  show ?case
  proof (cases "?todo = fmempty \<and> ?h")
    case True
    then show ?thesis using Cons.prems written
      by (auto simp: labelLoop_step Let_def simp del: labelLoop.simps)
  next
    case False
    then obtain r where r: "labelLoop inst rest ?todo ?h = (r, todo', h', early)"
      and "lps' = override todo lp # r"
      using Cons.prems
      by (auto simp: labelLoop_step Let_def simp del: labelLoop.simps split: prod.splits if_splits)
    then show ?thesis
      using Cons.IH [OF r] written by (auto simp del: fmlookup_drop)
  qed
qed

section \<open>Sanitised metrics\<close>

text \<open>
  What the store relies on: all grouping labels with their values, an instance label, and
  labels in order.
\<close>

definition sanitized :: "string \<Rightarrow> labels \<Rightarrow> Metric \<Rightarrow> bool" where
  "sanitized inst groupingLabels m \<longleftrightarrow>
     (\<forall>n v. fmlookup groupingLabels n = Some v \<longrightarrow> hasLabel (mLabel m) n v) \<and>
     inst \<in> set (labelNames (mLabel m)) \<and> sorted (labelNames (mLabel m))"

lemma sanitizeMetric_carried [simp]: "snd (sanitizeMetricBy rng inst gl carried m) = fmempty"
  by (auto simp: sanitizeMetricBy_def Let_def split: prod.split dest: labelLoop_general)

lemma GetName_newLabelPair [simp]: "GetName (newLabelPair n v) = n"
  by (simp add: newLabelPair_def)

lemma GetValue_newLabelPair [simp]: "GetValue (newLabelPair n v) = v"
  by (simp add: newLabelPair_def)

lemma names_missingPairs [simp]: "labelNames (missingPairs todo ks) = ks"
  by (induction ks) (simp_all add: missingPairs_def)

lemma name_set_missingPairs [simp]: "GetName ` set (missingPairs todo ks) = set ks"
  by (metis names_missingPairs set_map)

lemma hasLabel_missingPairs:
  "fmlookup todo n = Some v \<Longrightarrow> hasLabel (missingPairs todo (sortedKeys todo)) n v"
  by (force simp: hasLabel_def missingPairs_def fmdom'_iff_Some)

lemma sanitizeMetric_sanitized: "sanitized inst gl (fst (sanitizeMetric inst gl fmempty m))"
proof -
  obtain lbls todo h early where
    loop: "labelLoop inst (mLabel m) gl False = (lbls, todo, h, early)"
    by (metis surj_pair)
  note gen = labelLoop_general [OF loop]
  then have names: "GetName ` set lbls = GetName ` set (mLabel m)"
    by (metis set_map)
  show ?thesis
  proof (cases early)
    case True
    then have "fst (sanitizeMetric inst gl fmempty m) = m\<lparr>mLabel := sortLabelPairs lbls\<rparr>"
      by (simp add: sanitizeMetric_def sanitizeMetricBy_def loop)
    then show ?thesis using gen names True
      by (auto simp: sanitized_def lps.srt_sorted lps.srt_set)
  next
    case False
    let ?added = "missingPairs todo (sortedKeys todo)"
    let ?h = "h \<or> inst \<in> fmdom' todo"
    let ?lbls = "lbls @ ?added @ (if ?h then [] else [newLabelPair inst ''''])"
    have "fst (sanitizeMetric inst gl fmempty m) = m\<lparr>mLabel := sortLabelPairs ?lbls\<rparr>"
      using False by (simp add: sanitizeMetric_def sanitizeMetricBy_def loop Let_def)
    moreover have "inst \<in> GetName ` set ?lbls"
      using gen names by (auto simp: image_Un)
    moreover have "hasLabel ?lbls n v" if "fmlookup gl n = Some v" for n v
    proof -
      have "fmlookup todo n = Some v \<or> hasLabel lbls n v" using gen that by blast
      then show ?thesis using hasLabel_missingPairs [of todo n v] by auto
    qed
    ultimately show ?thesis
      by (simp add: sanitized_def lps.srt_sorted lps.srt_set)
  qed
qed

text \<open>The carried map is empty whenever a metric is entered, so the loop treats each metric alone.\<close>

lemma sanitizeMetrics_map:
  "sanitizeMetrics inst gl fmempty ms = map (\<lambda>m. fst (sanitizeMetric inst gl fmempty m)) ms"
proof (induction ms)
  case (Cons m ms)
  have "sanitizeMetric inst gl fmempty m = (fst (sanitizeMetric inst gl fmempty m), fmempty)"
    by (metis sanitizeMetric_carried sanitizeMetric_def prod.collapse)
  then show ?case using Cons.IH by (metis case_prod_conv list.simps(9) sanitizeMetrics.simps(2))
qed simp

lemma sanitizeLabels_metrics [simp]:
  "mfMetric (sanitizeLabels mc mf gl) = map (\<lambda>m. fst (sanitizeMetric (InstanceLabel mc) gl fmempty m)) (mfMetric mf)"
  by (simp add: sanitizeLabels_def sanitizeMetrics_map)

lemma sanitizeLabels_header [simp]:
  "mfName (sanitizeLabels mc mf gl) = mfName mf"
  "mfHelp (sanitizeLabels mc mf gl) = mfHelp mf"
  "mfType (sanitizeLabels mc mf gl) = mfType mf"
  by (simp_all add: sanitizeLabels_def)

lemma sanitizeMetric_keeps:
  "mTimestampMs (fst (sanitizeMetricBy rng inst gl c m)) = mTimestampMs m"
  "mGauge (fst (sanitizeMetricBy rng inst gl c m)) = mGauge m"
  by (simp_all add: sanitizeMetricBy_def Let_def split: prod.split)

section \<open>Metrics whose label names are distinct\<close>

text \<open>The labels after sanitising, before they are sorted.\<close>

definition mergedPairs :: "string \<Rightarrow> labels \<Rightarrow> LabelPair list \<Rightarrow> LabelPair list" where
  "mergedPairs inst gl lps =
     (let missing = missingPairs gl (sortedKeys (remaining gl lps)) in
      map (override gl) lps @ missing @
      (if inst \<in> set (labelNames lps) \<or> inst \<in> fmdom' gl then [] else [newLabelPair inst '''']))"

lemma fmdom'_remaining: "fmdom' (remaining gl lps) = fmdom' gl - set (labelNames lps)"
  by (auto simp: remaining_def fmdom'_iff_not_None split: if_splits)

lemma missingPairs_remaining:
  "set ks \<subseteq> fmdom' (remaining gl lps) \<Longrightarrow> missingPairs (remaining gl lps) ks = missingPairs gl ks"
  by (auto simp: missingPairs_def remaining_def fmdom'_iff_not_None split: if_splits)

lemma names_override [simp]: "labelNames (map (override gl) lps) = labelNames lps"
  by simp

lemma mergedPairs_distinct: "distinct (labelNames lps) \<Longrightarrow> distinct (labelNames (mergedPairs inst gl lps))"
  by (auto simp: mergedPairs_def Let_def fmdom'_remaining simp flip: map_map)

lemma sanitizeMetricBy_distinct:
  assumes "distinct (labelNames (mLabel m))"
    and "\<And>t. distinct (rng t)" "\<And>t. set (rng t) = fmdom' t"
  shows "sanitizeMetricBy rng inst gl fmempty m =
    (m\<lparr>mLabel := sortLabelPairs (mergedPairs inst gl (mLabel m))\<rparr>, fmempty)"
proof -
  obtain lbls todo h early where
    loop: "labelLoop inst (mLabel m) gl False = (lbls, todo, h, early)"
    by (metis surj_pair)
  note spec = labelLoop_distinct [OF assms(1) loop]
  let ?M = "mergedPairs inst gl (mLabel m)"
  show ?thesis
  proof (cases early)
    case True
    then have todo: "todo = fmempty" and "remaining gl (mLabel m) = fmempty"
      "inst \<in> set (labelNames (mLabel m))"
      using spec by auto
    then have "?M = lbls" using spec by (simp add: mergedPairs_def missingPairs_def)
    then show ?thesis using True todo by (simp add: sanitizeMetricBy_def loop)
  next
    case False
    let ?added = "missingPairs todo (rng todo)"
    let ?L = "lbls @ ?added @ (if h \<or> inst \<in> set (rng todo) then [] else [newLabelPair inst ''''])"
    have inst: "h \<or> inst \<in> set (rng todo) \<longleftrightarrow> inst \<in> set (labelNames (mLabel m)) \<or> inst \<in> fmdom' gl"
      using spec assms(3) by (auto simp: fmdom'_remaining)
    have "mset (rng todo) = mset (sortedKeys todo)"
      using assms(2,3) by (intro iffD1 [OF set_eq_iff_mset_eq_distinct]) simp_all
    then have "mset ?added = mset (missingPairs gl (sortedKeys (remaining gl (mLabel m))))"
      using spec by (metis missingPairs_def missingPairs_remaining mset_map set_sortedKeys subset_refl)
    then have "mset ?M = mset ?L"
      using spec inst by (simp add: mergedPairs_def Let_def)
    then have "sortLabelPairs ?L = sortLabelPairs ?M"
      using mergedPairs_distinct [OF assms(1)] by (metis lps.srt_order_irrelevant)
    then show ?thesis using False by (simp add: sanitizeMetricBy_def loop Let_def)
  qed
qed

lemma distinct_names_sorted: "distinct (labelNames (sortLabelPairs lps)) \<longleftrightarrow> distinct (labelNames lps)"
  by (rule distinct_map_mset_cong) (rule lps.srt_mset)

text \<open>The labels of a metric as a map, and what sanitising makes of it.\<close>

definition labelValue :: "LabelPair list \<Rightarrow> string \<Rightarrow> string option" where
  "labelValue lps n = map_of (map (\<lambda>lp. (GetName lp, GetValue lp)) lps) n"

definition sanitizedValue :: "string \<Rightarrow> labels \<Rightarrow> (string \<Rightarrow> string option) \<Rightarrow> string \<Rightarrow> string option" where
  "sanitizedValue inst gl old n =
     (case fmlookup gl n of Some v \<Rightarrow> Some v
      | None \<Rightarrow> (case old n of Some v \<Rightarrow> Some v | None \<Rightarrow> if n = inst then Some '''' else None))"

lemma labelValue_simps [simp]:
  "labelValue [] n = None"
  "labelValue (lp # lps) n = (if GetName lp = n then Some (GetValue lp) else labelValue lps n)"
  by (simp_all add: labelValue_def)

lemma labelValue_append:
  "labelValue (as @ bs) n = (case labelValue as n of None \<Rightarrow> labelValue bs n | Some v \<Rightarrow> Some v)"
  by (induction as) auto

lemma labelValue_None_iff: "labelValue lps n = None \<longleftrightarrow> n \<notin> set (labelNames lps)"
  by (induction lps) auto

lemma labelValue_Some_iff:
  "distinct (labelNames lps) \<Longrightarrow> labelValue lps n = Some v \<longleftrightarrow> hasLabel lps n v"
  by (auto simp: labelValue_def hasLabel_def map_of_eq_Some_iff comp_def)

lemma name_in_iff: "n \<in> GetName ` set lps \<longleftrightarrow> labelValue lps n \<noteq> None"
  by (induction lps) auto

lemma labelValue_sort:
  assumes "distinct (labelNames lps)"
  shows "labelValue (sortLabelPairs lps) n = labelValue lps n"
proof -
  have "distinct (labelNames (sortLabelPairs lps))"
    using assms by (simp only: distinct_names_sorted)
  then have "labelValue (sortLabelPairs lps) n = Some v \<longleftrightarrow> labelValue lps n = Some v" for v
    using assms by (simp add: labelValue_Some_iff)
  then show ?thesis by (metis not_Some_eq)
qed

lemma labelValue_override:
  "labelValue (map (override gl) lps) n =
     (if n \<in> set (labelNames lps) then (case fmlookup gl n of Some v \<Rightarrow> Some v | None \<Rightarrow> labelValue lps n) else None)"
  by (induction lps) (auto simp: override_def split: option.splits)

lemma labelValue_missingPairs:
  "labelValue (missingPairs gl ks) n = (if n \<in> set ks then Some (getStr (fmlookup gl n)) else None)"
  by (induction ks) (auto simp: missingPairs_def)

lemma labelValue_mergedPairs:
  "labelValue (mergedPairs inst gl lps) n = sanitizedValue inst gl (labelValue lps) n"
  by (auto simp: mergedPairs_def Let_def labelValue_append labelValue_override labelValue_missingPairs
      sanitizedValue_def fmdom'_remaining fmdom'_iff_not_None name_in_iff split: option.splits)

lemma sanitizeMetric_distinct:
  "distinct (labelNames (mLabel m)) \<Longrightarrow>
   sanitizeMetric inst gl fmempty m = (m\<lparr>mLabel := sortLabelPairs (mergedPairs inst gl (mLabel m))\<rparr>, fmempty)"
  unfolding sanitizeMetric_def by (rule sanitizeMetricBy_distinct) simp_all

lemma mergedPairs_value:
  "lp \<in> set (mergedPairs inst gl lps) \<Longrightarrow> fmlookup gl (GetName lp) = Some v \<Longrightarrow> lpValue lp = Some v"
  by (auto simp: mergedPairs_def Let_def override_def missingPairs_def newLabelPair_def GetName_def
      fmdom'_iff_not_None split: option.splits if_splits)

lemma mergedPairs_names:
  "fmdom' gl \<subseteq> set (labelNames (mergedPairs inst gl lps))" "inst \<in> set (labelNames (mergedPairs inst gl lps))"
  by (auto simp: mergedPairs_def Let_def image_Un fmdom'_remaining)

lemma mergedPairs_idem:
  assumes "\<And>lp v. lp \<in> set lps \<Longrightarrow> fmlookup gl (GetName lp) = Some v \<Longrightarrow> lpValue lp = Some v"
    and "fmdom' gl \<subseteq> set (labelNames lps)" "inst \<in> set (labelNames lps)"
  shows "mergedPairs inst gl lps = lps"
proof -
  have "map (override gl) lps = lps"
    using assms(1) by (intro map_idI) (auto simp: override_def split: option.splits)
  moreover have "fmdom' (remaining gl lps) = {}"
    using assms(2) by (auto simp: fmdom'_remaining)
  ultimately show ?thesis
    using assms(3) by (simp add: mergedPairs_def missingPairs_def fmdom'_empty_iff)
qed

lemma sanitizeMetric_idem:
  fixes gl :: labels and inst :: string and m :: Metric
  assumes "distinct (labelNames (mLabel m))"
  defines "m' \<equiv> fst (sanitizeMetric inst gl fmempty m)"
  shows "distinct (labelNames (mLabel m'))" "fst (sanitizeMetric inst gl fmempty m') = m'"
proof -
  let ?M = "mergedPairs inst gl (mLabel m)"
  have m': "m' = m\<lparr>mLabel := sortLabelPairs ?M\<rparr>"
    using assms by (simp add: sanitizeMetric_distinct)
  show dist: "distinct (labelNames (mLabel m'))"
    using mergedPairs_distinct [OF assms(1)] by (simp add: m' distinct_names_sorted del: set_map)
  have "mergedPairs inst gl (mLabel m') = mLabel m'"
  proof (rule mergedPairs_idem)
    show "lpValue lp = Some v" if "lp \<in> set (mLabel m')" "fmlookup gl (GetName lp) = Some v" for lp v
      using that by (auto simp: m' lps.srt_set intro: mergedPairs_value)
    show "fmdom' gl \<subseteq> set (labelNames (mLabel m'))" "inst \<in> set (labelNames (mLabel m'))"
      using mergedPairs_names [where lps = "mLabel m" and gl = gl and inst = inst] by (auto simp: m' lps.srt_set)
  qed
  moreover have "sortLabelPairs (mLabel m') = mLabel m'"
    using dist by (intro lps.srt_id_if_sorted) (simp_all add: m' lps.srt_sorted)
  ultimately show "fst (sanitizeMetric inst gl fmempty m') = m'"
    by (simp add: sanitizeMetric_distinct [OF dist])
qed

text \<open>A gauge with the given labels, for concrete inputs.\<close>

definition sampleMetric :: "LabelPair list \<Rightarrow> Metric" where
  "sampleMetric lps = \<lparr>mLabel = lps, mGauge = Some (F64 1 0), mCounter = None, mSummary = None,
     mUntyped = None, mHistogram = None, mTimestampMs = None\<rparr>"

abbreviation distinctLabels :: "MetricFamily \<Rightarrow> bool" where
  "distinctLabels mf \<equiv> list_all (\<lambda>m. distinct (labelNames (mLabel m))) (mfMetric mf)"

section \<open>Properties\<close>

text \<open>
  Whatever a metric looked like, after \<open>sanitizeLabels\<close> every grouping label is present
  with the value of the grouping key, an instance label is present, and the label pairs are
  sorted by name.
\<close>

lemma sanitizeLabels_complete:
  "list_all (sanitized (InstanceLabel mc) gl) (mfMetric (sanitizeLabels mc mf gl))"
  by (simp add: list_all_iff sanitizeMetric_sanitized)

text \<open>
  C22. For metrics with distinct label names, \<open>sanitizeLabels\<close> is exactly the overriding of the
  metric's label map by the grouping labels, plus an empty instance label where there is
  none; names stay distinct.
\<close>

theorem sanitizeLabels_refines_map_override:
  assumes "distinctLabels mf"
  shows "list_all2 (\<lambda>m m'. distinct (labelNames (mLabel m')) \<and>
      labelValue (mLabel m') = sanitizedValue (InstanceLabel mc) gl (labelValue (mLabel m)))
    (mfMetric mf) (mfMetric (sanitizeLabels mc mf gl))"
proof -
  have "distinct (labelNames (mLabel m)) \<Longrightarrow>
      labelValue (mLabel (fst (sanitizeMetric inst gl fmempty m))) = sanitizedValue inst gl (labelValue (mLabel m))"
    for inst m
    by (rule ext) (simp add: sanitizeMetric_distinct labelValue_sort mergedPairs_distinct labelValue_mergedPairs)
  then show ?thesis
    using assms by (auto simp: list_all2_conv_all_nth list_all_length intro: sanitizeMetric_idem)
qed

theorem sanitizeLabels_refines_map_override_witness:
  "\<exists>mf. length (mfMetric mf) = 1 \<and> list_all2 (\<lambda>m m'. distinct (labelNames (mLabel m')) \<and>
      labelValue (mLabel m') = sanitizedValue ''instance'' (fmupd ''job'' ''j'' fmempty) (labelValue (mLabel m)))
    (mfMetric mf) (mfMetric (sanitizeLabels prom_consts mf (fmupd ''job'' ''j'' fmempty)))"
proof -
  let ?m = "sampleMetric [newLabelPair ''job'' ''x'', newLabelPair ''a'' ''1'']"
  let ?mf = "\<lparr>mfName = Some ''m'', mfHelp = None, mfType = None, mfMetric = [?m]\<rparr> :: MetricFamily"
  have "distinctLabels ?mf" by (simp add: sampleMetric_def)
  from sanitizeLabels_refines_map_override [OF this, of prom_consts "fmupd ''job'' ''j'' fmempty"]
  show ?thesis by (intro exI [of _ ?mf]) simp
qed

text \<open>
  The iteration order of \<open>gLabelsNotYetDone\<close>, which Go leaves open, cannot be observed in
  the result when the label names of the metric are distinct.
\<close>

lemma sanitizeMetric_order_independent:
  assumes "distinct (labelNames (mLabel m))"
    and "\<And>t. distinct (rng t)" "\<And>t. set (rng t) = fmdom' t"
  shows "sanitizeMetricBy rng inst gl fmempty m = sanitizeMetric inst gl fmempty m"
  using assms by (simp add: sanitizeMetricBy_distinct sanitizeMetric_distinct)

text \<open>
  Sanitising twice is sanitising once, for metrics with distinct label names.
\<close>

lemma sanitizeLabels_idempotent:
  assumes "distinctLabels mf"
  shows "sanitizeLabels mc (sanitizeLabels mc mf gl) gl = sanitizeLabels mc mf gl"
proof -
  have "map (\<lambda>m. fst (sanitizeMetric inst gl fmempty (fst (sanitizeMetric inst gl fmempty m)))) (mfMetric mf) =
      map (\<lambda>m. fst (sanitizeMetric inst gl fmempty m)) (mfMetric mf)" for inst
    using assms by (auto simp: list_all_iff sanitizeMetric_idem)
  then show ?thesis by (simp add: sanitizeLabels_def sanitizeMetrics_map comp_def)
qed

end
