(* ===== verification/GroupKey.thy ===== *)
theory GroupKey
  imports GoStrings
begin

text \<open>
  Grouping keys: \<open>groupingKeyFor\<close> of storage/diskmetricstore.go, which turns the grouping labels
  of a request into the key of its metric group, and \<open>SortedLabels\<close> of storage/interface.go.
  The facts: a key determines the labels as long as no label name or value contains the
  separator byte, and it does not determine them otherwise.
\<close>

section \<open>The grouping key\<close>

text \<open>
  The loop over the sorted label names.  The separator after a value is written as long as
  more names follow, which is the code's test \<open>i+1 < len(labels)\<close>.
\<close>

fun writeLabels :: "char \<Rightarrow> labels \<Rightarrow> string list \<Rightarrow> string" where
  "writeLabels sep labels [] = []"
| "writeLabels sep labels (labelName # rest) =
     labelName @ [sep] @ getStr (fmlookup labels labelName) @
     (if rest \<noteq> [] then [sep] @ writeLabels sep labels rest else [])"

definition groupingKeyFor :: "model_consts \<Rightarrow> labels \<Rightarrow> string" where
  "groupingKeyFor mc labels =
     (if fmdom' labels = {} then ''''
      else writeLabels (SeparatorByte mc) labels (sortedKeys labels))"

section \<open>The parts of a key\<close>

definition keyParts :: "labels \<Rightarrow> string list \<Rightarrow> string list" where
  "keyParts labels ns = concat (map (\<lambda>n. [n, getStr (fmlookup labels n)]) ns)"

lemma keyParts_simps [simp]:
  "keyParts labels [] = []"
  "keyParts labels (n # ns) = n # getStr (fmlookup labels n) # keyParts labels ns"
  by (simp_all add: keyParts_def)

lemma keyParts_Nil_iff [simp]: "keyParts labels ns = [] \<longleftrightarrow> ns = []"
  by (cases ns) simp_all

lemma writeLabels_joinSep: "writeLabels sep labels ns = joinSep sep (keyParts labels ns)"
  by (induction ns) (auto simp: joinSep_Cons)

lemma groupingKeyFor_joinSep:
  "groupingKeyFor mc labels =
     (if labels = fmempty then '''' else joinSep (SeparatorByte mc) (keyParts labels (sortedKeys labels)))"
  by (auto simp: groupingKeyFor_def writeLabels_joinSep simp flip: set_sortedKeys)

lemma keyParts_inject:
  assumes "keyParts l ns = keyParts l' ns'"
  shows "ns = ns' \<and> (\<forall>n \<in> set ns. getStr (fmlookup l n) = getStr (fmlookup l' n))"
  using assms
proof (induction ns arbitrary: ns')
  case Nil
  then have "keyParts l' ns' = []" by simp
  then show ?case by simp
next
  case (Cons n ns)
  then show ?case by (cases ns') auto
qed

text \<open>Label names and values free of the separator byte.\<close>

definition sep_free :: "model_consts \<Rightarrow> labels \<Rightarrow> bool" where
  "sep_free mc labels \<longleftrightarrow>
     (\<forall>n v. fmlookup labels n = Some v \<longrightarrow> SeparatorByte mc \<notin> set n \<and> SeparatorByte mc \<notin> set v)"

lemma sep_free_keyParts:
  "sep_free mc l \<Longrightarrow> \<forall>p \<in> set (keyParts l (sortedKeys l)). SeparatorByte mc \<notin> set p"
  by (fastforce simp: sep_free_def keyParts_def fmdom'_iff_Some)

lemma groupingKeyFor_inject:
  assumes free: "sep_free mc l" "sep_free mc l'"
    and key: "groupingKeyFor mc l = groupingKeyFor mc l'"
  shows "l = l'"
proof (cases "l = fmempty \<or> l' = fmempty")
  case True
  have "groupingKeyFor mc x = [] \<longleftrightarrow> x = fmempty" for x
    by (cases "sortedKeys x") (auto simp: groupingKeyFor_joinSep)
  then show ?thesis using True key by metis
next
  case False
  then have "keyParts l (sortedKeys l) = keyParts l' (sortedKeys l')"
    using key sep_free_keyParts [OF free(1)] sep_free_keyParts [OF free(2)]
    by (intro joinSep_inject) (simp_all add: groupingKeyFor_joinSep)
  from keyParts_inject [OF this] have ks: "fmdom' l = fmdom' l'"
    and vs: "\<forall>n \<in> fmdom' l. getStr (fmlookup l n) = getStr (fmlookup l' n)"
    by (metis set_sortedKeys)+
  show ?thesis
  proof (rule fmap_ext)
    fix n
    show "fmlookup l n = fmlookup l' n"
    proof (cases "n \<in> fmdom' l")
      case True
      then obtain v v' where "fmlookup l n = Some v" "fmlookup l' n = Some v'"
        using ks by (metis fmdom'_iff_Some)
      then show ?thesis using vs True ks by force
    next
      case False
      then show ?thesis using ks by (metis fmdom'_iff_not_None)
    qed
  qed
qed

section \<open>Labels in presentation order\<close>

text \<open>
  \<open>SortedLabels\<close>: \<open>make([]string, 1, len(mg.Labels))\<close> panics when the map is empty (the
  length exceeds the capacity), which is the value \<open>None\<close> here.  The names other than
  \<open>job\<close> are collected in iteration order \<open>ks\<close> and then sorted.
\<close>

definition SortedLabels_range :: "string list \<Rightarrow> labels \<Rightarrow> string list option" where
  "SortedLabels_range ks labels =
     (if fmdom' labels = {} then None
      else Some (''job'' # sort (filter (\<lambda>ln. ln \<noteq> ''job'') ks)))"

definition SortedLabels :: "labels \<Rightarrow> string list option" where
  "SortedLabels labels = SortedLabels_range (sortedKeys labels) labels"

lemma SortedLabels_range_any:
  assumes "distinct ks" "set ks = fmdom' labels"
  shows "SortedLabels_range ks labels = SortedLabels labels"
proof -
  have "mset ks = mset (sortedKeys labels)"
    using assms by (intro iffD1 [OF set_eq_iff_mset_eq_distinct]) simp_all
  then have "sort (filter (\<lambda>ln. ln \<noteq> ''job'') ks) = sort (filter (\<lambda>ln. ln \<noteq> ''job'') (sortedKeys labels))"
    by (intro properties_for_sort) (simp_all add: mset_filter)
  then show ?thesis by (simp add: SortedLabels_def SortedLabels_range_def)
qed

section \<open>Properties\<close>

text \<open>
  C33. The grouping key is unique: two label sets whose names and values do not contain the
  separator byte have the same key only if they are the same label set.
\<close>

theorem groupingKey_unique:
  assumes "sep_free mc l" "sep_free mc l'"
    and "groupingKeyFor mc l = groupingKeyFor mc l'"
  shows "l = l'"
  using assms by (rule groupingKeyFor_inject)

theorem groupingKey_unique_witness:
  "sep_free prom_consts (fmupd ''job'' ''a'' fmempty) \<and>
   fmupd ''job'' ''a'' fmempty = fmupd ''job'' ''a'' (fmempty :: labels)"
proof -
  have h: "sep_free prom_consts (fmupd ''job'' ''a'' fmempty)"
    by (auto simp: sep_free_def split: if_splits)
  show ?thesis using h groupingKey_unique [OF h h refl] by simp
qed

text \<open>
  Uniqueness fails as soon as a label value contains the separator byte, which the
  base64 form of the URL can produce: a job with the one label \<open>a\<close> shares its key with
  a job that has the two labels \<open>a\<close> and \<open>b\<close>.
\<close>

lemma groupingKey_collision:
  "\<exists>l l'. l \<noteq> l' \<and> fmlookup l ''job'' = fmlookup l' ''job'' \<and>
     groupingKeyFor prom_consts l = groupingKeyFor prom_consts l'"
proof -
  let ?l = "fmupd ''job'' ''j'' (fmupd ''a'' [CHR ''x'', CHR 0xFF, CHR ''b'', CHR 0xFF, CHR ''y''] fmempty)"
  let ?l' = "fmupd ''job'' ''j'' (fmupd ''a'' ''x'' (fmupd ''b'' ''y'' fmempty))"
  have "fmlookup ?l ''b'' \<noteq> fmlookup ?l' ''b''" by simp
  then have "?l \<noteq> ?l'" by metis
  moreover have "groupingKeyFor prom_consts ?l = groupingKeyFor prom_consts ?l'"
    by (simp add: groupingKeyFor_def sortedKeys_def)
  ultimately show ?thesis by (intro exI [of _ ?l] exI [of _ ?l']) simp
qed

text \<open>
  The presentation order of the grouping labels of a group with a job label: \<open>job\<close>
  first, then all other label names in ascending order, each once, whatever order the
  map was iterated in; only an empty label map panics.
\<close>

lemma SortedLabels_job_first:
  assumes "''job'' \<in> fmdom' labels" "distinct ks" "set ks = fmdom' labels"
  shows "\<exists>rest. SortedLabels_range ks labels = Some (''job'' # rest) \<and>
     sorted rest \<and> distinct (''job'' # rest) \<and> set (''job'' # rest) = fmdom' labels"
proof -
  let ?rest = "sort (filter (\<lambda>ln. ln \<noteq> ''job'') ks)"
  have "SortedLabels_range ks labels = Some (''job'' # ?rest)"
    using assms(1) by (auto simp: SortedLabels_range_def)
  moreover have "set (''job'' # ?rest) = fmdom' labels"
    using assms(1,3) by auto
  moreover have "distinct (''job'' # ?rest)"
    using assms(2) by simp
  ultimately show ?thesis by (metis sorted_sort)
qed

end
