(* ===== verification/FloatFacts.thy ===== *)
theory FloatFacts
  imports GoNum
begin

text \<open>
  Rounding facts about the binary64 model of GoNum: the nearest-float function on positive
  quotients is monotone and has a bounded error, and therefore the conversion of nanoseconds
  to float seconds, which \<open>newTimestampGauge\<close> performs with two roundings, is monotone and
  separates instants that are at least 3000 nanoseconds apart.
\<close>

section \<open>Facts about rounding\<close>

text \<open>The nearest-integer function depends on the quotient only, and is monotone in it.\<close>

lemma roundQuot_cases:
  assumes "0 < b"
  shows "roundQuot a b = a div b \<or> roundQuot a b = a div b + 1"
  by (auto simp: roundQuot_def Let_def)

lemma roundQuot_mono:
  assumes b: "0 < b" "0 < b'" and le: "a * b' \<le> a' * b"
  shows "roundQuot a b \<le> roundQuot a' b'"
proof -
  define q r q' r' where qr: "q = a div b" "r = a mod b" "q' = a' div b'" "r' = a' mod b'"
  have a: "a = q * b + r" "0 \<le> r" "r < b" and a': "a' = q' * b' + r'" "0 \<le> r'" "r' < b'"
    using b by (simp_all add: qr)
  have "q * b \<le> a" "a' < (q' + 1) * b'"
    using a a' by (auto simp: algebra_simps)
  then have "q * b * b' \<le> a * b'" "a' * b < (q' + 1) * b' * b"
    using b by (simp_all add: mult_right_mono)
  then have "q * (b * b') < (q' + 1) * (b * b')"
    using le by (simp add: algebra_simps)
  then have qq: "q \<le> q'"
    using b by (simp add: mult_less_cancel_right)
  show ?thesis
  proof (cases "q = q'")
    case False
    then have "q + 1 \<le> q'" using qq by simp
    then show ?thesis using roundQuot_cases [OF b(1), of a] roundQuot_cases [OF b(2), of a'] by (auto simp flip: qr)
  next
    case True
    have "a * b' = q * (b * b') + r * b'" "a' * b = q' * (b * b') + r' * b"
      using a(1) a'(1) by (metis mult.assoc mult.commute distrib_right)+
    then have rr: "r * b' \<le> r' * b" using le True by simp
    have up: "b \<le> 2 * r \<Longrightarrow> b' \<le> 2 * r'"
    proof -
      assume "b \<le> 2 * r"
      then have "b * b' \<le> 2 * (r * b')" using b by (simp add: mult_right_mono flip: mult.assoc)
      then have "b' * b \<le> 2 * r' * b" using rr by (simp add: mult.commute)
      then show ?thesis using b by simp
    qed
    have up': "b < 2 * r \<Longrightarrow> b' < 2 * r'"
    proof -
      assume "b < 2 * r"
      then have "b * b' < 2 * (r * b')" using b by (simp flip: mult.assoc)
      then have "b' * b < 2 * r' * b" using rr by (simp add: mult.commute)
      then show ?thesis using b by simp
    qed
    show ?thesis
      using up up' True by (auto simp: roundQuot_def Let_def simp flip: qr)
  qed
qed

lemma roundQuot_exact: "0 < b \<Longrightarrow> roundQuot (k * b) b = k"
  by (simp add: roundQuot_def)

lemma roundQuot_ge: "0 < b \<Longrightarrow> k * b \<le> a \<Longrightarrow> k \<le> roundQuot a b"
  using roundQuot_mono [of b b "k * b" a] by (simp add: roundQuot_exact)

lemma roundQuot_le: "0 < b \<Longrightarrow> a \<le> k * b \<Longrightarrow> roundQuot a b \<le> k"
  using roundQuot_mono [of b b a "k * b"] by (simp add: roundQuot_exact)

lemma roundQuot_error: "0 < b \<Longrightarrow> \<bar>2 * (roundQuot a b * b - a)\<bar> \<le> b"
proof -
  assume b: "0 < b"
  define q r where qr: "q = a div b" "r = a mod b"
  have a: "a = q * b + r" "0 \<le> r" "r < b" using b by (simp_all add: qr)
  have "roundQuot a b * b - a = (roundQuot a b - q) * b - r"
    using a(1) by (simp add: left_diff_distrib)
  moreover have "roundQuot a b = q \<and> 2 * r \<le> b \<or> roundQuot a b = q + 1 \<and> b \<le> 2 * r"
    by (auto simp: roundQuot_def Let_def simp flip: qr)
  ultimately show ?thesis using a(2,3) by auto
qed

text \<open>Powers of two with an integer exponent, and the value of a finite float.\<close>

definition pow2 :: "int \<Rightarrow> real" where
  "pow2 e = 2 powi e"

lemma pow2_pos [simp]: "0 < pow2 e" "pow2 e \<noteq> 0" "0 \<le> pow2 e"
  by (simp_all add: pow2_def)

lemma pow2_add: "pow2 (e + f) = pow2 e * pow2 f"
  by (simp add: pow2_def power_int_add)

lemma pow2_le_iff [simp]: "pow2 e \<le> pow2 f \<longleftrightarrow> e \<le> f"
  by (metis linorder_not_le pow2_def power_int_increasing power_int_strict_increasing one_less_numeral_iff
      semiring_norm(76) less_imp_le)

lemma pow2_less_iff [simp]: "pow2 e < pow2 f \<longleftrightarrow> e < f"
  by (simp add: less_le_not_le)

lemma pow2_nat: "0 \<le> e \<Longrightarrow> pow2 e = 2 ^ nat e"
  by (simp add: pow2_def power_int_def)

lemma pow2_split: "pow2 e = 2 ^ nat e / 2 ^ nat (- e)"
  by (simp add: pow2_def power_int_def divide_simps)

definition finval :: "int \<Rightarrow> int \<Rightarrow> real" where
  "finval m e = of_int m * pow2 e"

lemma fin_le_iff: "fin_le m e n f \<longleftrightarrow> finval m e \<le> finval n f"
proof -
  let ?k = "min e f"
  have "finval m e = of_int (m * 2 ^ nat (e - ?k)) * pow2 ?k" "finval n f = of_int (n * 2 ^ nat (f - ?k)) * pow2 ?k"
    using pow2_add [of "e - ?k" ?k] pow2_add [of "f - ?k" ?k]
    by (simp_all add: finval_def pow2_nat mult.assoc)
  moreover have "(m * 2 ^ nat (e - ?k) \<le> n * 2 ^ nat (f - ?k)) =
      (of_int (m * 2 ^ nat (e - ?k)) \<le> (of_int (n * 2 ^ nat (f - ?k)) :: real))"
    by (simp only: of_int_le_iff)
  ultimately show ?thesis
    by (simp only: fin_le_def Let_def) (metis mult_le_cancel_right_pos pow2_pos(1))
qed

text \<open>The scaled quotient that is rounded, in terms of the exact value.\<close>

lemma scaled_quot:
  assumes "0 < d"
  shows "real_of_int (n * 2 ^ nat (- e)) = of_int n / of_int d * pow2 (- e) * of_int (d * 2 ^ nat e)"
  using assms by (simp add: pow2_split [of "- e"])

lemma scaled_le:
  assumes "0 < d" "0 < d'"
    and "of_int n / of_int d * pow2 (- e) \<le> of_int n' / of_int d' * pow2 (- e')"
  shows "(n * 2 ^ nat (- e)) * (d' * 2 ^ nat e') \<le> (n' * 2 ^ nat (- e')) * (d * 2 ^ nat e)"
proof -
  let ?P = "real_of_int (d * 2 ^ nat e) * of_int (d' * 2 ^ nat e')"
  have "0 \<le> ?P" using assms by simp
  then have "of_int n / of_int d * pow2 (- e) * ?P \<le> of_int n' / of_int d' * pow2 (- e') * ?P"
    by (rule mult_right_mono [OF assms(3)])
  then have "real_of_int (n * 2 ^ nat (- e)) * of_int (d' * 2 ^ nat e') \<le>
      real_of_int (n' * 2 ^ nat (- e')) * of_int (d * 2 ^ nat e)"
    using scaled_quot [OF assms(1), of n e] scaled_quot [OF assms(2), of n' e']
    by (simp only: ac_simps)
  then show ?thesis by (simp only: flip: of_int_mult of_int_le_iff [where 'a = real])
qed

lemma bitlen_between:
  assumes "0 < a"
  shows "pow2 (bitlen a - 1) \<le> of_int a" "of_int a < pow2 (bitlen a)"
proof -
  note b = bitlen_bounds [OF assms]
  have "0 < bitlen a" using assms bitlen_eq_zero_iff [of a] bitlen_nonneg [of a] by linarith
  then have "pow2 (bitlen a - 1) = of_int (2 ^ nat (bitlen a - 1))" "pow2 (bitlen a) = of_int (2 ^ nat (bitlen a))"
    by (simp_all add: pow2_nat)
  then show "pow2 (bitlen a - 1) \<le> of_int a" "of_int a < pow2 (bitlen a)"
    using b by (metis of_int_le_iff, metis of_int_less_iff)
qed

lemma binExp_bounds:
  assumes "0 < a" "0 < d"
  defines "e \<equiv> binExp a d" and "x \<equiv> real_of_int a / of_int d"
  shows "x < pow2 (e + 53)" "e = - 1074 \<or> pow2 (e + 52) \<le> x" "- 1074 \<le> e"
proof -
  define k where "k = bitlen a - bitlen d"
  have lo: "pow2 (k - 1) \<le> x"
  proof -
    have "pow2 (k - 1) * of_int d \<le> pow2 (k - 1) * pow2 (bitlen d)"
      using bitlen_between [OF assms(2)] by simp
    also have "\<dots> \<le> of_int a"
      using bitlen_between [OF assms(1)] by (simp add: k_def flip: pow2_add)
    finally show ?thesis using assms(2) by (simp add: x_def field_simps)
  qed
  have hi: "x < pow2 (k + 1)"
  proof -
    have "of_int a < pow2 (k + 1) * pow2 (bitlen d - 1)"
      using bitlen_between [OF assms(1)] by (simp add: k_def flip: pow2_add)
    also have "\<dots> \<le> pow2 (k + 1) * of_int d"
      using bitlen_between [OF assms(2)] by simp
    finally show ?thesis using assms(2) by (simp add: x_def field_simps)
  qed
  have test: "a * 2 ^ nat (- k) < d * 2 ^ nat k \<longleftrightarrow> x < pow2 k"
  proof -
    have "a * 2 ^ nat (- k) < d * 2 ^ nat k \<longleftrightarrow> real_of_int (a * 2 ^ nat (- k)) < of_int (d * 2 ^ nat k)"
      by (simp only: of_int_less_iff)
    also have "\<dots> \<longleftrightarrow> x * 2 ^ nat (- k) < 2 ^ nat k"
      using assms(2) by (simp add: x_def field_simps)
    finally show ?thesis by (simp add: pow2_split [of k] field_simps)
  qed
  define e0 where "e0 = (if a * 2 ^ nat (- k) < d * 2 ^ nat k then k - 53 else k - 52)"
  have e: "e = max e0 (- 1074)"
    by (simp add: e_def binExp_def Let_def e0_def k_def)
  have e0: "pow2 (e0 + 52) \<le> x" "x < pow2 (e0 + 53)"
    using lo hi test by (auto simp: e0_def not_less add.commute [of 1])
  have "pow2 (e0 + 53) \<le> pow2 (e + 53)" using e by simp
  then show "x < pow2 (e + 53)" using e0(2) by linarith
  show "e = - 1074 \<or> pow2 (e + 52) \<le> x" using e e0(1) by (cases "e0 \<le> - 1074") (auto simp: max_def)
  show "- 1074 \<le> e" using e by simp
qed

text \<open>The rounded significand of a positive quotient.\<close>

definition rq :: "int \<Rightarrow> int \<Rightarrow> int" where
  "rq n d = roundQuot (n * 2 ^ nat (- binExp n d)) (d * 2 ^ nat (binExp n d))"

lemma rq_bounds:
  assumes "0 < n" "0 < d"
  shows "0 \<le> rq n d" "rq n d \<le> 2 ^ 53" "binExp n d \<noteq> - 1074 \<Longrightarrow> 2 ^ 52 \<le> rq n d"
proof -
  let ?e = "binExp n d"
  note b = binExp_bounds [OF assms]
  have D: "0 < d * 2 ^ nat ?e" using assms by simp
  show "0 \<le> rq n d"
    unfolding rq_def using assms D by (intro roundQuot_ge) simp_all
  have one: "real_of_int k = of_int k / of_int 1 * pow2 (- 0)" for k
    by (simp add: pow2_def)
  have scale: "x * pow2 (- ?e) \<le> y \<longleftrightarrow> x \<le> y * pow2 ?e" "y \<le> x * pow2 (- ?e) \<longleftrightarrow> y * pow2 ?e \<le> x" for x y
    by (simp_all add: pow2_def power_int_minus divide_le_eq le_divide_eq flip: divide_inverse)
  have p: "pow2 53 = of_int (2 ^ 53)" "pow2 52 = of_int (2 ^ 52)" "pow2 (- 0) = 1"
    by (simp_all add: pow2_def)
  have "of_int n / of_int d * pow2 (- ?e) \<le> of_int (2 ^ 53) / of_int 1 * pow2 (- 0)"
    unfolding scale using b(1) by (simp only: pow2_add p) simp
  from scaled_le [OF assms(2) _ this] show "rq n d \<le> 2 ^ 53"
    unfolding rq_def using D by (intro roundQuot_le) (simp_all add: ac_simps)
  assume "?e \<noteq> - 1074"
  then have "of_int (2 ^ 52) / of_int 1 * pow2 (- 0) \<le> of_int n / of_int d * pow2 (- ?e)"
    unfolding scale using b(2) by (simp only: pow2_add p) simp
  from scaled_le [OF _ assms(2) this] show "2 ^ 52 \<le> rq n d"
    unfolding rq_def using D by (intro roundQuot_ge) (simp_all add: ac_simps)
qed

lemma rq_mono:
  assumes "0 < n" "0 < d" "0 < n'" "0 < d'" "of_int n / of_int d \<le> real_of_int n' / of_int d'"
  shows "finval (rq n d) (binExp n d) \<le> finval (rq n' d') (binExp n' d')"
proof -
  let ?e = "binExp n d" and ?e' = "binExp n' d'"
  note b = binExp_bounds [OF assms(1,2)] and b' = binExp_bounds [OF assms(3,4)]
  consider "?e = ?e'" | "?e < ?e'" | "?e' < ?e" by linarith
  then show ?thesis
  proof cases
    case 1
    have "of_int n / of_int d * pow2 (- ?e) \<le> of_int n' / of_int d' * pow2 (- ?e')"
      using assms(5) by (simp only: 1 mult_right_mono pow2_pos)
    then have "rq n d \<le> rq n' d'"
      unfolding rq_def using assms scaled_le by (intro roundQuot_mono) simp_all
    then show ?thesis using 1 by (simp add: finval_def)
  next
    case 2
    then have "2 ^ 52 \<le> rq n' d'" using b(3) assms by (intro rq_bounds(3)) simp_all
    have "finval (rq n d) ?e \<le> finval (2 ^ 53) ?e"
      using rq_bounds(2) [OF assms(1,2)] by (simp add: finval_def flip: of_int_le_iff)
    also have "\<dots> = pow2 (?e + 53)" by (simp add: finval_def pow2_add pow2_nat)
    also have "\<dots> \<le> pow2 (?e' + 52)" using 2 by simp
    also have "\<dots> = finval (2 ^ 52) ?e'" by (simp add: finval_def pow2_add pow2_nat)
    also have "\<dots> \<le> finval (rq n' d') ?e'"
      using \<open>2 ^ 52 \<le> rq n' d'\<close> by (simp add: finval_def flip: of_int_le_iff)
    finally show ?thesis .
  next
    case 3
    then have "pow2 (?e + 52) \<le> of_int n / of_int d" using b(2) b'(3) by linarith
    also have "\<dots> \<le> of_int n' / of_int d'" by (rule assms(5))
    also have "\<dots> < pow2 (?e' + 53)" by (rule b'(1))
    finally have False using 3 by simp
    then show ?thesis ..
  qed
qed

lemma rq_error:
  assumes "0 < n" "0 < d"
  shows "\<bar>finval (rq n d) (binExp n d) - of_int n / of_int d\<bar> \<le> pow2 (binExp n d) / 2"
proof -
  let ?e = "binExp n d" and ?b = "d * 2 ^ nat (binExp n d)" and ?x = "real_of_int n / of_int d"
  have b: "0 < ?b" using assms by simp
  have exact: "real_of_int (n * 2 ^ nat (- ?e)) = ?x * pow2 (- ?e) * of_int ?b"
    by (rule scaled_quot [OF assms(2)])
  have half: "\<bar>2 * y\<bar> \<le> 1 \<Longrightarrow> \<bar>y\<bar> \<le> 1 / 2" for y :: real by linarith
  have form: "real_of_int \<bar>2 * (r * b - N)\<bar> = \<bar>2 * (of_int r * of_int b - of_int N)\<bar>" for r b N
    by simp
  have "real_of_int \<bar>2 * (rq n d * ?b - n * 2 ^ nat (- ?e))\<bar> \<le> of_int ?b"
    using roundQuot_error [OF b, of "n * 2 ^ nat (- ?e)"] by (simp only: rq_def of_int_le_iff)
  then have "\<bar>2 * (of_int (rq n d) - ?x * pow2 (- ?e)) * of_int ?b\<bar> \<le> 1 * real_of_int ?b"
    unfolding form exact by (simp only: left_diff_distrib mult_1 mult.assoc)
  then have "\<bar>2 * (of_int (rq n d) - ?x * pow2 (- ?e))\<bar> * real_of_int ?b \<le> 1 * real_of_int ?b"
    using b by (simp only: abs_mult [of _ "real_of_int ?b"] of_int_pos abs_of_pos)
  then have "\<bar>of_int (rq n d) - ?x * pow2 (- ?e)\<bar> \<le> 1 / 2"
    using b half by (simp only: mult_le_cancel_right_pos of_int_0_less_iff)
  then have "\<bar>of_int (rq n d) - ?x * pow2 (- ?e)\<bar> * pow2 ?e \<le> 1 / 2 * pow2 ?e"
    by (rule mult_right_mono) simp
  moreover have "\<bar>of_int (rq n d) - ?x * pow2 (- ?e)\<bar> * pow2 ?e = \<bar>finval (rq n d) ?e - ?x\<bar>"
  proof -
    have "\<bar>of_int (rq n d) - ?x * pow2 (- ?e)\<bar> * pow2 ?e = \<bar>(of_int (rq n d) - ?x * pow2 (- ?e)) * pow2 ?e\<bar>"
      by (simp add: abs_mult)
    also have "(of_int (rq n d) - ?x * pow2 (- ?e)) * pow2 ?e = finval (rq n d) ?e - ?x"
      using pow2_add [of "- ?e" ?e] by (simp add: finval_def left_diff_distrib mult.assoc) (simp add: pow2_def)
    finally show ?thesis .
  qed
  ultimately have "\<bar>finval (rq n d) ?e - ?x\<bar> \<le> 1 / 2 * pow2 ?e" by (simp only:)
  then show ?thesis by linarith
qed

lemma binExp_upper: "0 < n \<Longrightarrow> 0 < d \<Longrightarrow> of_int n / of_int d < pow2 k \<Longrightarrow> - 1021 \<le> k \<Longrightarrow> binExp n d \<le> k - 53"
proof -
  assume "0 < n" "0 < d" and x: "of_int n / of_int d < pow2 k" and "- 1021 \<le> k"
  then have "binExp n d = - 1074 \<or> pow2 (binExp n d + 52) < pow2 k"
    using binExp_bounds(2) [of n d] by (meson order_le_less_trans)
  then show ?thesis using \<open>- 1021 \<le> k\<close> by auto
qed

lemma f64_of_quot_pos:
  assumes "0 < n" "0 < d" "binExp n d < 971"
  shows "f64_of_quot n d = F64 (rq n d) (binExp n d)"
proof -
  have "rq n d * 2 ^ nat (binExp n d) < 2 ^ 1024" if "0 \<le> binExp n d"
  proof -
    have "rq n d * 2 ^ nat (binExp n d) \<le> 2 ^ 53 * 2 ^ 970"
      using rq_bounds(1,2) [OF assms(1,2)] assms(3) that by (intro mult_mono power_increasing) auto
    also have "\<dots> < (2 :: int) ^ 1024" by (simp flip: power_add)
    finally show ?thesis .
  qed
  then show ?thesis using assms
    by (auto simp: f64_of_quot_def Let_def rq_def)
qed

section \<open>Nanoseconds to float seconds\<close>

definition floatSecs :: "int \<Rightarrow> float64" where
  "floatSecs t = f64_div_const (f64_of_int t) 1000000000"

text \<open>The real that a rounded quotient stands for.\<close>

definition rne :: "int \<Rightarrow> int \<Rightarrow> real" where
  "rne n d = finval (rq n d) (binExp n d)"

lemma rq_pos:
  assumes "0 < n" "0 < d" "pow2 (- 1021) \<le> of_int n / of_int d"
  shows "0 < rq n d"
proof -
  have "binExp n d \<noteq> - 1074" using binExp_bounds(1) [OF assms(1,2)] assms(3) by auto
  from rq_bounds(3) [OF assms(1,2) this] show ?thesis by simp
qed

text \<open>The first rounding: the conversion of a nanosecond count to float64.\<close>

lemma of_int_float:
  assumes "0 < t" "t < 2 ^ 63"
  shows "f64_of_int t = F64 (rq t 1) (binExp t 1)" "0 < rq t 1" "\<bar>rne t 1 - of_int t\<bar> \<le> 512"
proof -
  have "real_of_int t < of_int (2 ^ 63)" using assms(2) by (simp only: of_int_less_iff)
  then have e: "binExp t 1 \<le> 63 - 53" using assms(1) by (intro binExp_upper) (simp_all add: pow2_nat)
  then show "f64_of_int t = F64 (rq t 1) (binExp t 1)"
    unfolding f64_of_int_def using assms(1) by (intro f64_of_quot_pos) simp_all
  have "pow2 (- 1021) \<le> pow2 0" by (simp only: pow2_le_iff)
  also have "\<dots> \<le> of_int t / of_int 1" using assms(1) by (simp add: pow2_def)
  finally show "0 < rq t 1" using assms(1) by (intro rq_pos) simp_all
  have "pow2 (binExp t 1) \<le> pow2 10" using e by simp
  then show "\<bar>rne t 1 - of_int t\<bar> \<le> 512"
    using rq_error [of t 1] assms(1) by (simp add: rne_def pow2_nat)
qed

text \<open>The second rounding: the division by \<open>1e9\<close>.\<close>

lemma floatSecs_quot:
  assumes "0 < t" "t < 2 ^ 63"
  obtains n d where "floatSecs t = f64_of_quot n d" "0 < n" "0 < d" "of_int n / of_int d = rne t 1 / 1000000000"
proof
  let ?m = "rq t 1" and ?e = "binExp t 1"
  show "floatSecs t = f64_of_quot (?m * 2 ^ nat ?e) (1000000000 * 2 ^ nat (- ?e))"
    using of_int_float [OF assms] by (simp add: floatSecs_def)
  show "0 < ?m * 2 ^ nat ?e" "(0 :: int) < 1000000000 * 2 ^ nat (- ?e)"
    using of_int_float [OF assms] by simp_all
  show "of_int (?m * 2 ^ nat ?e) / of_int (1000000000 * 2 ^ nat (- ?e)) = rne t 1 / 1000000000"
    using pow2_split [of ?e] by (simp add: rne_def finval_def)
qed

lemma floatSecs_finite:
  assumes "0 < t" "t < 2 ^ 63"
  obtains n d where "floatSecs t = F64 (rq n d) (binExp n d)" "0 < n" "0 < d"
    "of_int n / of_int d = rne t 1 / 1000000000" "binExp n d \<le> - 19"
proof -
  obtain n d where q: "floatSecs t = f64_of_quot n d" "0 < n" "0 < d"
    "of_int n / of_int d = rne t 1 / 1000000000"
    using floatSecs_quot [OF assms] by metis
  have "real_of_int t < of_int (2 ^ 63)" using assms(2) by (simp only: of_int_less_iff)
  then have "rne t 1 / 1000000000 < 2 ^ 34"
    using of_int_float(3) [OF assms] by simp
  then have "of_int n / of_int d < pow2 34"
    by (simp only: q(4)) (simp add: pow2_nat)
  from binExp_upper [OF q(2,3) this] have "binExp n d \<le> 34 - 53" by simp
  then show ?thesis using q f64_of_quot_pos [of n d] by (intro that) simp_all
qed

lemma floatSecs_zero [simp]: "floatSecs 0 = F64 0 0"
  by (simp add: floatSecs_def f64_of_int_def f64_of_quot_def)

lemma f64_le_finite: "f64_le (F64 m e) (F64 n f) \<longleftrightarrow> finval m e \<le> finval n f"
  by (simp add: fin_le_iff)

text \<open>Later instants never get a smaller float.\<close>

lemma floatSecs_mono:
  assumes "0 \<le> t" "t \<le> t'" "t' < 2 ^ 63"
  shows "f64_le (floatSecs t) (floatSecs t')"
proof (cases "t = 0")
  case True
  show ?thesis
  proof (cases "t' = 0")
    case False
    then obtain n d where "floatSecs t' = F64 (rq n d) (binExp n d)" "0 < n" "0 < d"
      using assms True floatSecs_finite [of t'] by (metis order_le_less)
    then show ?thesis using True rq_bounds(1) [of n d]
      by (simp add: fin_le_iff) (simp add: finval_def)
  qed (simp add: True fin_le_iff)
next
  case False
  then have pos: "0 < t" "t < 2 ^ 63" "0 < t'" using assms by simp_all
  obtain n d where q: "floatSecs t = F64 (rq n d) (binExp n d)" "0 < n" "0 < d"
    "of_int n / of_int d = rne t 1 / 1000000000" using floatSecs_finite [OF pos(1,2)] by metis
  obtain n' d' where q': "floatSecs t' = F64 (rq n' d') (binExp n' d')" "0 < n'" "0 < d'"
    "of_int n' / of_int d' = rne t' 1 / 1000000000" using floatSecs_finite [OF pos(3) assms(3)] by metis
  have "rne t 1 \<le> rne t' 1"
    unfolding rne_def using pos assms by (intro rq_mono) simp_all
  then have "of_int n / of_int d \<le> real_of_int n' / of_int d'" unfolding q(4) q'(4) by simp
  then show ?thesis using q q' by (simp only: f64_le_finite rq_mono)
qed

lemma floatSecs_error:
  assumes "0 \<le> t" "t < 2 ^ 63"
  shows "\<exists>m e. floatSecs t = F64 m e \<and> \<bar>finval m e - of_int t / 1000000000\<bar> < 3 / 2000000"
proof (cases "t = 0")
  case True
  then show ?thesis by (simp add: finval_def)
next
  case False
  then have pos: "0 < t" "t < 2 ^ 63" using assms by simp_all
  obtain n d where q: "floatSecs t = F64 (rq n d) (binExp n d)" "0 < n" "0 < d"
    "of_int n / of_int d = rne t 1 / 1000000000" "binExp n d \<le> - 19" using floatSecs_finite [OF pos] by metis
  have "pow2 (binExp n d) \<le> pow2 (- 19)" using q(5) by simp
  also have "\<dots> = 1 / 524288" by (simp add: pow2_def power_int_def divide_simps)
  finally have "\<bar>finval (rq n d) (binExp n d) - of_int n / of_int d\<bar> \<le> 1 / 1048576"
    using rq_error [OF q(2,3)] by linarith
  then have "\<bar>finval (rq n d) (binExp n d) - rne t 1 / 1000000000\<bar> \<le> 1 / 1048576"
    unfolding q(4) .
  then have "\<bar>finval (rq n d) (binExp n d) - of_int t / 1000000000\<bar> < 3 / 2000000"
    using of_int_float(3) [OF pos] by linarith
  then show ?thesis using q(1) by blast
qed

lemma floatSecs_separated:
  assumes "0 \<le> t" "t + 3000 \<le> t'" "t' < 2 ^ 63"
  shows "\<not> f64_le (floatSecs t') (floatSecs t)"
proof -
  obtain m e where q: "floatSecs t = F64 m e" "\<bar>finval m e - of_int t / 1000000000\<bar> < 3 / 2000000"
    using assms floatSecs_error [of t] by auto
  obtain m' e' where q': "floatSecs t' = F64 m' e'" "\<bar>finval m' e' - of_int t' / 1000000000\<bar> < 3 / 2000000"
    using assms floatSecs_error [of t'] by auto
  have "real_of_int t + 3000 \<le> of_int t'" using assms(2) by linarith
  then have "finval m e < finval m' e'" using q(2) q'(2) by linarith
  then show ?thesis using q(1) q'(1) by (simp add: fin_le_iff)
qed

end
