(* ===== verification/Storage.thy ===== *)
theory Storage
  imports LabelSan GroupKey FloatFacts
begin

text \<open>
  The metric store as data and its two mutators: storage/interface.go (groups, timestamped
  families, write requests, \<open>LastPushSuccess\<close>) and, from storage/diskmetricstore.go, the
  push-timestamp gauges, \<open>processWriteRequest\<close>, \<open>setPushFailedTimestamp\<close>, \<open>timestampsPresent\<close>,
  \<open>GetMetricFamiliesMap\<close> and \<open>extractPredefinedHelpStrings\<close>.  The mutators are functions from
  store to store.  A Go map is a reference, so \<open>processWriteRequest\<close> also changes the
  request's own map of families; the model returns the changed request.
\<close>

section \<open>Names\<close>

definition pushMetricName :: string where
  "pushMetricName = ''push_time_seconds''"

definition pushMetricHelp :: string where
  "pushMetricHelp = ''Last Unix time when changing this group in the Pushgateway succeeded.''"

definition pushFailedMetricName :: string where
  "pushFailedMetricName = ''push_failure_time_seconds''"

definition pushFailedMetricHelp :: string where
  "pushFailedMetricHelp = ''Last Unix time when changing this group in the Pushgateway failed.''"

definition writeQueueCapacity :: nat where
  "writeQueueCapacity = 1000"

lemma push_names_differ [simp]: "pushMetricName \<noteq> pushFailedMetricName" "pushFailedMetricName \<noteq> pushMetricName"
  by (simp_all add: pushMetricName_def pushFailedMetricName_def)

section \<open>Data\<close>

record TimestampedMetricFamily =
  tmfTimestamp :: gotime
  tmfFamily :: "MetricFamily option"

type_synonym NameToTimestampedMetricFamilyMap = "(string, TimestampedMetricFamily) fmap"

record MetricGroup =
  mgLabels :: labels
  mgMetrics :: NameToTimestampedMetricFamilyMap

type_synonym GroupingKeyToMetricGroup = "(string, MetricGroup) fmap"

text \<open>A nil map of families is \<open>None\<close>; a nil \<open>Done\<close> channel is \<open>None\<close>, other channels have numbers.\<close>

record WriteRequest =
  wrLabels :: labels
  wrTimestamp :: gotime
  wrMetricFamilies :: "(string, MetricFamily) fmap option"
  wrReplace :: bool
  wrDone :: "nat option"

record DiskMetricStore =
  metricGroups :: GroupingKeyToMetricGroup
  persistenceFile :: string
  predefinedHelp :: "(string, string) fmap"

text \<open>\<open>GetMetricFamily\<close> drops the gob wrapper, which is the same message.\<close>

definition GetMetricFamily :: "TimestampedMetricFamily \<Rightarrow> MetricFamily option" where
  "GetMetricFamily tmf = tmfFamily tmf"

section \<open>Push timestamps\<close>

definition gaugeMetric :: "float64 \<Rightarrow> Metric" where
  "gaugeMetric v = \<lparr>mLabel = [], mGauge = Some v, mCounter = None, mSummary = None,
     mUntyped = None, mHistogram = None, mTimestampMs = None\<rparr>"

text \<open>The value of the gauge: 0 for the zero time, otherwise \<open>float64(t.UnixNano()) / 1e9\<close>.\<close>

definition timestampValue :: "gotime \<Rightarrow> float64" where
  "timestampValue t = (if \<not> IsZero t then f64_div_const (f64_of_int (UnixNano t)) 1000000000 else F64 0 0)"

definition newTimestampGauge :: "model_consts \<Rightarrow> string \<Rightarrow> string \<Rightarrow> labels \<Rightarrow> gotime \<Rightarrow> MetricFamily" where
  "newTimestampGauge mc name help groupingLabels t =
     (let ts = timestampValue t;
          mf = \<lparr>mfName = Some name, mfHelp = Some help, mfType = Some GAUGE, mfMetric = [gaugeMetric ts]\<rparr>
      in sanitizeLabels mc mf groupingLabels)"

definition newPushTimestampGauge :: "model_consts \<Rightarrow> labels \<Rightarrow> gotime \<Rightarrow> MetricFamily" where
  "newPushTimestampGauge mc groupingLabels t =
     newTimestampGauge mc pushMetricName pushMetricHelp groupingLabels t"

definition newPushFailedTimestampGauge :: "model_consts \<Rightarrow> labels \<Rightarrow> gotime \<Rightarrow> MetricFamily" where
  "newPushFailedTimestampGauge mc groupingLabels t =
     newTimestampGauge mc pushFailedMetricName pushFailedMetricHelp groupingLabels t"

text \<open>
  \<open>LastPushSuccess\<close>: a missing entry reads as a nil family.  \<open>GetMetric()[0]\<close> panics on a
  family without metrics, which is the value \<open>None\<close>.
\<close>

definition familyOf :: "MetricGroup \<Rightarrow> string \<Rightarrow> MetricFamily option" where
  "familyOf mg name = (case fmlookup (mgMetrics mg) name of None \<Rightarrow> None | Some tmf \<Rightarrow> tmfFamily tmf)"

definition LastPushSuccess :: "MetricGroup \<Rightarrow> bool option" where
  "LastPushSuccess mg =
     (case familyOf mg pushFailedMetricName of
        None \<Rightarrow> Some True
      | Some fail \<Rightarrow>
          (case familyOf mg pushMetricName of
             None \<Rightarrow> Some True
           | Some success \<Rightarrow>
               (case (mfMetric fail, mfMetric success) of
                  (f # _, s # _) \<Rightarrow> Some (GetGaugeValue f \<le> GetGaugeValue s)
                | _ \<Rightarrow> None)))"

section \<open>Mutators\<close>

definition isPushMetric :: "string \<Rightarrow> bool" where
  "isPushMetric name \<longleftrightarrow> \<not> (name \<noteq> pushMetricName \<and> name \<noteq> pushFailedMetricName)"

text \<open>
  \<open>processWriteRequest\<close>.  The deleting loop of a replacing push removes every name that is not
  a push timestamp, and the final loop stores every family of the request: both visit each
  name once, so their order does not matter.
\<close>

definition emptyGroup :: "labels \<Rightarrow> MetricGroup" where
  "emptyGroup lbls = \<lparr>mgLabels = lbls, mgMetrics = fmempty\<rparr>"

definition processWriteRequest ::
  "model_consts \<Rightarrow> DiskMetricStore \<Rightarrow> WriteRequest \<Rightarrow> DiskMetricStore \<times> WriteRequest" where
  "processWriteRequest mc dms wr =
     (let key = groupingKeyFor mc (wrLabels wr) in
      case wrMetricFamilies wr of
        None \<Rightarrow> (dms\<lparr>metricGroups := fmdrop key (metricGroups dms)\<rparr>, wr)
      | Some families \<Rightarrow>
          let group = (case fmlookup (metricGroups dms) key of
                 None \<Rightarrow> emptyGroup (wrLabels wr)
               | Some g \<Rightarrow> if wrReplace wr then g\<lparr>mgMetrics := fmfilter isPushMetric (mgMetrics g)\<rparr> else g);
              families1 = fmupd pushMetricName
                (newPushTimestampGauge mc (wrLabels wr) (wrTimestamp wr)) families;
              families2 = (if fmlookup (mgMetrics group) pushFailedMetricName = None
                 then fmupd pushFailedMetricName (newPushFailedTimestampGauge mc (wrLabels wr) zeroTime) families1
                 else families1);
              stored = fmmap (\<lambda>mf. \<lparr>tmfTimestamp = wrTimestamp wr, tmfFamily = Some mf\<rparr>) families2;
              group' = group\<lparr>mgMetrics := mgMetrics group ++\<^sub>f stored\<rparr>
          in (dms\<lparr>metricGroups := fmupd key group' (metricGroups dms)\<rparr>,
              wr\<lparr>wrMetricFamilies := Some families2\<rparr>))"

definition setPushFailedTimestamp ::
  "model_consts \<Rightarrow> DiskMetricStore \<Rightarrow> WriteRequest \<Rightarrow> DiskMetricStore" where
  "setPushFailedTimestamp mc dms wr =
     (let key = groupingKeyFor mc (wrLabels wr);
          group = (case fmlookup (metricGroups dms) key of
             None \<Rightarrow> emptyGroup (wrLabels wr) | Some g \<Rightarrow> g);
          metrics1 = fmupd pushFailedMetricName
            \<lparr>tmfTimestamp = wrTimestamp wr,
             tmfFamily = Some (newPushFailedTimestampGauge mc (wrLabels wr) (wrTimestamp wr))\<rparr> (mgMetrics group);
          metrics2 = (if fmlookup metrics1 pushMetricName = None
             then fmupd pushMetricName
               \<lparr>tmfTimestamp = wrTimestamp wr,
                tmfFamily = Some (newPushTimestampGauge mc (wrLabels wr) zeroTime)\<rparr> metrics1
             else metrics1)
      in dms\<lparr>metricGroups := fmupd key (group\<lparr>mgMetrics := metrics2\<rparr>) (metricGroups dms)\<rparr>)"

text \<open>
  \<open>timestampsPresent\<close> ranges over the families and stops at the first metric with a
  timestamp; which one it meets first does not matter for the answer.
\<close>

definition timestampsPresent :: "(string, MetricFamily) fmap \<Rightarrow> bool" where
  "timestampsPresent families =
     list_ex (\<lambda>name. case fmlookup families name of None \<Rightarrow> False
        | Some mf \<Rightarrow> list_ex (\<lambda>m. mTimestampMs m \<noteq> None) (mfMetric mf)) (sortedKeys families)"

text \<open>The copy of the two outer levels of the store; the families themselves are shared.\<close>

definition GetMetricFamiliesMap :: "DiskMetricStore \<Rightarrow> GroupingKeyToMetricGroup" where
  "GetMetricFamiliesMap dms =
     fmmap (\<lambda>g. \<lparr>mgLabels = mgLabels g, mgMetrics = fmempty ++\<^sub>f mgMetrics g\<rparr>) (metricGroups dms)"

text \<open>
  \<open>extractPredefinedHelpStrings\<close>: the gatherer's result is an argument, an error on the left;
  a nil gatherer gives a nil map, which reads as the empty one.  A later family of the same
  name wins.
\<close>

definition extractPredefinedHelpStrings ::
  "(string + MetricFamily list) option \<Rightarrow> string + (string, string) fmap" where
  "extractPredefinedHelpStrings g =
     (case g of
        None \<Rightarrow> Inr fmempty
      | Some (Inl err) \<Rightarrow> Inl err
      | Some (Inr mfs) \<Rightarrow> Inr (fold (\<lambda>mf result. fmupd (GetFamilyName mf) (GetHelp mf) result) mfs fmempty))"

section \<open>What the mutators do to the groups\<close>

definition baseGroup :: "WriteRequest \<Rightarrow> MetricGroup option \<Rightarrow> MetricGroup" where
  "baseGroup wr og = (case og of None \<Rightarrow> emptyGroup (wrLabels wr)
     | Some g \<Rightarrow> if wrReplace wr then g\<lparr>mgMetrics := fmfilter isPushMetric (mgMetrics g)\<rparr> else g)"

definition augmented ::
  "model_consts \<Rightarrow> WriteRequest \<Rightarrow> MetricGroup option \<Rightarrow> (string, MetricFamily) fmap \<Rightarrow> (string, MetricFamily) fmap" where
  "augmented mc wr og families =
     (let families1 = fmupd pushMetricName (newPushTimestampGauge mc (wrLabels wr) (wrTimestamp wr)) families
      in if fmlookup (mgMetrics (baseGroup wr og)) pushFailedMetricName = None
         then fmupd pushFailedMetricName (newPushFailedTimestampGauge mc (wrLabels wr) zeroTime) families1
         else families1)"

definition stamp :: "gotime \<Rightarrow> MetricFamily \<Rightarrow> TimestampedMetricFamily" where
  "stamp t mf = \<lparr>tmfTimestamp = t, tmfFamily = Some mf\<rparr>"

definition updatedGroup ::
  "model_consts \<Rightarrow> WriteRequest \<Rightarrow> MetricGroup option \<Rightarrow> (string, MetricFamily) fmap \<Rightarrow> MetricGroup" where
  "updatedGroup mc wr og families =
     (baseGroup wr og)\<lparr>mgMetrics := mgMetrics (baseGroup wr og) ++\<^sub>f
        fmmap (stamp (wrTimestamp wr)) (augmented mc wr og families)\<rparr>"

definition keyOf :: "model_consts \<Rightarrow> WriteRequest \<Rightarrow> string" where
  "keyOf mc wr = groupingKeyFor mc (wrLabels wr)"

definition groupOf :: "model_consts \<Rightarrow> DiskMetricStore \<Rightarrow> WriteRequest \<Rightarrow> MetricGroup option" where
  "groupOf mc dms wr = fmlookup (metricGroups dms) (keyOf mc wr)"

lemma process_delete [store_simps]:
  "wrMetricFamilies wr = None \<Longrightarrow>
   processWriteRequest mc dms wr = (dms\<lparr>metricGroups := fmdrop (keyOf mc wr) (metricGroups dms)\<rparr>, wr)"
  by (simp add: processWriteRequest_def keyOf_def)

lemma process_update [store_simps]:
  "wrMetricFamilies wr = Some families \<Longrightarrow>
   processWriteRequest mc dms wr =
     (dms\<lparr>metricGroups := fmupd (keyOf mc wr) (updatedGroup mc wr (groupOf mc dms wr) families) (metricGroups dms)\<rparr>,
      wr\<lparr>wrMetricFamilies := Some (augmented mc wr (groupOf mc dms wr) families)\<rparr>)"
  by (simp add: processWriteRequest_def keyOf_def groupOf_def updatedGroup_def augmented_def baseGroup_def
      Let_def stamp_def [abs_def])

definition failedGroup :: "model_consts \<Rightarrow> WriteRequest \<Rightarrow> MetricGroup option \<Rightarrow> MetricGroup" where
  "failedGroup mc wr og =
     (let group = (case og of None \<Rightarrow> emptyGroup (wrLabels wr) | Some g \<Rightarrow> g);
          failed = stamp (wrTimestamp wr) (newPushFailedTimestampGauge mc (wrLabels wr) (wrTimestamp wr));
          never = stamp (wrTimestamp wr) (newPushTimestampGauge mc (wrLabels wr) zeroTime);
          metrics1 = fmupd pushFailedMetricName failed (mgMetrics group)
      in group\<lparr>mgMetrics := (if fmlookup (mgMetrics group) pushMetricName = None
           then fmupd pushMetricName never metrics1 else metrics1)\<rparr>)"

lemma setPushFailed_update [store_simps]:
  "setPushFailedTimestamp mc dms wr =
     dms\<lparr>metricGroups := fmupd (keyOf mc wr) (failedGroup mc wr (groupOf mc dms wr)) (metricGroups dms)\<rparr>"
  by (simp add: setPushFailedTimestamp_def keyOf_def groupOf_def failedGroup_def Let_def stamp_def)

lemma isPushMetric_simps [simp]:
  "isPushMetric pushMetricName" "isPushMetric pushFailedMetricName"
  "isPushMetric n \<longleftrightarrow> n = pushMetricName \<or> n = pushFailedMetricName"
  by (auto simp: isPushMetric_def)

lemma baseGroup_lookup:
  "fmlookup (mgMetrics (baseGroup wr og)) n =
     (case og of None \<Rightarrow> None
      | Some g \<Rightarrow> if wrReplace wr \<and> n \<noteq> pushMetricName \<and> n \<noteq> pushFailedMetricName then None
                  else fmlookup (mgMetrics g) n)"
  by (auto simp: baseGroup_def emptyGroup_def split: option.split)

lemma baseGroup_labels: "mgLabels (baseGroup wr og) = (case og of None \<Rightarrow> wrLabels wr | Some g \<Rightarrow> mgLabels g)"
  by (simp add: baseGroup_def emptyGroup_def split: option.split)

text \<open>The lookup that characterises an accepted update, name by name.\<close>

lemma augmented_lookup:
  "fmlookup (augmented mc wr og families) n =
     (if n = pushMetricName then Some (newPushTimestampGauge mc (wrLabels wr) (wrTimestamp wr))
      else if n = pushFailedMetricName \<and> (case og of None \<Rightarrow> True | Some g \<Rightarrow> fmlookup (mgMetrics g) n = None)
      then Some (newPushFailedTimestampGauge mc (wrLabels wr) zeroTime)
      else fmlookup families n)"
  by (auto simp: augmented_def Let_def baseGroup_lookup split: option.splits)

lemma updatedGroup_lookup:
  "fmlookup (mgMetrics (updatedGroup mc wr og families)) n =
     (case fmlookup (augmented mc wr og families) n of
        Some mf \<Rightarrow> Some (stamp (wrTimestamp wr) mf)
      | None \<Rightarrow> fmlookup (mgMetrics (baseGroup wr og)) n)"
  by (simp add: updatedGroup_def fmlookup_add_option split: option.split)

lemma updatedGroup_labels: "mgLabels (updatedGroup mc wr og families) = mgLabels (baseGroup wr og)"
  by (simp add: updatedGroup_def)

lemma failedGroup_lookup:
  "fmlookup (mgMetrics (failedGroup mc wr og)) n =
     (if n = pushFailedMetricName
      then Some (stamp (wrTimestamp wr) (newPushFailedTimestampGauge mc (wrLabels wr) (wrTimestamp wr)))
      else case og of
          None \<Rightarrow> if n = pushMetricName then Some (stamp (wrTimestamp wr) (newPushTimestampGauge mc (wrLabels wr) zeroTime))
                  else None
        | Some g \<Rightarrow> if n = pushMetricName \<and> fmlookup (mgMetrics g) n = None
             then Some (stamp (wrTimestamp wr) (newPushTimestampGauge mc (wrLabels wr) zeroTime))
             else fmlookup (mgMetrics g) n)"
  by (auto simp: failedGroup_def Let_def emptyGroup_def split: option.splits)

lemma failedGroup_labels: "mgLabels (failedGroup mc wr og) = (case og of None \<Rightarrow> wrLabels wr | Some g \<Rightarrow> mgLabels g)"
  by (simp add: failedGroup_def Let_def emptyGroup_def split: option.split)

lemma families_update_irrelevant [simp]:
  "keyOf mc (wr\<lparr>wrMetricFamilies := fs\<rparr>) = keyOf mc wr"
  "groupOf mc dms (wr\<lparr>wrMetricFamilies := fs\<rparr>) = groupOf mc dms wr"
  "baseGroup (wr\<lparr>wrMetricFamilies := fs\<rparr>) og = baseGroup wr og"
  "augmented mc (wr\<lparr>wrMetricFamilies := fs\<rparr>) og x = augmented mc wr og x"
  by (auto simp add: keyOf_def groupOf_def baseGroup_def augmented_def Let_def split: option.split)

lemma augmented_idem: "augmented mc wr og (augmented mc wr og families) = augmented mc wr og families"
  by (rule fmap_ext) (auto simp: augmented_lookup)

lemma groups_frame:
  "key \<noteq> keyOf mc wr \<Longrightarrow> fmlookup (metricGroups (fst (processWriteRequest mc dms wr))) key = fmlookup (metricGroups dms) key"
  "key \<noteq> keyOf mc wr \<Longrightarrow> fmlookup (metricGroups (setPushFailedTimestamp mc dms wr)) key = fmlookup (metricGroups dms) key"
  by (cases "wrMetricFamilies wr"; simp add: store_simps)+

lemma config_frame [simp]:
  "predefinedHelp (fst (processWriteRequest mc dms wr)) = predefinedHelp dms"
  "persistenceFile (fst (processWriteRequest mc dms wr)) = persistenceFile dms"
  "predefinedHelp (setPushFailedTimestamp mc dms wr) = predefinedHelp dms"
  "persistenceFile (setPushFailedTimestamp mc dms wr) = persistenceFile dms"
  by (cases "wrMetricFamilies wr"; simp add: store_simps)+

lemma request_frame [simp]:
  "wrLabels (snd (processWriteRequest mc dms wr)) = wrLabels wr"
  "wrTimestamp (snd (processWriteRequest mc dms wr)) = wrTimestamp wr"
  "wrReplace (snd (processWriteRequest mc dms wr)) = wrReplace wr"
  "wrDone (snd (processWriteRequest mc dms wr)) = wrDone wr"
  by (cases "wrMetricFamilies wr"; simp add: store_simps)+

text \<open>Processing a request that an earlier run has already extended stores the same groups.\<close>

lemma process_again:
  "metricGroups d = metricGroups dms \<Longrightarrow>
   metricGroups (fst (processWriteRequest mc dms (snd (processWriteRequest mc d wr)))) =
   metricGroups (fst (processWriteRequest mc dms wr))"
proof (cases "wrMetricFamilies wr")
  case (Some families)
  assume eq: "metricGroups d = metricGroups dms"
  let ?fs = "augmented mc wr (groupOf mc d wr) families"
  have "groupOf mc d wr = groupOf mc dms wr"
    using eq by (simp add: groupOf_def)
  with Some show ?thesis by (simp add: store_simps updatedGroup_def augmented_idem)
qed (simp add: store_simps)

lemma MetricGroup_eta [simp]: "\<lparr>mgLabels = mgLabels g, mgMetrics = mgMetrics g\<rparr> = g"
  by (cases g) simp

lemma GetMetricFamiliesMap_id [simp]: "GetMetricFamiliesMap dms = metricGroups dms"
  by (rule fmap_ext) (simp add: GetMetricFamiliesMap_def option.map_ident)

section \<open>Reading the store\<close>

definition stored :: "DiskMetricStore \<Rightarrow> string \<Rightarrow> string \<Rightarrow> TimestampedMetricFamily option" where
  "stored dms key name =
     (case fmlookup (metricGroups dms) key of None \<Rightarrow> None | Some g \<Rightarrow> fmlookup (mgMetrics g) name)"

lemma stored_update:
  "wrMetricFamilies wr = Some families \<Longrightarrow>
   stored (fst (processWriteRequest mc dms wr)) (keyOf mc wr) n =
     fmlookup (mgMetrics (updatedGroup mc wr (groupOf mc dms wr) families)) n"
  by (simp add: stored_def store_simps)

lemma stored_failed:
  "stored (setPushFailedTimestamp mc dms wr) (keyOf mc wr) n =
     fmlookup (mgMetrics (failedGroup mc wr (groupOf mc dms wr))) n"
  by (simp add: stored_def store_simps)

lemma stored_groupOf: "stored dms (keyOf mc wr) n =
    (case groupOf mc dms wr of None \<Rightarrow> None | Some g \<Rightarrow> fmlookup (mgMetrics g) n)"
  by (simp add: stored_def groupOf_def)

lemma groupOf_after [simp]:
  "wrMetricFamilies wr = Some families \<Longrightarrow>
   groupOf mc (fst (processWriteRequest mc dms wr)) wr = Some (updatedGroup mc wr (groupOf mc dms wr) families)"
  "groupOf mc (setPushFailedTimestamp mc dms wr) wr = Some (failedGroup mc wr (groupOf mc dms wr))"
  by (simp_all add: store_simps) (simp_all add: groupOf_def)

lemmas update_lookups = stored_update updatedGroup_lookup augmented_lookup baseGroup_lookup stored_groupOf

section \<open>Well-formed stores\<close>

text \<open>
  Every group is filed under the key of its own labels, holds both push timestamps, and holds
  no nil family.
\<close>

definition group_wf :: "model_consts \<Rightarrow> string \<Rightarrow> MetricGroup \<Rightarrow> bool" where
  "group_wf mc key g \<longleftrightarrow> groupingKeyFor mc (mgLabels g) = key \<and>
     fmlookup (mgMetrics g) pushMetricName \<noteq> None \<and> fmlookup (mgMetrics g) pushFailedMetricName \<noteq> None \<and>
     fmpred (\<lambda>name tmf. tmfFamily tmf \<noteq> None) (mgMetrics g)"

definition store_wf :: "model_consts \<Rightarrow> DiskMetricStore \<Rightarrow> bool" where
  "store_wf mc dms \<longleftrightarrow> fmpred (group_wf mc) (metricGroups dms)"

lemma fmpredI2: "(\<And>k v. fmlookup m k = Some v \<Longrightarrow> P k v) \<Longrightarrow> fmpred P m"
  by (simp add: fmpred_iff)

lemma fmpredD2: "fmpred P m \<Longrightarrow> fmlookup m k = Some v \<Longrightarrow> P k v"
  by (simp add: fmpred_iff)

lemma fmpred_fmupd: "fmpred P m \<Longrightarrow> P k v \<Longrightarrow> fmpred P (fmupd k v m)"
  by (auto simp: fmpred_iff)

lemma fmpred_fmdrop: "fmpred P m \<Longrightarrow> fmpred P (fmdrop k m)"
  by (auto simp: fmpred_iff split: if_splits)

lemma store_wf_group: "store_wf mc dms \<Longrightarrow> groupOf mc dms wr = Some g \<Longrightarrow> group_wf mc (keyOf mc wr) g"
  unfolding store_wf_def groupOf_def by (rule fmpredD2)

lemma updatedGroup_wf:
  assumes "\<And>g. og = Some g \<Longrightarrow> group_wf mc (keyOf mc wr) g"
  shows "group_wf mc (keyOf mc wr) (updatedGroup mc wr og families)"
  using assms
  by (cases og) (auto simp: group_wf_def updatedGroup_labels baseGroup_labels keyOf_def updatedGroup_lookup
      augmented_lookup baseGroup_lookup stamp_def fmpred_iff split: option.splits if_splits)

lemma failedGroup_wf:
  assumes "\<And>g. og = Some g \<Longrightarrow> group_wf mc (keyOf mc wr) g"
  shows "group_wf mc (keyOf mc wr) (failedGroup mc wr og)"
  using assms
  by (cases og) (auto simp: group_wf_def failedGroup_labels keyOf_def failedGroup_lookup stamp_def fmpred_iff
      split: option.splits if_splits)

lemma process_wf: "store_wf mc dms \<Longrightarrow> store_wf mc (fst (processWriteRequest mc dms wr))"
  by (cases "wrMetricFamilies wr")
    (auto simp: store_simps store_wf_def intro!: fmpred_fmupd fmpred_fmdrop updatedGroup_wf
      dest: store_wf_group [unfolded store_wf_def])

lemma setPushFailed_wf: "store_wf mc dms \<Longrightarrow> store_wf mc (setPushFailedTimestamp mc dms wr)"
  by (auto simp: store_simps store_wf_def intro!: fmpred_fmupd failedGroup_wf
      dest: store_wf_group [unfolded store_wf_def])

text \<open>
  The labels of what is stored: every metric of a group carries the group's labels and has no
  timestamp of its own.
\<close>

definition family_labelled :: "model_consts \<Rightarrow> labels \<Rightarrow> MetricFamily \<Rightarrow> bool" where
  "family_labelled mc gl mf \<longleftrightarrow> list_all (sanitized (InstanceLabel mc) gl) (mfMetric mf) \<and>
     list_all (\<lambda>m. mTimestampMs m = None) (mfMetric mf)"

definition group_labelled :: "model_consts \<Rightarrow> MetricGroup \<Rightarrow> bool" where
  "group_labelled mc g \<longleftrightarrow> sep_free mc (mgLabels g) \<and>
     fmpred (\<lambda>name tmf. case tmfFamily tmf of None \<Rightarrow> True | Some mf \<Rightarrow> family_labelled mc (mgLabels g) mf) (mgMetrics g)"

definition store_labelled :: "model_consts \<Rightarrow> DiskMetricStore \<Rightarrow> bool" where
  "store_labelled mc dms \<longleftrightarrow> fmpred (\<lambda>key g. group_labelled mc g) (metricGroups dms)"

lemmas sanitizeMetric_frame [simp] = sanitizeMetric_keeps [of sortedKeys, folded sanitizeMetric_def]

lemma sanitizeLabels_labelled:
  "list_all (\<lambda>m. mTimestampMs m = None) (mfMetric mf) \<Longrightarrow> family_labelled mc gl (sanitizeLabels mc mf gl)"
  by (simp add: family_labelled_def list_all_iff sanitizeMetric_sanitized)

lemma gauge_labelled:
  "family_labelled mc gl (newPushTimestampGauge mc gl t)"
  "family_labelled mc gl (newPushFailedTimestampGauge mc gl t)"
  unfolding newPushTimestampGauge_def newPushFailedTimestampGauge_def newTimestampGauge_def Let_def
  by (rule sanitizeLabels_labelled, simp add: gaugeMetric_def)+

lemma same_key_same_labels:
  assumes "group_wf mc (keyOf mc wr) g" "group_labelled mc g" "sep_free mc (wrLabels wr)"
  shows "mgLabels g = wrLabels wr"
  using assms by (intro groupingKeyFor_inject [of mc]) (simp_all add: group_wf_def group_labelled_def keyOf_def)

definition request_labelled :: "model_consts \<Rightarrow> WriteRequest \<Rightarrow> bool" where
  "request_labelled mc wr \<longleftrightarrow>
     (case wrMetricFamilies wr of None \<Rightarrow> True
      | Some families \<Rightarrow> fmpred (\<lambda>name mf. family_labelled mc (wrLabels wr) mf) families)"

definition all_labelled :: "model_consts \<Rightarrow> labels \<Rightarrow> NameToTimestampedMetricFamilyMap \<Rightarrow> bool" where
  "all_labelled mc gl ms \<longleftrightarrow>
     (\<forall>n tmf mf. fmlookup ms n = Some tmf \<longrightarrow> tmfFamily tmf = Some mf \<longrightarrow> family_labelled mc gl mf)"

lemma group_labelled_iff:
  "group_labelled mc g \<longleftrightarrow> sep_free mc (mgLabels g) \<and> all_labelled mc (mgLabels g) (mgMetrics g)"
  by (fastforce simp: group_labelled_def all_labelled_def fmpred_iff split: option.splits)

lemma baseGroup_labelled:
  assumes "\<And>g. og = Some g \<Longrightarrow> group_wf mc (keyOf mc wr) g \<and> group_labelled mc g" "sep_free mc (wrLabels wr)"
  shows "mgLabels (baseGroup wr og) = wrLabels wr \<and> all_labelled mc (wrLabels wr) (mgMetrics (baseGroup wr og))"
proof (cases og)
  case None
  then show ?thesis by (simp add: baseGroup_def emptyGroup_def all_labelled_def)
next
  case (Some g)
  then have "mgLabels g = wrLabels wr" "all_labelled mc (wrLabels wr) (mgMetrics g)"
    using assms same_key_same_labels group_labelled_iff by metis+
  then show ?thesis using Some by (auto simp: baseGroup_labels all_labelled_def baseGroup_lookup split: if_splits)
qed

lemma updatedGroup_labelled:
  assumes "\<And>g. og = Some g \<Longrightarrow> group_wf mc (keyOf mc wr) g \<and> group_labelled mc g"
    and "sep_free mc (wrLabels wr)" "fmpred (\<lambda>name mf. family_labelled mc (wrLabels wr) mf) families"
  shows "group_labelled mc (updatedGroup mc wr og families)"
proof -
  note base = baseGroup_labelled [OF assms(1,2)]
  have new: "fmlookup (augmented mc wr og families) n = Some mf \<Longrightarrow> family_labelled mc (wrLabels wr) mf" for n mf
    using assms(3) by (auto simp: augmented_lookup gauge_labelled fmpred_iff split: if_splits)
  have "all_labelled mc (wrLabels wr) (mgMetrics (updatedGroup mc wr og families))"
    unfolding all_labelled_def
  proof (intro allI impI)
    fix n tmf mf
    assume a: "fmlookup (mgMetrics (updatedGroup mc wr og families)) n = Some tmf" "tmfFamily tmf = Some mf"
    show "family_labelled mc (wrLabels wr) mf"
      using a base new [of n]
      by (cases "fmlookup (augmented mc wr og families) n")
        (auto simp: updatedGroup_lookup stamp_def all_labelled_def)
  qed
  then show ?thesis using base assms(2) by (simp add: group_labelled_iff updatedGroup_labels)
qed

lemma failedGroup_labelled:
  assumes "\<And>g. og = Some g \<Longrightarrow> group_wf mc (keyOf mc wr) g \<and> group_labelled mc g"
    and "sep_free mc (wrLabels wr)"
  shows "group_labelled mc (failedGroup mc wr og)"
proof (cases og)
  case None
  then show ?thesis using assms(2)
    by (auto simp: group_labelled_iff failedGroup_labels all_labelled_def failedGroup_lookup stamp_def
        gauge_labelled split: if_splits)
next
  case (Some g)
  then have "mgLabels g = wrLabels wr" "all_labelled mc (wrLabels wr) (mgMetrics g)"
    using assms same_key_same_labels group_labelled_iff by metis+
  then show ?thesis using Some assms(2)
    by (auto simp: group_labelled_iff failedGroup_labels all_labelled_def failedGroup_lookup stamp_def
        gauge_labelled split: if_splits)
qed

lemma process_labelled:
  assumes "store_wf mc dms" "store_labelled mc dms" "sep_free mc (wrLabels wr)" "request_labelled mc wr"
  shows "store_labelled mc (fst (processWriteRequest mc dms wr))"
proof (cases "wrMetricFamilies wr")
  case None
  then show ?thesis using assms(2) by (simp add: store_simps store_labelled_def fmpred_fmdrop)
next
  case (Some families)
  have "group_labelled mc (updatedGroup mc wr (groupOf mc dms wr) families)"
    using assms Some store_wf_group [OF assms(1)]
    by (intro updatedGroup_labelled)
      (auto simp: store_labelled_def groupOf_def request_labelled_def dest: fmpredD2)
  then show ?thesis using assms(2) Some by (simp add: store_simps store_labelled_def fmpred_fmupd)
qed

lemma setPushFailed_labelled:
  assumes "store_wf mc dms" "store_labelled mc dms" "sep_free mc (wrLabels wr)"
  shows "store_labelled mc (setPushFailedTimestamp mc dms wr)"
proof -
  have "group_labelled mc (failedGroup mc wr (groupOf mc dms wr))"
    using assms store_wf_group [OF assms(1)]
    by (intro failedGroup_labelled) (auto simp: store_labelled_def groupOf_def dest: fmpredD2)
  then show ?thesis using assms(2) by (simp add: store_simps store_labelled_def fmpred_fmupd)
qed

section \<open>Push timestamps and the outcome of the last push\<close>

text \<open>An instant whose nanoseconds fit into 63 bits, that is from 1970 to 2262.\<close>

definition unix_time :: "gotime \<Rightarrow> bool" where
  "unix_time t \<longleftrightarrow> 0 \<le> t \<and> t < 2 ^ 63"

lemma timestampValue_unix: "unix_time t \<Longrightarrow> timestampValue t = floatSecs t"
  by (simp add: unix_time_def timestampValue_def IsZero_def zeroTime_def UnixNano_def wrap64_id floatSecs_def)

lemma timestampValue_zero: "timestampValue zeroTime = floatSecs 0"
  by (simp add: timestampValue_def IsZero_def)

lemma unix_time_0: "unix_time 0"
  by (simp add: unix_time_def)

text \<open>The family that stands for a push at \<open>t\<close>, and the value read from it.\<close>

lemma gauge_shape:
  "\<exists>m. mfMetric (newTimestampGauge mc name help gl t) = [m] \<and> GetGaugeValue m = timestampValue t"
  by (simp add: newTimestampGauge_def gaugeMetric_def GetGaugeValue_def)

lemma gauge_shapes:
  "\<exists>m. mfMetric (newPushTimestampGauge mc gl t) = [m] \<and> GetGaugeValue m = timestampValue t"
  "\<exists>m. mfMetric (newPushFailedTimestampGauge mc gl t) = [m] \<and> GetGaugeValue m = timestampValue t"
  by (simp_all add: newPushTimestampGauge_def newPushFailedTimestampGauge_def gauge_shape)

lemma LastPushSuccess_gauges:
  assumes "fmlookup (mgMetrics g) pushFailedMetricName = Some (stamp a (newPushFailedTimestampGauge mc gl f))"
    and "fmlookup (mgMetrics g) pushMetricName = Some (stamp b (newPushTimestampGauge mc gl' s))"
  shows "LastPushSuccess g = Some (f64_le (timestampValue f) (timestampValue s))"
  using gauge_shapes(2) [of mc gl f] gauge_shapes(1) [of mc gl' s] assms
  by (auto simp: LastPushSuccess_def familyOf_def stamp_def f64_ops)

text \<open>The time recorded by a gauge: an actual instant, or the zero time read as second 0.\<close>

definition recorded :: "gotime \<Rightarrow> int" where
  "recorded t = (if IsZero t then 0 else t)"

lemma timestampValue_recorded: "unix_time (recorded t) \<Longrightarrow> timestampValue t = floatSecs (recorded t)"
  by (auto simp: recorded_def timestampValue_unix IsZero_def timestampValue_zero)

lemma unix_time_recorded [simp]: "unix_time t \<Longrightarrow> recorded t = t"
  by (auto simp: recorded_def unix_time_def IsZero_def zeroTime_def)

lemma timestampValue_le:
  "unix_time (recorded f) \<Longrightarrow> unix_time (recorded s) \<Longrightarrow> recorded f \<le> recorded s \<Longrightarrow>
   f64_le (timestampValue f) (timestampValue s)"
  by (simp add: timestampValue_recorded floatSecs_mono unix_time_def)

lemma timestampValue_not_le:
  "unix_time (recorded f) \<Longrightarrow> unix_time (recorded s) \<Longrightarrow> recorded s + 3000 \<le> recorded f \<Longrightarrow>
   \<not> f64_le (timestampValue f) (timestampValue s)"
  by (simp add: timestampValue_recorded floatSecs_separated unix_time_def)

end
