(* ===== verification/StoreProps.thy ===== *)
theory StoreProps
  imports Storage
begin

text \<open>
  What the mutators of the store promise: the effect of a PUT, a POST and a DELETE on the group
  they name, the effect of a rejected push, the isolation of all other groups, and the outcome
  of the last push as the web page shows it.  Families are read with
  \<open>stored dms (groupingKeyFor mc labels) name\<close>.
\<close>

section \<open>Concrete inputs\<close>

definition job_labels :: "string \<Rightarrow> labels" where
  "job_labels j = fmupd ''job'' j fmempty"

definition empty_store :: DiskMetricStore where
  "empty_store = \<lparr>metricGroups = fmempty, persistenceFile = '''', predefinedHelp = fmempty\<rparr>"

definition gaugeFamily :: "string \<Rightarrow> MetricFamily" where
  "gaugeFamily name = \<lparr>mfName = Some name, mfHelp = None, mfType = Some GAUGE,
     mfMetric = [sampleMetric []]\<rparr>"

definition push_of :: "string \<Rightarrow> gotime \<Rightarrow> (string, MetricFamily) fmap \<Rightarrow> bool \<Rightarrow> WriteRequest" where
  "push_of j t families replace = \<lparr>wrLabels = job_labels j, wrTimestamp = t,
     wrMetricFamilies = Some families, wrReplace = replace, wrDone = Some 0\<rparr>"

definition delete_of :: "string \<Rightarrow> gotime \<Rightarrow> WriteRequest" where
  "delete_of j t = \<lparr>wrLabels = job_labels j, wrTimestamp = t, wrMetricFamilies = None,
     wrReplace = False, wrDone = None\<rparr>"

lemma push_of_sel [simp]:
  "wrLabels (push_of j t fs r) = job_labels j" "wrTimestamp (push_of j t fs r) = t"
  "wrMetricFamilies (push_of j t fs r) = Some fs" "wrReplace (push_of j t fs r) = r"
  "wrDone (push_of j t fs r) = Some 0"
  by (simp_all add: push_of_def)

lemma delete_of_sel [simp]:
  "wrLabels (delete_of j t) = job_labels j" "wrMetricFamilies (delete_of j t) = None"
  "wrTimestamp (delete_of j t) = t" "wrDone (delete_of j t) = None"
  by (simp_all add: delete_of_def)

lemma stored_empty [simp]: "stored empty_store key n = None"
  by (simp add: stored_def empty_store_def)

lemma store_wf_empty: "store_wf mc empty_store"
  by (simp add: store_wf_def empty_store_def)

section \<open>Updates\<close>

text \<open>
  C8. A replacing push (PUT) leaves exactly the pushed families in its group, stamped with the
  time of the request, plus the two push timestamps: the success time is that of the request,
  and the failure time of the group is kept, or is zero when there was none.  (A pushed family
  named like the failure time wins over the kept one.)
\<close>

theorem put_effect:
  assumes "wrMetricFamilies wr = Some families" "wrReplace wr"
  shows "stored (fst (processWriteRequest mc dms wr)) (groupingKeyFor mc (wrLabels wr)) n =
    (if n = pushMetricName
     then Some (stamp (wrTimestamp wr) (newPushTimestampGauge mc (wrLabels wr) (wrTimestamp wr)))
     else if n = pushFailedMetricName \<and> stored dms (groupingKeyFor mc (wrLabels wr)) n = None
     then Some (stamp (wrTimestamp wr) (newPushFailedTimestampGauge mc (wrLabels wr) zeroTime))
     else case fmlookup families n of
         Some mf \<Rightarrow> Some (stamp (wrTimestamp wr) mf)
       | None \<Rightarrow> if n = pushFailedMetricName then stored dms (groupingKeyFor mc (wrLabels wr)) n else None)"
  using assms unfolding keyOf_def [symmetric]
  by (auto simp: update_lookups split: option.split)

theorem put_effect_witness:
  "stored (fst (processWriteRequest prom_consts empty_store (push_of ''j'' 5 (fmupd ''m'' (gaugeFamily ''m'') fmempty) True)))
     (groupingKeyFor prom_consts (job_labels ''j'')) ''m'' = Some (stamp 5 (gaugeFamily ''m''))"
  using put_effect [of "push_of ''j'' 5 (fmupd ''m'' (gaugeFamily ''m'') fmempty) True" _ prom_consts empty_store "''m''", OF push_of_sel(3)]
  by (simp add: pushMetricName_def pushFailedMetricName_def)

text \<open>
  C9. A merging push (POST) replaces the families it names, keeps all other families of the
  group with their old time stamps, and records the push.
\<close>

theorem post_effect:
  assumes "wrMetricFamilies wr = Some families" "\<not> wrReplace wr"
  shows "stored (fst (processWriteRequest mc dms wr)) (groupingKeyFor mc (wrLabels wr)) n =
    (if n = pushMetricName
     then Some (stamp (wrTimestamp wr) (newPushTimestampGauge mc (wrLabels wr) (wrTimestamp wr)))
     else if n = pushFailedMetricName \<and> stored dms (groupingKeyFor mc (wrLabels wr)) n = None
     then Some (stamp (wrTimestamp wr) (newPushFailedTimestampGauge mc (wrLabels wr) zeroTime))
     else case fmlookup families n of
         Some mf \<Rightarrow> Some (stamp (wrTimestamp wr) mf)
       | None \<Rightarrow> stored dms (groupingKeyFor mc (wrLabels wr)) n)"
  using assms unfolding keyOf_def [symmetric]
  by (auto simp: update_lookups split: option.splits)

theorem post_effect_witness:
  "stored (fst (processWriteRequest prom_consts empty_store (push_of ''j'' 5 (fmupd ''m'' (gaugeFamily ''m'') fmempty) False)))
     (groupingKeyFor prom_consts (job_labels ''j'')) ''m'' = Some (stamp 5 (gaugeFamily ''m''))"
  using post_effect [of "push_of ''j'' 5 (fmupd ''m'' (gaugeFamily ''m'') fmempty) False" _ prom_consts empty_store "''m''", OF push_of_sel(3)]
  by (simp add: pushMetricName_def pushFailedMetricName_def)

text \<open>
  A push that carries a family named \<open>push_failure_time_seconds\<close> replaces the failure time
  of an existing group by it, although the comment in the code says a previously added fail
  timestamp is retained and the README that the pushed metric is overridden.
\<close>

lemma pushed_failure_time_wins:
  assumes "wrMetricFamilies wr = Some families" "fmlookup families pushFailedMetricName = Some mf"
    and "stored dms (groupingKeyFor mc (wrLabels wr)) pushFailedMetricName \<noteq> None"
  shows "stored (fst (processWriteRequest mc dms wr)) (groupingKeyFor mc (wrLabels wr)) pushFailedMetricName
    = Some (stamp (wrTimestamp wr) mf)"
  using assms unfolding keyOf_def [symmetric]
  by (auto simp: update_lookups split: option.splits)

section \<open>Deletion and isolation\<close>

text \<open>
  A request without families deletes exactly its group: that key has no group any more, and
  the rest of the store is as before.
\<close>

lemma delete_effect:
  assumes "wrMetricFamilies wr = None"
  shows "fmlookup (metricGroups (fst (processWriteRequest mc dms wr))) key =
    (if key = groupingKeyFor mc (wrLabels wr) then None else fmlookup (metricGroups dms) key) \<and>
    snd (processWriteRequest mc dms wr) = wr"
  using assms by (simp add: store_simps keyOf_def)

text \<open>
  Neither an update nor a deletion nor a rejected push touches a group whose labels differ
  from the request's, as long as no label contains the separator byte; nor do they change the
  predefined help strings.
\<close>

lemma other_groups_untouched:
  assumes "sep_free mc (wrLabels wr)" "sep_free mc other" "other \<noteq> wrLabels wr"
  shows "\<forall>dms' \<in> {fst (processWriteRequest mc dms wr), setPushFailedTimestamp mc dms wr}.
    fmlookup (metricGroups dms') (groupingKeyFor mc other) = fmlookup (metricGroups dms) (groupingKeyFor mc other) \<and>
    predefinedHelp dms' = predefinedHelp dms"
proof -
  have "groupingKeyFor mc other \<noteq> keyOf mc wr"
    using assms groupingKeyFor_inject [of mc other "wrLabels wr"] by (auto simp: keyOf_def)
  then show ?thesis by (simp add: groups_frame)
qed

section \<open>Rejected pushes\<close>

text \<open>
  C35. A rejected push changes its group in two points only: the failure time becomes that of the
  request, and a group without a success time gets the zero one.  Every other family of the
  group, and the success time of earlier pushes, is kept.
\<close>

theorem rejected_push_effect:
  "stored (setPushFailedTimestamp mc dms wr) (groupingKeyFor mc (wrLabels wr)) n =
    (if n = pushFailedMetricName
     then Some (stamp (wrTimestamp wr) (newPushFailedTimestampGauge mc (wrLabels wr) (wrTimestamp wr)))
     else if n = pushMetricName \<and> stored dms (groupingKeyFor mc (wrLabels wr)) n = None
     then Some (stamp (wrTimestamp wr) (newPushTimestampGauge mc (wrLabels wr) zeroTime))
     else stored dms (groupingKeyFor mc (wrLabels wr)) n)"
  unfolding keyOf_def [symmetric]
  by (auto simp: stored_failed failedGroup_lookup stored_groupOf split: option.split)

section \<open>Repetition and order\<close>

lemma MetricGroup_eqI: "mgLabels a = mgLabels b \<Longrightarrow> mgMetrics a = mgMetrics b \<Longrightarrow> a = (b :: MetricGroup)"
  by simp

lemma updatedGroup_again:
  assumes "fmlookup families pushFailedMetricName = None"
  shows "updatedGroup mc wr (Some (updatedGroup mc wr og families)) families = updatedGroup mc wr og families"
proof (rule MetricGroup_eqI)
  show "mgLabels (updatedGroup mc wr (Some (updatedGroup mc wr og families)) families) = mgLabels (updatedGroup mc wr og families)"
    by (simp add: updatedGroup_labels baseGroup_labels)
  show "mgMetrics (updatedGroup mc wr (Some (updatedGroup mc wr og families)) families) = mgMetrics (updatedGroup mc wr og families)"
    using assms by (intro fmap_ext)
      (auto simp: updatedGroup_lookup augmented_lookup baseGroup_lookup split: option.splits if_splits)
qed

lemma groupOf_other:
  "keyOf mc w \<noteq> keyOf mc wr \<Longrightarrow> groupOf mc (fst (processWriteRequest mc dms wr)) w = groupOf mc dms w"
  by (simp add: groupOf_def groups_frame)

lemma process_lookup:
  "fmlookup (metricGroups (fst (processWriteRequest mc dms wr))) key =
    (if key = keyOf mc wr
     then (case wrMetricFamilies wr of None \<Rightarrow> None | Some families \<Rightarrow> Some (updatedGroup mc wr (groupOf mc dms wr) families))
     else fmlookup (metricGroups dms) key)"
  by (cases "wrMetricFamilies wr") (simp_all add: store_simps)

text \<open>
  A push that is delivered twice, as by a client that retries, leaves the store as the first
  delivery left it, provided it does not itself carry a failure time.
\<close>

lemma repeated_push_idempotent:
  assumes "wrMetricFamilies wr = Some families" "fmlookup families pushFailedMetricName = None"
  shows "fst (processWriteRequest mc (fst (processWriteRequest mc dms wr)) wr) = fst (processWriteRequest mc dms wr)"
proof -
  let ?d = "fst (processWriteRequest mc dms wr)"
  have "metricGroups (fst (processWriteRequest mc ?d wr)) = metricGroups ?d"
    using assms by (intro fmap_ext) (simp add: process_lookup updatedGroup_again)
  then show ?thesis by simp
qed

text \<open>
  C34. Updates and deletions of groups with different labels commute, if no label of the two contains the
  separator byte of grouping keys: their order in the queue cannot be seen in the store.  With the byte, different
  labels can share a key (\<open>groupingKey_collision\<close>), and then the later request overwrites the earlier.
\<close>

theorem different_groups_commute:
  assumes "sep_free mc (wrLabels w1)" "sep_free mc (wrLabels w2)" "wrLabels w1 \<noteq> wrLabels w2"
  shows "fst (processWriteRequest mc (fst (processWriteRequest mc dms w1)) w2) =
    fst (processWriteRequest mc (fst (processWriteRequest mc dms w2)) w1)"
proof -
  let ?a = "fst (processWriteRequest mc (fst (processWriteRequest mc dms w1)) w2)"
  let ?b = "fst (processWriteRequest mc (fst (processWriteRequest mc dms w2)) w1)"
  have "keyOf mc w1 \<noteq> keyOf mc w2"
    using assms groupingKeyFor_inject [of mc "wrLabels w1" "wrLabels w2"] by (auto simp: keyOf_def)
  then have "metricGroups ?a = metricGroups ?b"
    by (intro fmap_ext) (auto simp: process_lookup groupOf_other split: option.split)
  then show ?thesis by simp
qed

theorem different_groups_commute_witness:
  "fst (processWriteRequest prom_consts (fst (processWriteRequest prom_consts empty_store (push_of ''a'' 5 fmempty True))) (delete_of ''b'' 6)) =
   fst (processWriteRequest prom_consts (fst (processWriteRequest prom_consts empty_store (delete_of ''b'' 6))) (push_of ''a'' 5 fmempty True))"
proof (rule different_groups_commute)
  show "sep_free prom_consts (wrLabels (push_of ''a'' 5 fmempty True))" "sep_free prom_consts (wrLabels (delete_of ''b'' 6))"
    by (auto simp: sep_free_def job_labels_def split: if_splits)
  have "fmlookup (job_labels ''a'') ''job'' \<noteq> fmlookup (job_labels ''b'') ''job''"
    by (simp add: job_labels_def)
  then show "wrLabels (push_of ''a'' 5 fmempty True) \<noteq> wrLabels (delete_of ''b'' 6)" by auto
qed

section \<open>The outcome of the last push\<close>

text \<open>
  C31. After a successful push at a time not before the recorded failure, the group counts as
  successfully pushed, whatever rounding the two float conversions do.  The push carries no
  family of the reserved name \<open>push_failure_time_seconds\<close>, which would replace the recorded one.
\<close>

theorem success_after_push:
  assumes push: "wrMetricFamilies wr = Some families" "fmlookup families pushFailedMetricName = None"
    and failure: "stored dms (groupingKeyFor mc (wrLabels wr)) pushFailedMetricName
        = Some (stamp a (newPushFailedTimestampGauge mc gl f))"
    and time: "unix_time (wrTimestamp wr)" "unix_time (recorded f)" "recorded f \<le> wrTimestamp wr"
  shows "\<exists>g. fmlookup (metricGroups (fst (processWriteRequest mc dms wr))) (groupingKeyFor mc (wrLabels wr)) = Some g
    \<and> LastPushSuccess g = Some True"
proof -
  let ?g = "updatedGroup mc wr (groupOf mc dms wr) families"
  have "fmlookup (mgMetrics ?g) pushFailedMetricName = Some (stamp a (newPushFailedTimestampGauge mc gl f))"
    using push failure unfolding keyOf_def [symmetric] by (auto simp: update_lookups split: option.splits)
  moreover have "fmlookup (mgMetrics ?g) pushMetricName =
      Some (stamp (wrTimestamp wr) (newPushTimestampGauge mc (wrLabels wr) (wrTimestamp wr)))"
    by (simp add: update_lookups)
  moreover have "f64_le (timestampValue f) (timestampValue (wrTimestamp wr))"
    using time by (intro timestampValue_le) simp_all
  ultimately have "LastPushSuccess ?g = Some True"
    by (simp add: LastPushSuccess_gauges)
  then show ?thesis using push by (simp add: store_simps keyOf_def [symmetric])
qed

theorem success_after_push_witness:
  "\<exists>g. fmlookup (metricGroups (fst (processWriteRequest prom_consts
        (setPushFailedTimestamp prom_consts empty_store (push_of ''j'' 1583872347716605700 fmempty True))
        (push_of ''j'' 1583872347716605701 fmempty False)))) (groupingKeyFor prom_consts (job_labels ''j'')) = Some g
     \<and> LastPushSuccess g = Some True"
proof -
  let ?dms = "setPushFailedTimestamp prom_consts empty_store (push_of ''j'' 1583872347716605700 fmempty True)"
  let ?wr = "push_of ''j'' 1583872347716605701 fmempty False"
  have "stored ?dms (groupingKeyFor prom_consts (wrLabels ?wr)) pushFailedMetricName =
      Some (stamp 1583872347716605700 (newPushFailedTimestampGauge prom_consts (job_labels ''j'') 1583872347716605700))"
    using stored_failed [of prom_consts empty_store "push_of ''j'' 1583872347716605700 fmempty True" pushFailedMetricName]
    by (simp add: keyOf_def failedGroup_lookup)
  from success_after_push [OF _ _ this, of fmempty]
  show ?thesis by (simp add: unix_time_def recorded_def)
qed

text \<open>
  C30. After a rejected push at least 3 microseconds after the last successful one (or after none),
  the group counts as failed: the two roundings never hide such a distance.
\<close>

theorem failure_after_rejected_push:
  assumes success: "stored dms (groupingKeyFor mc (wrLabels wr)) pushMetricName
        = Some (stamp a (newPushTimestampGauge mc gl s))"
    and time: "unix_time (wrTimestamp wr)" "unix_time (recorded s)" "recorded s + 3000 \<le> wrTimestamp wr"
  shows "\<exists>g. fmlookup (metricGroups (setPushFailedTimestamp mc dms wr)) (groupingKeyFor mc (wrLabels wr)) = Some g
    \<and> LastPushSuccess g = Some False"
proof -
  let ?g = "failedGroup mc wr (groupOf mc dms wr)"
  have "fmlookup (mgMetrics ?g) pushMetricName = Some (stamp a (newPushTimestampGauge mc gl s))"
    using success unfolding keyOf_def [symmetric]
    by (auto simp: failedGroup_lookup stored_groupOf split: option.splits)
  moreover have "fmlookup (mgMetrics ?g) pushFailedMetricName =
      Some (stamp (wrTimestamp wr) (newPushFailedTimestampGauge mc (wrLabels wr) (wrTimestamp wr)))"
    by (simp add: failedGroup_lookup)
  moreover have "\<not> f64_le (timestampValue (wrTimestamp wr)) (timestampValue s)"
    using time by (intro timestampValue_not_le) simp_all
  ultimately have "LastPushSuccess ?g = Some False"
    by (simp add: LastPushSuccess_gauges)
  then show ?thesis by (simp add: store_simps keyOf_def [symmetric])
qed

theorem failure_after_rejected_push_witness:
  "\<exists>g. fmlookup (metricGroups (setPushFailedTimestamp prom_consts
        (fst (processWriteRequest prom_consts empty_store (push_of ''j'' 1583872347716605700 fmempty True)))
        (push_of ''j'' 1583872347716608700 fmempty False))) (groupingKeyFor prom_consts (job_labels ''j'')) = Some g
     \<and> LastPushSuccess g = Some False"
proof -
  let ?dms = "fst (processWriteRequest prom_consts empty_store (push_of ''j'' 1583872347716605700 fmempty True))"
  let ?wr = "push_of ''j'' 1583872347716608700 fmempty False"
  have "stored ?dms (groupingKeyFor prom_consts (wrLabels ?wr)) pushMetricName =
      Some (stamp 1583872347716605700 (newPushTimestampGauge prom_consts (job_labels ''j'') 1583872347716605700))"
    using stored_update [of "push_of ''j'' 1583872347716605700 fmempty True" fmempty prom_consts empty_store pushMetricName]
    by (simp add: keyOf_def update_lookups)
  from failure_after_rejected_push [OF this]
  show ?thesis by (simp add: unix_time_def recorded_def)
qed

text \<open>
  A pushed family \<open>push_failure_time_seconds\<close> without metrics makes \<open>LastPushSuccess\<close> panic
  (an index out of range), although its comment promises true in all other cases.
\<close>

lemma LastPushSuccess_panics:
  assumes "wrMetricFamilies wr = Some families" "fmlookup families pushFailedMetricName = Some mf" "mfMetric mf = []"
    and "stored dms (groupingKeyFor mc (wrLabels wr)) pushFailedMetricName \<noteq> None"
  shows "\<exists>g. fmlookup (metricGroups (fst (processWriteRequest mc dms wr))) (groupingKeyFor mc (wrLabels wr)) = Some g
    \<and> LastPushSuccess g = None"
proof -
  let ?g = "updatedGroup mc wr (groupOf mc dms wr) families"
  have "fmlookup (mgMetrics ?g) pushFailedMetricName = Some (stamp (wrTimestamp wr) mf)"
    using assms unfolding keyOf_def [symmetric] by (auto simp: update_lookups split: option.splits)
  moreover have "fmlookup (mgMetrics ?g) pushMetricName =
      Some (stamp (wrTimestamp wr) (newPushTimestampGauge mc (wrLabels wr) (wrTimestamp wr)))"
    by (simp add: update_lookups)
  ultimately have "LastPushSuccess ?g = None"
    using assms(3) by (simp add: LastPushSuccess_def familyOf_def stamp_def)
  then show ?thesis using assms(1) by (simp add: store_simps keyOf_def [symmetric])
qed

end
