(* ===== verification/Families.thy ===== *)
theory Families
  imports Storage
begin

text \<open>
  \<open>GetMetricFamilies\<close> and \<open>copyMetricFamily\<close> of storage/diskmetricstore.go: the families of all
  groups merged by name.  The code works on shared pointers and copies a family before it
  appends to it or replaces its help string.  There are two models: \<open>hGetMetricFamilies\<close> works
  on an explicit heap of family objects, as the code does, and \<open>GetMetricFamilies\<close> works on
  values.  The first refines the second and changes no object that existed before the call; the
  second computes \<open>mergedFamilies\<close>, which says in one line per name what the result is.
\<close>

section \<open>Ranging over the store\<close>

text \<open>
  The order in which the runtime visits the groups and, in each, the names; and the sequence of
  map entries that the two nested loops meet.
\<close>

type_synonym range_order = "(string \<times> string list) list"

definition ranged :: "GroupingKeyToMetricGroup \<Rightarrow> range_order \<Rightarrow> (string \<times> MetricFamily option) list" where
  "ranged groups order =
     concat (map (\<lambda>(key, names). map (\<lambda>name.
        (name, case fmlookup groups key of None \<Rightarrow> None | Some g \<Rightarrow> familyOf g name)) names) order)"

text \<open>Every key once, and under it every name once.\<close>

definition range_order_of :: "GroupingKeyToMetricGroup \<Rightarrow> range_order \<Rightarrow> bool" where
  "range_order_of groups order \<longleftrightarrow>
     distinct (map fst order) \<and> set (map fst order) = fmdom' groups \<and>
     list_all (\<lambda>(key, names). distinct names \<and>
       (case fmlookup groups key of None \<Rightarrow> True | Some g \<Rightarrow> set names = fmdom' (mgMetrics g))) order"

definition sortedOrder :: "GroupingKeyToMetricGroup \<Rightarrow> range_order" where
  "sortedOrder groups = map (\<lambda>key. (key, case fmlookup groups key of None \<Rightarrow> []
      | Some g \<Rightarrow> sortedKeys (mgMetrics g))) (sortedKeys groups)"

lemma sortedOrder_valid: "range_order_of groups (sortedOrder groups)"
  by (auto simp: range_order_of_def sortedOrder_def comp_def list_all_iff split: option.split)

section \<open>The loop on values\<close>

record mfStat =
  statPos :: nat
  statCopied :: bool

type_synonym gmf_state = "MetricFamily list \<times> (string, mfStat) fmap"

text \<open>
  One pass of the inner loop body.  A nil family is skipped.  On values, copying a family is
  the identity, so only the flag records it.
\<close>

definition gmfStep :: "(string, string) fmap \<Rightarrow> string \<times> MetricFamily option \<Rightarrow> gmf_state \<Rightarrow> gmf_state" where
  "gmfStep predefined entry st =
     (case (entry, st) of ((name, omf), (result, stats)) \<Rightarrow>
        (case omf of
           None \<Rightarrow> (result, stats)
         | Some mf \<Rightarrow>
             (case fmlookup stats name of
                Some stat \<Rightarrow>
                  let existing = result ! statPos stat;
                      stats' = (if \<not> statCopied stat
                        then fmupd name \<lparr>statPos = statPos stat, statCopied = True\<rparr> stats else stats)
                  in (result[statPos stat := existing\<lparr>mfMetric := mfMetric existing @ mfMetric mf\<rparr>], stats')
              | None \<Rightarrow>
                  let (mf', copied) = (case fmlookup predefined name of
                        Some help \<Rightarrow> if GetHelp mf \<noteq> help then (mf\<lparr>mfHelp := Some help\<rparr>, True) else (mf, False)
                      | None \<Rightarrow> (mf, False))
                  in (result @ [mf'], fmupd name \<lparr>statPos = length result, statCopied = copied\<rparr> stats))))"

definition GetMetricFamilies ::
  "(string, string) fmap \<Rightarrow> GroupingKeyToMetricGroup \<Rightarrow> range_order \<Rightarrow> MetricFamily list" where
  "GetMetricFamilies predefined groups order =
     fst (fold (gmfStep predefined) (ranged groups order) ([], fmempty))"

section \<open>The loop on shared objects\<close>

type_synonym heap = "(nat, MetricFamily) fmap"

text \<open>An object at an address; an unused address reads as an arbitrary but fixed family.\<close>

definition deref :: "heap \<Rightarrow> nat \<Rightarrow> MetricFamily" where
  "deref h p = (case fmlookup h p of Some mf \<Rightarrow> mf
     | None \<Rightarrow> \<lparr>mfName = None, mfHelp = None, mfType = None, mfMetric = []\<rparr>)"

text \<open>\<open>copyMetricFamily\<close> allocates a new object with the same contents and a new metric slice.\<close>

definition copyMetricFamily :: "heap \<Rightarrow> nat \<Rightarrow> nat \<Rightarrow> heap" where
  "copyMetricFamily h free p =
     (let mf = deref h p in
      fmupd free \<lparr>mfName = mfName mf, mfHelp = mfHelp mf, mfType = mfType mf, mfMetric = [] @ mfMetric mf\<rparr> h)"

record gmf_heap =
  ghHeap :: heap
  ghFree :: nat
  ghResult :: "nat list"
  ghStats :: "(string, mfStat) fmap"

definition hStep :: "(string, string) fmap \<Rightarrow> string \<times> nat option \<Rightarrow> gmf_heap \<Rightarrow> gmf_heap" where
  "hStep predefined entry s =
     (case entry of (name, omf) \<Rightarrow>
       (case omf of
          None \<Rightarrow> s
        | Some mf \<Rightarrow>
            (case fmlookup (ghStats s) name of
               Some stat \<Rightarrow>
                 let s1 = (if \<not> statCopied stat
                       then s\<lparr>ghStats := fmupd name \<lparr>statPos = statPos stat, statCopied = True\<rparr> (ghStats s),
                              ghHeap := copyMetricFamily (ghHeap s) (ghFree s) (ghResult s ! statPos stat),
                              ghFree := Suc (ghFree s),
                              ghResult := (ghResult s)[statPos stat := ghFree s]\<rparr>
                       else s);
                     existing = ghResult s1 ! statPos stat;
                     old = deref (ghHeap s1) existing
                 in s1\<lparr>ghHeap := fmupd existing (old\<lparr>mfMetric := mfMetric old @ mfMetric (deref (ghHeap s1) mf)\<rparr>) (ghHeap s1)\<rparr>
             | None \<Rightarrow>
                 let rewrite = (case fmlookup predefined name of
                       Some help \<Rightarrow> if GetHelp (deref (ghHeap s) mf) \<noteq> help then Some help else None
                     | None \<Rightarrow> None)
                 in (case rewrite of
                       Some help \<Rightarrow>
                         let h = copyMetricFamily (ghHeap s) (ghFree s) mf
                         in s\<lparr>ghHeap := fmupd (ghFree s) ((deref h (ghFree s))\<lparr>mfHelp := Some help\<rparr>) h,
                              ghFree := Suc (ghFree s),
                              ghStats := fmupd name \<lparr>statPos = length (ghResult s), statCopied = True\<rparr> (ghStats s),
                              ghResult := ghResult s @ [ghFree s]\<rparr>
                     | None \<Rightarrow>
                         s\<lparr>ghStats := fmupd name \<lparr>statPos = length (ghResult s), statCopied = False\<rparr> (ghStats s),
                           ghResult := ghResult s @ [mf]\<rparr>))))"

definition hGetMetricFamilies ::
  "(string, string) fmap \<Rightarrow> heap \<Rightarrow> nat \<Rightarrow> (string \<times> nat option) list \<Rightarrow> gmf_heap" where
  "hGetMetricFamilies predefined h free entries =
     fold (hStep predefined) entries \<lparr>ghHeap = h, ghFree = free, ghResult = [], ghStats = fmempty\<rparr>"

section \<open>The heap version refines the value version\<close>

text \<open>
  The simulation relation.  Objects below \<open>base\<close> existed before the call.  A family of the
  result that counts as copied is a new object that occurs in the result once.
\<close>

definition gmf_rel :: "heap \<Rightarrow> nat \<Rightarrow> gmf_heap \<Rightarrow> gmf_state \<Rightarrow> bool" where
  "gmf_rel h0 base s v \<longleftrightarrow>
     map (deref (ghHeap s)) (ghResult s) = fst v \<and> ghStats s = snd v \<and> base \<le> ghFree s \<and>
     (\<forall>p < base. fmlookup (ghHeap s) p = fmlookup h0 p) \<and>
     (\<forall>p \<in> set (ghResult s). p < ghFree s) \<and>
     (\<forall>i j. i < length (ghResult s) \<longrightarrow> j < length (ghResult s) \<longrightarrow> i \<noteq> j \<longrightarrow>
        base \<le> ghResult s ! i \<longrightarrow> ghResult s ! i \<noteq> ghResult s ! j) \<and>
     (\<forall>n st. fmlookup (ghStats s) n = Some st \<longrightarrow> statPos st < length (ghResult s) \<and>
        (statCopied st \<longrightarrow> base \<le> ghResult s ! statPos st))"

definition entryVal :: "heap \<Rightarrow> string \<times> nat option \<Rightarrow> string \<times> MetricFamily option" where
  "entryVal h e = (fst e, map_option (deref h) (snd e))"

definition entry_old :: "nat \<Rightarrow> string \<times> nat option \<Rightarrow> bool" where
  "entry_old base e = (case snd e of None \<Rightarrow> True | Some p \<Rightarrow> p < base)"

lemma deref_upd: "deref (fmupd p mf h) q = (if q = p then mf else deref h q)"
  by (simp add: deref_def)

lemma deref_copy: "deref (copyMetricFamily h free p) q = (if q = free then deref h p else deref h q)"
  by (simp add: copyMetricFamily_def Let_def deref_upd)

lemma copy_lookup: "q \<noteq> free \<Longrightarrow> fmlookup (copyMetricFamily h free p) q = fmlookup h q"
  by (simp add: copyMetricFamily_def Let_def)

lemma deref_cong: "fmlookup h p = fmlookup h' p \<Longrightarrow> deref h p = deref h' p"
  by (simp add: deref_def)

lemma map_deref_upd:
  assumes "i < length ps" "\<And>j. j < length ps \<Longrightarrow> j \<noteq> i \<Longrightarrow> ps ! j \<noteq> ps ! i"
  shows "map (deref (fmupd (ps ! i) mf h)) ps = (map (deref h) ps)[i := mf]"
  using assms by (intro nth_equalityI) (auto simp: deref_upd nth_list_update)

lemma gmf_relD:
  assumes "gmf_rel h0 base s v"
  shows "map (deref (ghHeap s)) (ghResult s) = fst v" "ghStats s = snd v" "base \<le> ghFree s"
    "\<And>p. p < base \<Longrightarrow> fmlookup (ghHeap s) p = fmlookup h0 p"
    "\<And>p. p \<in> set (ghResult s) \<Longrightarrow> p < ghFree s"
    "\<And>i j. i < length (ghResult s) \<Longrightarrow> j < length (ghResult s) \<Longrightarrow> i \<noteq> j \<Longrightarrow>
        base \<le> ghResult s ! i \<Longrightarrow> ghResult s ! i \<noteq> ghResult s ! j"
    "\<And>n st. fmlookup (ghStats s) n = Some st \<Longrightarrow> statPos st < length (ghResult s)"
    "\<And>n st. fmlookup (ghStats s) n = Some st \<Longrightarrow> statCopied st \<Longrightarrow> base \<le> ghResult s ! statPos st"
  using assms unfolding gmf_rel_def by blast+

text \<open>Appending to the metrics of a copied family.\<close>

lemma rel_append:
  assumes rel: "gmf_rel h0 base s (vs, stats)" and stat: "fmlookup stats name = Some stat" "statCopied stat"
  shows "gmf_rel h0 base
    (s\<lparr>ghHeap := fmupd (ghResult s ! statPos stat) (f (deref (ghHeap s) (ghResult s ! statPos stat))) (ghHeap s)\<rparr>)
    (vs[statPos stat := f (vs ! statPos stat)], stats)"
proof -
  let ?i = "statPos stat" and ?p = "ghResult s ! statPos stat"
  note r = gmf_relD [OF rel]
  have st: "fmlookup (ghStats s) name = Some stat" using stat(1) r(2) by simp
  have i: "?i < length (ghResult s)" and p: "base \<le> ?p"
    using r(7,8) [OF st] stat(2) by auto
  have "map (deref (fmupd ?p mf (ghHeap s))) (ghResult s) = (map (deref (ghHeap s)) (ghResult s))[?i := mf]" for mf
    using i p r(6) by (intro map_deref_upd) metis+
  moreover have "deref (ghHeap s) ?p = vs ! ?i"
    using i r(1) by (metis fst_conv nth_map)
  moreover have "\<not> ?p < base" using p by simp
  ultimately show ?thesis
    using r(1-4) rel by (simp add: gmf_rel_def)
qed

text \<open>Copying the family of a result position that is not copied yet.\<close>

lemma rel_copy:
  assumes rel: "gmf_rel h0 base s (vs, stats)" and stat: "fmlookup stats name = Some stat"
  shows "gmf_rel h0 base
    (s\<lparr>ghStats := fmupd name \<lparr>statPos = statPos stat, statCopied = True\<rparr> (ghStats s),
       ghHeap := copyMetricFamily (ghHeap s) (ghFree s) (ghResult s ! statPos stat),
       ghFree := Suc (ghFree s),
       ghResult := (ghResult s)[statPos stat := ghFree s]\<rparr>)
    (vs, fmupd name \<lparr>statPos = statPos stat, statCopied = True\<rparr> stats)"
proof -
  let ?i = "statPos stat" and ?r = "ghResult s" and ?free = "ghFree s"
  note r = gmf_relD [OF rel]
  have i: "?i < length ?r" using r(2,7) stat by fastforce
  have old: "j < length ?r \<Longrightarrow> ?r ! j < ?free" for j using r(5) by simp
  have "map (deref (copyMetricFamily (ghHeap s) ?free (?r ! ?i))) (?r[?i := ?free]) = map (deref (ghHeap s)) ?r"
    using i old by (intro nth_equalityI) (auto simp: deref_copy nth_list_update dest: less_imp_neq)
  moreover have "p \<in> set (?r[?i := ?free]) \<Longrightarrow> p < Suc ?free" for p
    using r(5) set_update_subset_insert [of ?r ?i ?free] by (auto simp: less_Suc_eq)
  moreover have "?r[?i := ?free] ! j \<noteq> ?r[?i := ?free] ! k"
    if "j < length ?r" "k < length ?r" "j \<noteq> k" "base \<le> ?r[?i := ?free] ! j" for j k
    using that i r(6) [of j k] old [of j] old [of k] by (auto simp: nth_list_update split: if_splits)
  moreover have "base \<le> ?r[?i := ?free] ! statPos st" if "fmlookup (ghStats s) n = Some st" "statCopied st" for n st
    using that i r(3,7,8) by (auto simp: nth_list_update)
  moreover have "fmlookup (copyMetricFamily (ghHeap s) ?free (?r ! ?i)) p = fmlookup h0 p" if "p < base" for p
    using that r(3,4) copy_lookup [of p ?free] by simp
  ultimately show ?thesis
    using r(1-3) r(7) i by (auto simp: gmf_rel_def)
qed

text \<open>A new name: its family enters the result, old or freshly made.\<close>

lemma rel_enter:
  assumes rel: "gmf_rel h0 base s (vs, stats)"
    and heap: "\<And>q. q \<noteq> ghFree s \<Longrightarrow> fmlookup h' q = fmlookup (ghHeap s) q"
    and p: "p < base \<and> \<not> copied \<or> p = ghFree s" and free: "ghFree s \<le> free'" "p < free'"
  shows "gmf_rel h0 base
    (s\<lparr>ghHeap := h', ghFree := free',
       ghStats := fmupd name \<lparr>statPos = length (ghResult s), statCopied = copied\<rparr> (ghStats s),
       ghResult := ghResult s @ [p]\<rparr>)
    (vs @ [deref h' p], fmupd name \<lparr>statPos = length vs, statCopied = copied\<rparr> stats)"
proof -
  note r = gmf_relD [OF rel]
  have old: "q \<in> set (ghResult s) \<Longrightarrow> q \<noteq> ghFree s" for q using r(5) by blast
  have keep: "deref h' q = deref (ghHeap s) q" if "q \<in> set (ghResult s)" for q
    using heap [OF old [OF that]] by (rule deref_cong)
  have nth: "i < length (ghResult s) \<Longrightarrow> ghResult s ! i \<noteq> ghFree s" for i using old by simp
  have len: "length vs = length (ghResult s)" using r(1) by (metis fst_conv length_map)
  have "map (deref h') (ghResult s) = vs" using keep r(1) by (simp cong: map_cong)
  moreover have "(ghResult s @ [p]) ! i \<noteq> (ghResult s @ [p]) ! j"
    if "i < Suc (length (ghResult s))" "j < Suc (length (ghResult s))" "i \<noteq> j" "base \<le> (ghResult s @ [p]) ! i" for i j
    using that p r(6) [of i j] nth [of i] nth [of j] by (auto simp: nth_append less_Suc_eq)
  moreover have "q < base \<Longrightarrow> fmlookup h' q = fmlookup h0 q" for q
    using heap [of q] r(3,4) by (simp add: less_le_trans less_imp_neq)
  moreover have "q \<in> set (ghResult s) \<Longrightarrow> q < free'" for q
    using r(5) free(1) by (meson less_le_trans)
  ultimately show ?thesis
    using r(2,3,7,8) p free len by (auto simp: gmf_rel_def nth_append less_Suc_eq)
qed

lemma hStep_rel_known:
  assumes rel: "gmf_rel h0 base s (vs, stats)" and p: "p < base" and Some: "fmlookup stats name = Some stat"
  shows "gmf_rel h0 base (hStep pre (name, Some p) s) (gmfStep pre (entryVal h0 (name, Some p)) (vs, stats))"
proof -
  note r = gmf_relD [OF rel]
  have mf: "deref (ghHeap s) p = deref h0 p" using r(4) [OF p] by (rule deref_cong)
  define add where "(add :: MetricFamily \<Rightarrow> MetricFamily) = (\<lambda>x. x\<lparr>mfMetric := mfMetric x @ mfMetric (deref h0 p)\<rparr>)"
  show ?thesis
  proof (cases "statCopied stat")
    case True
    from rel_append [OF rel Some True, of add] show ?thesis
      using Some True r(2) by (simp add: hStep_def gmfStep_def entryVal_def mf add_def Let_def)
  next
    case False
    let ?stat = "\<lparr>statPos = statPos stat, statCopied = True\<rparr>"
    have "deref (copyMetricFamily (ghHeap s) (ghFree s) (ghResult s ! statPos stat)) p = deref h0 p"
      using p r(3) by (simp add: deref_copy mf)
    with rel_append [OF rel_copy [OF rel Some], of name ?stat add] show ?thesis
      using Some False r(2) by (simp add: hStep_def gmfStep_def entryVal_def add_def Let_def)
  qed
qed

lemma hStep_rel_new:
  assumes rel: "gmf_rel h0 base s (vs, stats)" and p: "p < base" and None: "fmlookup stats name = None"
  shows "gmf_rel h0 base (hStep pre (name, Some p) s) (gmfStep pre (entryVal h0 (name, Some p)) (vs, stats))"
proof -
  note r = gmf_relD [OF rel]
  have mf: "deref (ghHeap s) p = deref h0 p" using r(4) [OF p] by (rule deref_cong)
  show ?thesis
  proof (cases "\<exists>help. fmlookup pre name = Some help \<and> GetHelp (deref h0 p) \<noteq> help")
    case True
    then obtain std where std: "fmlookup pre name = Some std" "GetHelp (deref h0 p) \<noteq> std" by blast
    let ?h = "copyMetricFamily (ghHeap s) (ghFree s) p"
    let ?h' = "fmupd (ghFree s) ((deref ?h (ghFree s))\<lparr>mfHelp := Some std\<rparr>) ?h"
    have "gmf_rel h0 base (s\<lparr>ghHeap := ?h', ghFree := Suc (ghFree s),
        ghStats := fmupd name \<lparr>statPos = length (ghResult s), statCopied = True\<rparr> (ghStats s),
        ghResult := ghResult s @ [ghFree s]\<rparr>)
      (vs @ [deref ?h' (ghFree s)], fmupd name \<lparr>statPos = length vs, statCopied = True\<rparr> stats)"
      by (rule rel_enter [OF rel]) (simp_all add: copy_lookup)
    then show ?thesis
      using None std r(2) by (simp add: hStep_def gmfStep_def entryVal_def mf deref_upd deref_copy Let_def)
  next
    case False
    have "gmf_rel h0 base (s\<lparr>ghHeap := ghHeap s, ghFree := ghFree s,
        ghStats := fmupd name \<lparr>statPos = length (ghResult s), statCopied = False\<rparr> (ghStats s),
        ghResult := ghResult s @ [p]\<rparr>)
      (vs @ [deref (ghHeap s) p], fmupd name \<lparr>statPos = length vs, statCopied = False\<rparr> stats)"
      using p r(3) by (intro rel_enter [OF rel]) simp_all
    moreover have "(case fmlookup pre name of Some help \<Rightarrow> if GetHelp (deref (ghHeap s) p) \<noteq> help then Some help else None
        | None \<Rightarrow> None) = None" using False mf by (auto split: option.split)
    moreover have "(case fmlookup pre name of
          Some help \<Rightarrow> if GetHelp (deref h0 p) \<noteq> help then ((deref h0 p)\<lparr>mfHelp := Some help\<rparr>, True) else (deref h0 p, False)
        | None \<Rightarrow> (deref h0 p, False)) = (deref h0 p, False)" using False by (simp split: option.split)
    ultimately show ?thesis
      using None r(2) by (simp add: hStep_def gmfStep_def entryVal_def mf Let_def)
  qed
qed

lemma hStep_rel:
  assumes rel: "gmf_rel h0 base s v" and old: "entry_old base e"
  shows "gmf_rel h0 base (hStep pre e s) (gmfStep pre (entryVal h0 e) v)"
proof (cases "snd e")
  case None
  then show ?thesis using rel by (cases e; cases v) (simp add: hStep_def gmfStep_def entryVal_def)
next
  case (Some p)
  obtain name vs stats where e: "e = (name, Some p)" and v: "v = (vs, stats)"
    using Some by (cases e; cases v) auto
  have p: "p < base" using old Some by (simp add: entry_old_def)
  show ?thesis
    using hStep_rel_known [OF rel [unfolded v] p] hStep_rel_new [OF rel [unfolded v] p]
    unfolding e v by (cases "fmlookup stats name") simp_all
qed

lemma hGetMetricFamilies_rel:
  assumes "list_all (entry_old base) entries"
  shows "gmf_rel h base (hGetMetricFamilies pre h base entries)
    (fold (gmfStep pre) (map (entryVal h) entries) ([], fmempty))"
proof -
  have "gmf_rel h base s v \<Longrightarrow> list_all (entry_old base) es \<Longrightarrow>
      gmf_rel h base (fold (hStep pre) es s) (fold (gmfStep pre) (map (entryVal h) es) v)" for es s v
    by (induction es arbitrary: s v) (simp_all add: hStep_rel)
  moreover have "gmf_rel h base \<lparr>ghHeap = h, ghFree = base, ghResult = [], ghStats = fmempty\<rparr> ([], fmempty)"
    by (simp add: gmf_rel_def)
  ultimately show ?thesis using assms unfolding hGetMetricFamilies_def by blast
qed

section \<open>What the merge computes\<close>

text \<open>The elements of a list in the order of their first occurrence.\<close>

definition firsts :: "'a list \<Rightarrow> 'a list" where
  "firsts xs = rev (remdups (rev xs))"

lemma firsts_Nil [simp]: "firsts [] = []"
  by (simp add: firsts_def)

lemma firsts_snoc: "firsts (xs @ [x]) = (if x \<in> set xs then firsts xs else firsts xs @ [x])"
  by (simp add: firsts_def)

lemma firsts_set_distinct [simp]: "set (firsts xs) = set xs" "distinct (firsts xs)"
  by (simp_all add: firsts_def)

text \<open>The families of one name, in the order in which they are met; nil entries do not count.\<close>

fun familiesNamed :: "string \<Rightarrow> (string \<times> MetricFamily option) list \<Rightarrow> MetricFamily list" where
  "familiesNamed n [] = []"
| "familiesNamed n ((name, None) # es) = familiesNamed n es"
| "familiesNamed n ((name, Some mf) # es) = (if name = n then mf # familiesNamed n es else familiesNamed n es)"

definition presentNames :: "(string \<times> MetricFamily option) list \<Rightarrow> string list" where
  "presentNames es = map fst (filter (\<lambda>e. snd e \<noteq> None) es)"

text \<open>The merged family: header of the first, standard help string, metrics of all.\<close>

definition fixHelp :: "(string, string) fmap \<Rightarrow> string \<Rightarrow> MetricFamily \<Rightarrow> MetricFamily" where
  "fixHelp predefined name mf = (case fmlookup predefined name of
     Some help \<Rightarrow> if GetHelp mf \<noteq> help then mf\<lparr>mfHelp := Some help\<rparr> else mf | None \<Rightarrow> mf)"

definition mergedFamily :: "(string, string) fmap \<Rightarrow> (string \<times> MetricFamily option) list \<Rightarrow> string \<Rightarrow> MetricFamily" where
  "mergedFamily predefined es n =
     (fixHelp predefined n (hd (familiesNamed n es)))\<lparr>mfMetric := concat (map mfMetric (familiesNamed n es))\<rparr>"

definition mergedFamilies :: "(string, string) fmap \<Rightarrow> (string \<times> MetricFamily option) list \<Rightarrow> MetricFamily list" where
  "mergedFamilies predefined es = map (mergedFamily predefined es) (firsts (presentNames es))"

lemma familiesNamed_snoc:
  "familiesNamed n (es @ [(name, omf)]) =
     familiesNamed n es @ (if name = n then (case omf of None \<Rightarrow> [] | Some mf \<Rightarrow> [mf]) else [])"
  by (induction n es rule: familiesNamed.induct) (cases omf; simp)+

lemma familiesNamed_Nil_iff: "familiesNamed n es = [] \<longleftrightarrow> n \<notin> set (presentNames es)"
  by (induction n es rule: familiesNamed.induct) (auto simp: presentNames_def)

lemma presentNames_snoc:
  "presentNames (es @ [(name, omf)]) = presentNames es @ (case omf of None \<Rightarrow> [] | Some mf \<Rightarrow> [name])"
  by (simp add: presentNames_def split: option.split)

lemma fixHelp_metrics [simp]: "mfMetric (fixHelp pre n mf) = mfMetric mf"
  by (simp add: fixHelp_def split: option.split)

lemma mergedFamily_other: "name \<noteq> n \<Longrightarrow> mergedFamily pre (es @ [(name, omf)]) n = mergedFamily pre es n"
  by (simp add: mergedFamily_def familiesNamed_snoc)

lemma mergedFamily_nil: "mergedFamily pre (es @ [(name, None)]) n = mergedFamily pre es n"
  by (cases "name = n") (simp_all add: mergedFamily_def familiesNamed_snoc)

lemma mergedFamily_more:
  "name \<in> set (presentNames es) \<Longrightarrow>
   mergedFamily pre (es @ [(name, Some mf)]) name =
     (mergedFamily pre es name)\<lparr>mfMetric := mfMetric (mergedFamily pre es name) @ mfMetric mf\<rparr>"
  by (simp add: mergedFamily_def familiesNamed_snoc familiesNamed_Nil_iff hd_append)

lemma mergedFamily_new:
  "name \<notin> set (presentNames es) \<Longrightarrow> mergedFamily pre (es @ [(name, Some mf)]) name = fixHelp pre name mf"
  by (simp add: mergedFamily_def familiesNamed_snoc familiesNamed_Nil_iff [THEN iffD2] fixHelp_def split: option.split)

text \<open>The loop invariant: the result is the merge of what was met, at the positions of the stats.\<close>

definition pos_inv :: "(string, mfStat) fmap \<Rightarrow> string list \<Rightarrow> bool" where
  "pos_inv stats ns \<longleftrightarrow>
     (\<forall>n stat. fmlookup stats n = Some stat \<longrightarrow> statPos stat < length ns \<and> ns ! statPos stat = n) \<and>
     (\<forall>n \<in> set ns. fmlookup stats n \<noteq> None)"

lemma pos_inv_new:
  "pos_inv stats ns \<Longrightarrow> n \<notin> set ns \<Longrightarrow> pos_inv (fmupd n \<lparr>statPos = length ns, statCopied = c\<rparr> stats) (ns @ [n])"
  by (fastforce simp: pos_inv_def nth_append less_Suc_eq split: if_splits)

lemma pos_inv_old:
  "pos_inv stats ns \<Longrightarrow> fmlookup stats n = Some stat \<Longrightarrow>
   pos_inv (fmupd n \<lparr>statPos = statPos stat, statCopied = c\<rparr> stats) ns"
  by (auto simp: pos_inv_def split: if_splits)

definition gmf_inv :: "(string, string) fmap \<Rightarrow> (string \<times> MetricFamily option) list \<Rightarrow> gmf_state \<Rightarrow> bool" where
  "gmf_inv pre es st \<longleftrightarrow> fst st = mergedFamilies pre es \<and> pos_inv (snd st) (firsts (presentNames es))"

lemma map_update_distinct:
  assumes "distinct xs" "i < length xs" "\<And>x. x \<in> set xs \<Longrightarrow> x \<noteq> xs ! i \<Longrightarrow> g x = f x"
  shows "map g xs = (map f xs)[i := g (xs ! i)]"
  using assms by (intro nth_equalityI) (auto simp: nth_list_update nth_eq_iff_index_eq)

lemma gmfStep_inv:
  assumes inv: "gmf_inv pre es st"
  shows "gmf_inv pre (es @ [e]) (gmfStep pre e st)"
proof -
  obtain name omf result stats where e: "e = (name, omf)" and st: "st = (result, stats)"
    by (cases e; cases st) auto
  let ?ns = "firsts (presentNames es)"
  have res: "result = map (mergedFamily pre es) ?ns" and pos: "pos_inv stats ?ns"
    using inv by (simp_all add: gmf_inv_def st mergedFamilies_def)
  show ?thesis
  proof (cases omf)
    case None
    then show ?thesis using inv
      by (simp add: e st gmfStep_def gmf_inv_def mergedFamilies_def mergedFamily_nil presentNames_snoc)
  next
    case (Some mf)
    show ?thesis
    proof (cases "fmlookup stats name")
      case None
      then have new: "name \<notin> set (presentNames es)" using pos by (auto simp: pos_inv_def)
      obtain c where step: "gmfStep pre e st =
          (result @ [fixHelp pre name mf], fmupd name \<lparr>statPos = length result, statCopied = c\<rparr> stats)"
        by (cases "fmlookup pre name"; cases "GetHelp mf = the (fmlookup pre name)")
          (auto simp: e st Some None gmfStep_def fixHelp_def)
      have "map (mergedFamily pre (es @ [e])) ?ns = result"
        using new by (auto simp: res e Some intro!: mergedFamily_other)
      moreover have "pos_inv (snd (gmfStep pre e st)) (?ns @ [name])"
        using pos_inv_new [OF pos, of name c] new by (simp add: step res)
      ultimately show ?thesis
        using new by (simp add: gmf_inv_def mergedFamilies_def presentNames_snoc firsts_snoc e Some mergedFamily_new step [unfolded e Some])
    next
      case stat: (Some stat)
      then have at: "statPos stat < length ?ns" "?ns ! statPos stat = name" using pos by (simp_all add: pos_inv_def)
      then have old: "name \<in> set (presentNames es)" by (metis firsts_set_distinct(1) nth_mem)
      have "map (mergedFamily pre (es @ [e])) ?ns =
          (map (mergedFamily pre es) ?ns)[statPos stat := mergedFamily pre (es @ [e]) name]"
        using at by (subst map_update_distinct [where i = "statPos stat" and f = "mergedFamily pre es"])
          (auto simp: e intro!: mergedFamily_other)
      then have "fst (gmfStep pre e st) = map (mergedFamily pre (es @ [e])) ?ns"
        using at old by (simp add: e st Some stat gmfStep_def Let_def res mergedFamily_more)
      moreover have "pos_inv (snd (gmfStep pre e st)) ?ns"
        using pos pos_inv_old [OF pos stat] by (simp add: e st Some stat gmfStep_def Let_def)
      ultimately show ?thesis
        using old by (simp add: gmf_inv_def mergedFamilies_def presentNames_snoc firsts_snoc e Some)
    qed
  qed
qed

lemma GetMetricFamilies_merged:
  "GetMetricFamilies pre groups order = mergedFamilies pre (ranged groups order)"
proof -
  have "gmf_inv pre es (fold (gmfStep pre) es ([], fmempty))" for es
  proof (induction es rule: rev_induct)
    case Nil
    show ?case by (simp add: gmf_inv_def mergedFamilies_def presentNames_def pos_inv_def)
  next
    case (snoc e es)
    then show ?case by (simp add: gmfStep_inv)
  qed
  then show ?thesis by (simp add: GetMetricFamilies_def gmf_inv_def)
qed

section \<open>No order can be told from the metrics\<close>

definition visited :: "range_order \<Rightarrow> (string \<times> string) list" where
  "visited order = concat (map (\<lambda>(key, names). map (Pair key) names) order)"

definition entryAt :: "GroupingKeyToMetricGroup \<Rightarrow> string \<times> string \<Rightarrow> string \<times> MetricFamily option" where
  "entryAt groups kn = (case kn of (key, n) \<Rightarrow>
     (n, case fmlookup groups key of None \<Rightarrow> None | Some g \<Rightarrow> familyOf g n))"

lemma ranged_visited: "ranged groups order = map (entryAt groups) (visited order)"
  by (simp add: ranged_def visited_def map_concat comp_def entryAt_def case_prod_unfold cong: option.case_cong)

definition allKeys :: "GroupingKeyToMetricGroup \<Rightarrow> (string \<times> string) set" where
  "allKeys groups = {(key, n). \<exists>g. fmlookup groups key = Some g \<and> n \<in> fmdom' (mgMetrics g)}"

lemma set_visited: "set (visited order) = {(key, n). \<exists>names. (key, names) \<in> set order \<and> n \<in> set names}"
  by (auto simp: visited_def)

lemma distinct_visited:
  "distinct (map fst order) \<Longrightarrow> list_all (\<lambda>(key, names). distinct names) order \<Longrightarrow> distinct (visited order)"
proof (induction order)
  case (Cons kn order)
  obtain key names where kn: "kn = (key, names)" by (cases kn)
  have "key \<notin> fst ` set (visited order)"
    using Cons.prems(1) by (force simp: kn set_visited)
  then have "set (map (Pair key) names) \<inter> set (visited order) = {}" by force
  moreover have "visited (kn # order) = map (Pair key) names @ visited order" by (simp add: visited_def kn)
  ultimately show ?case
    using Cons by (simp add: kn distinct_map inj_on_def)
qed (simp add: visited_def)

lemma valid_order_visited:
  assumes "range_order_of groups order"
  shows "distinct (visited order)" "set (visited order) = allKeys groups"
proof -
  have ord: "distinct (map fst order)" "set (map fst order) = fmdom' groups"
    "list_all (\<lambda>(key, names). distinct names) order"
    and names: "\<And>key names g. (key, names) \<in> set order \<Longrightarrow> fmlookup groups key = Some g \<Longrightarrow> set names = fmdom' (mgMetrics g)"
    using assms by (fastforce simp: range_order_of_def list_all_iff)+
  show "distinct (visited order)" using ord(1,3) by (rule distinct_visited)
  show "set (visited order) = allKeys groups"
  proof (intro set_eqI iffI)
    fix kn assume "kn \<in> set (visited order)"
    then obtain key n ns where kn: "kn = (key, n)" "(key, ns) \<in> set order" "n \<in> set ns"
      by (auto simp: set_visited)
    then obtain g where "fmlookup groups key = Some g"
      using ord(2) by (metis fmdom'_iff_Some fst_conv imageI set_map)
    then show "kn \<in> allKeys groups" using kn names by (auto simp: allKeys_def)
  next
    fix kn assume "kn \<in> allKeys groups"
    then obtain key n g where kn: "kn = (key, n)" "fmlookup groups key = Some g" "n \<in> fmdom' (mgMetrics g)"
      by (auto simp: allKeys_def)
    then obtain ns where "(key, ns) \<in> set order"
      using ord(2) by (metis (no_types, lifting) fmdom'_iff_Some imageE prod.collapse set_map)
    then show "kn \<in> set (visited order)" using kn names by (auto simp: set_visited)
  qed
qed

lemma ranged_mset:
  assumes "range_order_of groups o1" "range_order_of groups o2"
  shows "mset (ranged groups o1) = mset (ranged groups o2)"
proof -
  have "mset (visited o1) = mset (visited o2)"
    using valid_order_visited [OF assms(1)] valid_order_visited [OF assms(2)]
    by (intro iffD1 [OF set_eq_iff_mset_eq_distinct]) simp_all
  then show ?thesis by (simp add: ranged_visited)
qed

text \<open>All metrics of a sequence of map entries.\<close>

definition entryMetrics :: "string \<times> MetricFamily option \<Rightarrow> Metric list" where
  "entryMetrics e = (case snd e of None \<Rightarrow> [] | Some mf \<Rightarrow> mfMetric mf)"

lemma metrics_by_name:
  assumes "finite N" "set (presentNames es) \<subseteq> N"
  shows "(\<Sum>n \<in> N. mset (concat (map mfMetric (familiesNamed n es)))) = mset (concat (map entryMetrics es))"
  using assms(2)
proof (induction es)
  case Nil
  show ?case by simp
next
  case (Cons e es)
  obtain name omf where e: "e = (name, omf)" by (cases e)
  show ?case
  proof (cases omf)
    case None
    then show ?thesis using Cons by (simp add: e entryMetrics_def presentNames_def)
  next
    case (Some mf)
    have "mset (concat (map mfMetric (familiesNamed n (e # es)))) =
        (if n = name then mset (mfMetric mf) else {#}) + mset (concat (map mfMetric (familiesNamed n es)))" for n
      by (simp add: e Some)
    then have "(\<Sum>n \<in> N. mset (concat (map mfMetric (familiesNamed n (e # es))))) =
        (\<Sum>n \<in> N. if n = name then mset (mfMetric mf) else {#}) + mset (concat (map entryMetrics es))"
      using Cons by (simp only: sum.distrib) (simp add: presentNames_def e Some)
    moreover have "name \<in> N" using Cons.prems by (simp add: presentNames_def e Some)
    moreover have "entryMetrics e = mfMetric mf" by (simp add: e Some entryMetrics_def)
    ultimately show ?thesis using assms(1) by (simp del: familiesNamed.simps)
  qed
qed

lemma merged_metrics: "mset (concat (map mfMetric (mergedFamilies pre es))) = mset (concat (map entryMetrics es))"
proof -
  have "mset (concat (map f ns)) = (\<Sum>n \<in> set ns. mset (f n))" if "distinct ns" for f :: "string \<Rightarrow> Metric list" and ns
    using that by (induction ns) simp_all
  from this [of "firsts (presentNames es)" "\<lambda>n. mfMetric (mergedFamily pre es n)"]
  show ?thesis
    using metrics_by_name [of "set (presentNames es)" es] by (simp add: mergedFamilies_def mergedFamily_def comp_def)
qed

section \<open>Properties\<close>

text \<open>
  C12. \<open>GetMetricFamilies\<close> on shared objects changes no object that existed before the call, in
  particular no family of the store, and the objects it returns hold what the version on values
  computes.
\<close>

theorem GetMetricFamilies_never_mutates:
  assumes "list_all (entry_old base) entries" "map (entryVal h) entries = ranged groups order"
  shows "(\<forall>p \<in> {..<base}. fmlookup (ghHeap (hGetMetricFamilies pre h base entries)) p = fmlookup h p) \<and>
    map (deref (ghHeap (hGetMetricFamilies pre h base entries))) (ghResult (hGetMetricFamilies pre h base entries))
      = GetMetricFamilies pre groups order"
  using gmf_relD(1,4) [OF hGetMetricFamilies_rel [OF assms(1)]] assms(2)
  by (simp add: GetMetricFamilies_def)

theorem GetMetricFamilies_never_mutates_witness:
  "let mf = \<lparr>mfName = Some ''m'', mfHelp = None, mfType = None, mfMetric = [gaugeMetric (F64 1 0)]\<rparr>;
       g = \<lparr>mgLabels = fmempty, mgMetrics = fmupd ''m'' (stamp 0 mf) fmempty\<rparr>;
       groups = fmupd ''a'' g (fmupd ''b'' g fmempty);
       s = hGetMetricFamilies fmempty (fmupd 0 mf fmempty) 1 [(''m'', Some 0), (''m'', Some 0)]
   in fmlookup (ghHeap s) 0 = Some mf \<and>
      map (deref (ghHeap s)) (ghResult s) = GetMetricFamilies fmempty groups [(''a'', [''m'']), (''b'', [''m''])]"
  unfolding Let_def
proof -
  let ?mf = "\<lparr>mfName = Some ''m'', mfHelp = None, mfType = None, mfMetric = [gaugeMetric (F64 1 0)]\<rparr> :: MetricFamily"
  let ?h = "fmupd 0 ?mf fmempty :: heap"
  let ?g = "\<lparr>mgLabels = fmempty, mgMetrics = fmupd ''m'' (stamp 0 ?mf) fmempty\<rparr>"
  let ?groups = "fmupd ''a'' ?g (fmupd ''b'' ?g fmempty)"
  let ?entries = "[(''m'', Some 0), (''m'', Some (0::nat))]"
  let ?s = "hGetMetricFamilies fmempty ?h 1 ?entries"
  have "list_all (entry_old 1) ?entries" by (simp add: entry_old_def)
  moreover have "map (entryVal ?h) ?entries = ranged ?groups [(''a'', [''m'']), (''b'', [''m''])]"
    by (simp add: entryVal_def deref_def ranged_def familyOf_def stamp_def)
  ultimately have "(\<forall>p \<in> {..<1}. fmlookup (ghHeap ?s) p = fmlookup ?h p) \<and>
      map (deref (ghHeap ?s)) (ghResult ?s) = GetMetricFamilies fmempty ?groups [(''a'', [''m'']), (''b'', [''m''])]"
    by (rule GetMetricFamilies_never_mutates)
  moreover have "0 \<in> {..<(1 :: nat)}" "fmlookup ?h 0 = Some ?mf" by simp_all
  ultimately show "fmlookup (ghHeap ?s) 0 = Some ?mf \<and>
      map (deref (ghHeap ?s)) (ghResult ?s) = GetMetricFamilies fmempty ?groups [(''a'', [''m'']), (''b'', [''m''])]"
    by metis
qed

text \<open>
  C13. The result has one family for each name that has a non-nil family in some group, in the
  order of first occurrence: with name and type of the first family met, the predefined help
  string where there is one (otherwise the first help string), and the metrics of all families of that
  name.
\<close>

theorem GetMetricFamilies_one_per_name:
  "GetMetricFamilies predefined groups order =
     map (\<lambda>n. (fixHelp predefined n (hd (familiesNamed n (ranged groups order))))
            \<lparr>mfMetric := concat (map mfMetric (familiesNamed n (ranged groups order)))\<rparr>)
         (firsts (presentNames (ranged groups order)))"
  by (simp add: GetMetricFamilies_merged mergedFamilies_def mergedFamily_def)

text \<open>
  C24. For every order of iteration, the result holds each metric of the store exactly once: its
  metrics are, as a multiset, those of the store in the sorted order.
\<close>

theorem GetMetricFamilies_loses_nothing:
  assumes "range_order_of groups order"
  shows "mset (concat (map mfMetric (GetMetricFamilies predefined groups order))) =
    mset (concat (map entryMetrics (ranged groups (sortedOrder groups))))"
proof -
  have "mset (concat (map entryMetrics xs)) = (\<Sum>e \<in># mset xs. mset (entryMetrics e))" for xs
    by (induction xs) simp_all
  then show ?thesis
    using ranged_mset [OF assms sortedOrder_valid] by (simp only: GetMetricFamilies_merged merged_metrics)
qed

theorem GetMetricFamilies_loses_nothing_witness:
  "let g = \<lparr>mgLabels = fmempty, mgMetrics = fmempty\<rparr>; groups = fmupd ''a'' g (fmupd ''b'' g fmempty)
   in mset (concat (map mfMetric (GetMetricFamilies fmempty groups [(''b'', []), (''a'', [])]))) =
      mset (concat (map entryMetrics (ranged groups (sortedOrder groups))))"
  unfolding Let_def
  by (rule GetMetricFamilies_loses_nothing) (auto simp: range_order_of_def)

end
