(* ===== verification/Checker.thy ===== *)
theory Checker
  imports StoreProps Families
begin

text \<open>
  \<open>checkWriteRequest\<close> of storage/diskmetricstore.go and the part of the write loop that follows
  it: a checked request is processed, a rejected one only records the failure time.  The
  gatherer that judges a set of families (\<open>prometheus.Gatherers\<close> with the default gatherer) is
  library code; it is the argument \<open>gather\<close>, which returns an error or nothing.  The order in
  which the runtime iterates over the groups at that moment is the argument \<open>order\<close>.
\<close>

section \<open>The check\<close>

definition errTimestamp :: string where
  "errTimestamp = ''pushed metrics must not have timestamps''"

text \<open>The deferred send: an error reaches the client only through a \<open>Done\<close> channel.\<close>

definition sentTo :: "WriteRequest \<Rightarrow> string \<Rightarrow> string option" where
  "sentTo wr err = (if wrDone wr \<noteq> None then Some err else None)"

definition sanitizeRequest :: "model_consts \<Rightarrow> WriteRequest \<Rightarrow> (string, MetricFamily) fmap \<Rightarrow> WriteRequest" where
  "sanitizeRequest mc wr families =
     wr\<lparr>wrMetricFamilies := Some (fmmap (\<lambda>mf. sanitizeLabels mc mf (wrLabels wr)) families)\<rparr>"

definition testStore :: "DiskMetricStore \<Rightarrow> DiskMetricStore" where
  "testStore dms = \<lparr>metricGroups = GetMetricFamiliesMap dms, persistenceFile = '''',
     predefinedHelp = predefinedHelp dms\<rparr>"

definition gatherStore ::
  "(MetricFamily list \<Rightarrow> string option) \<Rightarrow> DiskMetricStore \<Rightarrow> range_order \<Rightarrow> string option" where
  "gatherStore gather dms order = gather (GetMetricFamilies (predefinedHelp dms) (metricGroups dms) order)"

text \<open>The verdict, the request as the check leaves it, and the error sent to the client.\<close>

definition checkWriteRequest ::
  "model_consts \<Rightarrow> (MetricFamily list \<Rightarrow> string option) \<Rightarrow> (GroupingKeyToMetricGroup \<Rightarrow> range_order) \<Rightarrow>
   DiskMetricStore \<Rightarrow> WriteRequest \<Rightarrow> bool \<times> WriteRequest \<times> string option" where
  "checkWriteRequest mc gather order dms wr =
     (case wrMetricFamilies wr of
        None \<Rightarrow> (True, wr, None)
      | Some families \<Rightarrow>
          if timestampsPresent families then (False, wr, sentTo wr errTimestamp)
          else
            let wr1 = sanitizeRequest mc wr families in
            if wrDone wr = None then (True, wr1, None)
            else (case processWriteRequest mc (testStore dms) wr1 of
                    (tdms, wr2) \<Rightarrow>
                      (case gatherStore gather tdms (order (metricGroups tdms)) of
                         Some err \<Rightarrow> (False, wr2, sentTo wr err)
                       | None \<Rightarrow> (True, wr2, None))))"

definition handleWrite ::
  "model_consts \<Rightarrow> (MetricFamily list \<Rightarrow> string option) \<Rightarrow> (GroupingKeyToMetricGroup \<Rightarrow> range_order) \<Rightarrow>
   DiskMetricStore \<Rightarrow> WriteRequest \<Rightarrow> DiskMetricStore \<times> string option" where
  "handleWrite mc gather order dms wr =
     (case checkWriteRequest mc gather order dms wr of
        (ok, wr', err) \<Rightarrow>
          ((if ok then fst (processWriteRequest mc dms wr') else setPushFailedTimestamp mc dms wr'), err))"

section \<open>Lemmas\<close>

lemma timestampsPresent_iff:
  "timestampsPresent families \<longleftrightarrow>
   (\<exists>name mf. fmlookup families name = Some mf \<and> (\<exists>m \<in> set (mfMetric mf). mTimestampMs m \<noteq> None))"
proof
  assume "timestampsPresent families"
  then obtain n where n: "n \<in> fmdom' families"
    "case fmlookup families n of None \<Rightarrow> False | Some mf \<Rightarrow> list_ex (\<lambda>m. mTimestampMs m \<noteq> None) (mfMetric mf)"
    by (auto simp: timestampsPresent_def list_ex_iff)
  then show "\<exists>name mf. fmlookup families name = Some mf \<and> (\<exists>m \<in> set (mfMetric mf). mTimestampMs m \<noteq> None)"
    by (cases "fmlookup families n") (auto simp: list_ex_iff)
next
  assume "\<exists>name mf. fmlookup families name = Some mf \<and> (\<exists>m \<in> set (mfMetric mf). mTimestampMs m \<noteq> None)"
  then obtain name mf where "fmlookup families name = Some mf" "list_ex (\<lambda>m. mTimestampMs m \<noteq> None) (mfMetric mf)"
    by (auto simp: list_ex_iff)
  then show "timestampsPresent families"
    unfolding timestampsPresent_def list_ex_iff [of _ "sortedKeys families"]
    by (intro bexI [of _ name]) (auto simp: fmdom'_iff_Some)
qed

lemma sanitizeRequest_sel [simp]:
  "wrLabels (sanitizeRequest mc wr fs) = wrLabels wr" "wrTimestamp (sanitizeRequest mc wr fs) = wrTimestamp wr"
  "wrReplace (sanitizeRequest mc wr fs) = wrReplace wr" "wrDone (sanitizeRequest mc wr fs) = wrDone wr"
  "keyOf mc (sanitizeRequest mc wr fs) = keyOf mc wr"
  by (simp_all add: sanitizeRequest_def)

lemma testStore_sel [simp]: "metricGroups (testStore dms) = metricGroups dms"
  "predefinedHelp (testStore dms) = predefinedHelp dms"
  by (simp_all add: testStore_def)

text \<open>The groups after an update depend on the groups before it only.\<close>

lemma process_groups_cong:
  "metricGroups d = metricGroups dms \<Longrightarrow>
   metricGroups (fst (processWriteRequest mc d wr)) = metricGroups (fst (processWriteRequest mc dms wr)) \<and>
   snd (processWriteRequest mc d wr) = snd (processWriteRequest mc dms wr)"
  by (cases "wrMetricFamilies wr") (simp_all add: store_simps groupOf_def)

lemma setPushFailed_cong:
  "wrLabels w = wrLabels wr \<Longrightarrow> wrTimestamp w = wrTimestamp wr \<Longrightarrow>
   setPushFailedTimestamp mc dms w = setPushFailedTimestamp mc dms wr"
  unfolding setPushFailedTimestamp_def by (simp only:)

text \<open>The \<open>Done\<close> channel plays no role in an update.\<close>

lemma done_irrelevant [simp]:
  "keyOf mc (wr\<lparr>wrDone := d\<rparr>) = keyOf mc wr"
  "groupOf mc dms (wr\<lparr>wrDone := d\<rparr>) = groupOf mc dms wr"
  "updatedGroup mc (wr\<lparr>wrDone := d\<rparr>) og fs = updatedGroup mc wr og fs"
  "updatedGroup mc (wr\<lparr>wrMetricFamilies := x\<rparr>) og fs = updatedGroup mc wr og fs"
  by (cases og; simp add: keyOf_def groupOf_def updatedGroup_def augmented_def baseGroup_def Let_def)+

text \<open>The outcomes of the check, each with the store it leads to.\<close>

definition sanitizedUpdate :: "model_consts \<Rightarrow> DiskMetricStore \<Rightarrow> WriteRequest \<Rightarrow> (string, MetricFamily) fmap \<Rightarrow> DiskMetricStore" where
  "sanitizedUpdate mc dms wr families = fst (processWriteRequest mc dms (sanitizeRequest mc wr families))"

lemma sanitizedUpdate_test:
  "metricGroups (fst (processWriteRequest mc (testStore dms) (sanitizeRequest mc wr families))) =
   metricGroups (sanitizedUpdate mc dms wr families)"
  using process_groups_cong [of "testStore dms" dms] by (simp add: sanitizedUpdate_def)

lemma sanitizedUpdate_again:
  "metricGroups (fst (processWriteRequest mc dms (snd (processWriteRequest mc (testStore dms) (sanitizeRequest mc wr families)))))
     = metricGroups (sanitizedUpdate mc dms wr families)"
  unfolding sanitizedUpdate_def by (rule process_again) simp

lemma store_eqI:
  "metricGroups a = metricGroups b \<Longrightarrow> predefinedHelp a = predefinedHelp b \<Longrightarrow>
   persistenceFile a = persistenceFile b \<Longrightarrow> a = (b :: DiskMetricStore)"
  by simp

text \<open>The verdict of the check on a push.\<close>

definition accepted ::
  "model_consts \<Rightarrow> (MetricFamily list \<Rightarrow> string option) \<Rightarrow> (GroupingKeyToMetricGroup \<Rightarrow> range_order) \<Rightarrow>
   DiskMetricStore \<Rightarrow> WriteRequest \<Rightarrow> bool" where
  "accepted mc gather order dms wr = fst (checkWriteRequest mc gather order dms wr)"

lemma accepted_iff:
  "accepted mc gather order dms wr \<longleftrightarrow>
     (case wrMetricFamilies wr of None \<Rightarrow> True
      | Some families \<Rightarrow> \<not> timestampsPresent families \<and>
          (wrDone wr \<noteq> None \<longrightarrow>
             gatherStore gather (sanitizedUpdate mc dms wr families)
               (order (metricGroups (sanitizedUpdate mc dms wr families))) = None))"
proof (cases "wrMetricFamilies wr")
  case None
  then show ?thesis by (simp add: accepted_def checkWriteRequest_def)
next
  case (Some families)
  have "predefinedHelp (sanitizedUpdate mc dms wr families) = predefinedHelp dms"
    by (simp add: sanitizedUpdate_def)
  then show ?thesis
    using sanitizedUpdate_test [of mc dms wr families] Some
    by (auto simp: accepted_def checkWriteRequest_def Let_def gatherStore_def case_prod_unfold split: option.split)
qed

lemma handleWrite_store:
  "fst (handleWrite mc gather order dms wr) =
     (if accepted mc gather order dms wr then
        (case wrMetricFamilies wr of
           None \<Rightarrow> fst (processWriteRequest mc dms wr)
         | Some families \<Rightarrow> sanitizedUpdate mc dms wr families)
      else setPushFailedTimestamp mc dms wr)"
proof (cases "wrMetricFamilies wr")
  case None
  then show ?thesis by (simp add: handleWrite_def accepted_def checkWriteRequest_def)
next
  case (Some families)
  let ?p = "processWriteRequest mc (testStore dms) (sanitizeRequest mc wr families)"
  have again: "fst (processWriteRequest mc dms (snd ?p)) = sanitizedUpdate mc dms wr families"
    using sanitizedUpdate_again [of mc dms wr families] by (intro store_eqI) (simp_all add: sanitizedUpdate_def)
  have fail: "setPushFailedTimestamp mc dms (snd ?p) = setPushFailedTimestamp mc dms wr"
    by (rule setPushFailed_cong) simp_all
  show ?thesis
    using again fail Some
    by (auto simp: handleWrite_def accepted_def checkWriteRequest_def Let_def sanitizedUpdate_def
        split: prod.split option.split)
qed

lemma handleWrite_error:
  "wrDone wr \<noteq> None \<Longrightarrow> snd (handleWrite mc gather order dms wr) = None \<longleftrightarrow> accepted mc gather order dms wr"
  by (cases "wrMetricFamilies wr")
    (auto simp: handleWrite_def accepted_def checkWriteRequest_def Let_def sentTo_def split: prod.split option.split)

lemma sanitizeRequest_labelled:
  "\<not> timestampsPresent families \<Longrightarrow> request_labelled mc (sanitizeRequest mc wr families)"
  by (auto simp: sanitizeRequest_def request_labelled_def fmpred_iff timestampsPresent_iff list_all_iff
      intro!: sanitizeLabels_labelled)

lemma handleWrite_wf: "store_wf mc dms \<Longrightarrow> store_wf mc (fst (handleWrite mc gather order dms wr))"
  by (auto simp: handleWrite_store sanitizedUpdate_def process_wf setPushFailed_wf split: option.split)

lemma handleWrite_labelled:
  assumes "store_wf mc dms" "store_labelled mc dms" "sep_free mc (wrLabels wr)"
  shows "store_labelled mc (fst (handleWrite mc gather order dms wr))"
proof (cases "wrMetricFamilies wr")
  case None
  then have "store_labelled mc (fst (processWriteRequest mc dms wr))"
    using assms by (intro process_labelled) (simp_all add: request_labelled_def)
  then show ?thesis using None assms by (simp add: handleWrite_store setPushFailed_labelled)
next
  case (Some families)
  have "store_labelled mc (sanitizedUpdate mc dms wr families)" if "accepted mc gather order dms wr"
    using that assms Some unfolding sanitizedUpdate_def
    by (intro process_labelled) (simp_all add: accepted_iff sanitizeRequest_labelled)
  then show ?thesis using Some assms by (simp add: handleWrite_store setPushFailed_labelled)
qed

text \<open>Every metric of a stored family shows up in what is gathered.\<close>

lemma gathered_metric:
  assumes "range_order_of (metricGroups dms) order"
    and "stored dms key name = Some tmf" "tmfFamily tmf = Some mf" "m \<in> set (mfMetric mf)"
  shows "list_ex (\<lambda>mf'. m \<in> set (mfMetric mf')) (GetMetricFamilies (predefinedHelp dms) (metricGroups dms) order)"
proof -
  obtain g where g: "fmlookup (metricGroups dms) key = Some g" "fmlookup (mgMetrics g) name = Some tmf"
    using assms(2) by (auto simp: stored_def split: option.splits)
  then have "(key, name) \<in> set (visited order)"
    using valid_order_visited(2) [OF assms(1)] by (auto simp: allKeys_def fmdom'_iff_Some)
  then have "(name, Some mf) \<in> set (ranged (metricGroups dms) order)"
    using g assms(3) by (force simp: ranged_visited entryAt_def familyOf_def)
  then have "m \<in> set (concat (map entryMetrics (ranged (metricGroups dms) order)))"
    using assms(4) by (force simp: entryMetrics_def)
  then have "m \<in> set (concat (map mfMetric (GetMetricFamilies (predefinedHelp dms) (metricGroups dms) order)))"
    using merged_metrics [of "predefinedHelp dms" "ranged (metricGroups dms) order"]
    by (metis GetMetricFamilies_merged set_mset_mset)
  then show ?thesis by (auto simp: list_ex_iff)
qed

section \<open>Properties\<close>

text \<open>
  A push with a metric that carries a timestamp is never stored: the check rejects it with
  \<open>errTimestamp\<close>, whether or not consistency is checked, and the store only records the failure.
\<close>

lemma timestamped_push_rejected:
  assumes "wrMetricFamilies wr = Some families" "fmlookup families name = Some mf"
    and "m \<in> set (mfMetric mf)" "mTimestampMs m \<noteq> None"
  shows "handleWrite mc gather order dms wr = (setPushFailedTimestamp mc dms wr, sentTo wr errTimestamp)"
proof -
  have "timestampsPresent families" using assms by (auto simp: timestampsPresent_iff)
  then show ?thesis using assms(1) by (simp add: handleWrite_def checkWriteRequest_def)
qed

text \<open>
  Without a \<open>Done\<close> channel the gatherer is never asked: the verdict depends on the timestamps
  only, nothing is sent, and the request is still sanitised.
\<close>

lemma unchecked_push_sanitised:
  assumes "wrDone wr = None"
  shows "checkWriteRequest mc gather order dms wr =
    (case wrMetricFamilies wr of
       None \<Rightarrow> (True, wr, None)
     | Some families \<Rightarrow>
         if timestampsPresent families then (False, wr, None)
         else (True, wr\<lparr>wrMetricFamilies := Some (fmmap (\<lambda>mf. sanitizeLabels mc mf (wrLabels wr)) families)\<rparr>, None))"
  using assms by (simp add: checkWriteRequest_def Let_def sentTo_def sanitizeRequest_def split: option.split)

text \<open>
  C29. The consistency check cannot be seen in the store: a checked push that is accepted leaves the
  same store as the same push without a \<open>Done\<close> channel, although the check has sanitised
  and extended the request before it is processed.
\<close>

theorem check_is_transparent:
  assumes "fst (checkWriteRequest mc gather order dms wr)"
  shows "fst (handleWrite mc gather order dms wr) = fst (handleWrite mc gather order dms (wr\<lparr>wrDone := None\<rparr>))"
proof (cases "wrMetricFamilies wr")
  case None
  then show ?thesis by (simp add: handleWrite_def checkWriteRequest_def store_simps keyOf_def)
next
  case (Some families)
  let ?wr = "wr\<lparr>wrDone := None\<rparr>"
  have acc: "accepted mc gather order dms wr" "accepted mc gather order dms ?wr"
    using assms Some by (simp_all add: accepted_iff flip: accepted_def)
  have "sanitizedUpdate mc dms ?wr families = sanitizedUpdate mc dms wr families"
    by (simp add: sanitizedUpdate_def sanitizeRequest_def store_simps)
  then show ?thesis using acc Some by (simp add: handleWrite_store)
qed

theorem check_is_transparent_witness:
  "fst (handleWrite prom_consts (\<lambda>mfs. None) sortedOrder empty_store (push_of ''j'' 5 fmempty True)) =
   fst (handleWrite prom_consts (\<lambda>mfs. None) sortedOrder empty_store ((push_of ''j'' 5 fmempty True)\<lparr>wrDone := None\<rparr>))"
proof (rule check_is_transparent)
  have "accepted prom_consts (\<lambda>mfs. None) sortedOrder empty_store (push_of ''j'' 5 fmempty True)"
    by (simp add: accepted_iff gatherStore_def timestampsPresent_iff)
  then show "fst (checkWriteRequest prom_consts (\<lambda>mfs. None) sortedOrder empty_store (push_of ''j'' 5 fmempty True))"
    by (simp add: accepted_def)
qed

text \<open>
  C10. Whatever requests arrive, checked or not, accepted or not, as long as their grouping labels
  are free of the separator byte: every stored metric carries the grouping labels of its group and an
  instance label, its labels are sorted, and it has no timestamp.
\<close>

theorem store_stays_labelled:
  assumes "store_wf mc dms" "store_labelled mc dms" "list_all (\<lambda>wr. sep_free mc (wrLabels wr)) wrs"
  shows "store_wf mc (fold (\<lambda>wr d. fst (handleWrite mc gather order d wr)) wrs dms) \<and>
    store_labelled mc (fold (\<lambda>wr d. fst (handleWrite mc gather order d wr)) wrs dms)"
  using assms
  by (induction wrs arbitrary: dms) (simp_all add: handleWrite_wf handleWrite_labelled)

text \<open>A concrete input: two pushes of a gauge to different groups and the deletion of the first.\<close>

theorem store_stays_labelled_witness:
  "let dms = fold (\<lambda>wr d. fst (handleWrite prom_consts (\<lambda>mfs. None) sortedOrder d wr))
       [push_of ''a'' 5 (fmupd ''m'' (gaugeFamily ''m'') fmempty) True, push_of ''c'' 6 (fmupd ''m'' (gaugeFamily ''m'') fmempty) False,
        delete_of ''a'' 7] empty_store in
   store_labelled prom_consts dms \<and> stored dms (groupingKeyFor prom_consts (job_labels ''c'')) ''m'' \<noteq> None \<and>
   stored dms (groupingKeyFor prom_consts (job_labels ''a'')) ''m'' = None"
proof -
  let ?wrs = "[push_of ''a'' 5 (fmupd ''m'' (gaugeFamily ''m'') fmempty) True, push_of ''c'' 6 (fmupd ''m'' (gaugeFamily ''m'') fmempty) False,
      delete_of ''a'' 7]"
  have "list_all (\<lambda>wr. sep_free prom_consts (wrLabels wr)) ?wrs"
    by (auto simp: sep_free_def job_labels_def split: if_splits)
  moreover have "store_labelled prom_consts empty_store"
    by (simp add: store_labelled_def empty_store_def)
  moreover have "stored (fold (\<lambda>wr d. fst (handleWrite prom_consts (\<lambda>mfs. None) sortedOrder d wr)) ?wrs empty_store)
      (groupingKeyFor prom_consts (job_labels ''c'')) ''m'' \<noteq> None" by code_simp
  moreover have "stored (fold (\<lambda>wr d. fst (handleWrite prom_consts (\<lambda>mfs. None) sortedOrder d wr)) ?wrs empty_store)
      (groupingKeyFor prom_consts (job_labels ''a'')) ''m'' = None" by code_simp
  ultimately show ?thesis
    using store_stays_labelled [OF store_wf_empty, of prom_consts ?wrs] unfolding Let_def by blast
qed

text \<open>
  C36. A rejected push can spoil the store: if a grouping label has a value that the gatherer
  refuses (such as one that is not valid UTF-8, which the base64 form of the URL can carry), the
  push is rejected, but the group created to record the failure carries the same label, and from then on
  gathering fails in every order of iteration.
\<close>

theorem rejected_push_spoils_gathering:
  assumes push: "wrMetricFamilies wr = Some families" "wrDone wr \<noteq> None" "fmlookup (wrLabels wr) n = Some v"
    and gather: "\<And>mfs. list_ex (\<lambda>mf. list_ex (\<lambda>m. hasLabel (mLabel m) n v) (mfMetric mf)) mfs \<Longrightarrow> gather mfs \<noteq> None"
    and orders: "\<And>groups. range_order_of groups (order groups)"
  shows "\<not> fst (checkWriteRequest mc gather order dms wr) \<and>
    (range_order_of (metricGroups (fst (handleWrite mc gather order dms wr))) later \<longrightarrow>
     gather (GetMetricFamilies (predefinedHelp dms) (metricGroups (fst (handleWrite mc gather order dms wr))) later) \<noteq> None)"
proof -
  have bad: "gather (GetMetricFamilies (predefinedHelp d) (metricGroups d) ord) \<noteq> None"
    if "range_order_of (metricGroups d) ord" "stored d key name = Some (stamp t mf)" "mfMetric mf = [m]"
      "family_labelled mc (wrLabels wr) mf" for d ord key name t mf m
  proof (rule gather)
    have "hasLabel (mLabel m) n v"
      using that(3,4) push(3) by (auto simp: family_labelled_def sanitized_def)
    then show "list_ex (\<lambda>mf. list_ex (\<lambda>m. hasLabel (mLabel m) n v) (mfMetric mf))
        (GetMetricFamilies (predefinedHelp d) (metricGroups d) ord)"
      using gathered_metric [OF that(1,2), of mf m] that(3) by (auto simp: stamp_def list_ex_iff)
  qed
  have gauge: "\<exists>m. mfMetric (newPushTimestampGauge mc gl t) = [m]" "\<exists>m. mfMetric (newPushFailedTimestampGauge mc gl t) = [m]"
    for gl t using gauge_shapes by blast+
  let ?u = "sanitizedUpdate mc dms wr families"
  have "stored ?u (keyOf mc wr) pushMetricName =
      Some (stamp (wrTimestamp wr) (newPushTimestampGauge mc (wrLabels wr) (wrTimestamp wr)))"
    using stored_update [of "sanitizeRequest mc wr families" _ mc dms pushMetricName]
    by (simp add: sanitizedUpdate_def sanitizeRequest_def updatedGroup_lookup augmented_lookup)
  then have "gatherStore gather ?u (order (metricGroups ?u)) \<noteq> None"
    unfolding gatherStore_def using bad [OF orders] gauge(1) gauge_labelled(1) by metis
  then have rej: "\<not> accepted mc gather order dms wr"
    using push by (simp add: accepted_iff)
  let ?f = "setPushFailedTimestamp mc dms wr"
  have "stored ?f (keyOf mc wr) pushFailedMetricName =
      Some (stamp (wrTimestamp wr) (newPushFailedTimestampGauge mc (wrLabels wr) (wrTimestamp wr)))"
    using stored_failed [of mc dms wr pushFailedMetricName] by (simp add: failedGroup_lookup)
  then have "range_order_of (metricGroups ?f) later \<Longrightarrow>
      gather (GetMetricFamilies (predefinedHelp ?f) (metricGroups ?f) later) \<noteq> None"
    using bad [of ?f later] gauge(2) gauge_labelled(2) by metis
  then show ?thesis using rej by (simp add: handleWrite_store flip: accepted_def)
qed

theorem rejected_push_spoils_gathering_witness:
  "let gather = (\<lambda>mfs. if list_ex (\<lambda>mf. list_ex (\<lambda>m. hasLabel (mLabel m) ''job'' [CHR 0xFE]) (mfMetric mf)) mfs
         then Some ''invalid utf8'' else None);
       dms = fst (handleWrite prom_consts gather sortedOrder empty_store (push_of [CHR 0xFE] 5 fmempty True))
   in gather (GetMetricFamilies fmempty (metricGroups dms) (sortedOrder (metricGroups dms))) \<noteq> None"
proof -
  let ?gather = "\<lambda>mfs. if list_ex (\<lambda>mf. list_ex (\<lambda>m. hasLabel (mLabel m) ''job'' [CHR 0xFE]) (mfMetric mf)) mfs
         then Some ''invalid utf8'' else None"
  let ?wr = "push_of [CHR 0xFE] 5 fmempty True"
  have "wrMetricFamilies ?wr = Some fmempty" "wrDone ?wr \<noteq> None" "fmlookup (wrLabels ?wr) ''job'' = Some [CHR 0xFE]"
    by (simp_all add: job_labels_def)
  from rejected_push_spoils_gathering [OF this, of ?gather sortedOrder prom_consts empty_store] show ?thesis
    by (simp add: sortedOrder_valid Let_def empty_store_def)
qed

end
