(* ===== verification/WriteLoop.thy ===== *)
theory WriteLoop
  imports Checker
begin

text \<open>
  The write loop of storage/diskmetricstore.go as a transition system: the goroutine \<open>loop\<close>, the
  goroutine of the persist timer, the clients that submit requests, \<open>Shutdown\<close>, and the clock.
  One step is one communication or one critical section; steps of different goroutines interleave
  freely.  The persistence file is seen here as the groups it holds; Persistence models how the file
  is written.
\<close>

section \<open>Transition systems and their invariants\<close>

locale invariant_system =
  fixes init :: "'s \<Rightarrow> bool" and step :: "'s \<Rightarrow> 's \<Rightarrow> bool" and inv :: "'s \<Rightarrow> bool"
  assumes inv_init: "init s \<Longrightarrow> inv s"
    and inv_step: "inv s \<Longrightarrow> step s s' \<Longrightarrow> inv s'"
begin

lemma inv_reachable: "init s \<Longrightarrow> step\<^sup>*\<^sup>* s s' \<Longrightarrow> inv s'"
  by (rotate_tac, induction rule: rtranclp_induct) (auto intro: inv_init inv_step)

lemma inv_run: "inv s \<Longrightarrow> step\<^sup>*\<^sup>* s s' \<Longrightarrow> inv s'"
  by (rotate_tac, induction rule: rtranclp_induct) (auto intro: inv_step)

end

section \<open>State\<close>

text \<open>What is fixed while the loop runs: package constants, the gatherer and the persistence interval.\<close>

record loop_env =
  envConsts :: model_consts
  envGather :: "MetricFamily list \<Rightarrow> string option"
  envInterval :: int

text \<open>Where the goroutine \<open>loop\<close> stands; \<open>Finished\<close> carries whether \<open>Shutdown\<close> returns nil.\<close>

datatype loop_pc =
    AtSelect
  | Processing WriteRequest
  | CheckingPersist
  | Draining
  | FinalEncoded GroupingKeyToMetricGroup
  | Finished bool

text \<open>
  The scheduled persist: nothing, a timer set to an instant, the goroutine started at an instant,
  the goroutine with its encoding of the groups, the goroutine about to send on \<open>persistDone\<close>.
\<close>

datatype persist_phase =
    NoPersist
  | Armed gotime
  | Started gotime
  | Encoded gotime GroupingKeyToMetricGroup
  | Reporting gotime

type_synonym order_choice = "GroupingKeyToMetricGroup \<Rightarrow> range_order"

text \<open>
  \<open>lsSent\<close> and \<open>lsClosed\<close> are the answer channels: the errors sent on each, buffered, and those closed.
  The last two fields are history: the requests in the order of submission, and those applied,
  each with the iteration order that its check met.
\<close>

record loop_state =
  lsStore :: DiskMetricStore
  lsQueue :: "WriteRequest list"
  lsPc :: loop_pc
  lsDrain :: bool
  lsNow :: gotime
  lsLastWrite :: gotime
  lsLastPersist :: gotime
  lsScheduled :: bool
  lsPersist :: persist_phase
  lsDisk :: "GroupingKeyToMetricGroup option"
  lsSent :: "(nat \<times> string) list"
  lsClosed :: "nat list"
  lsSubmitted :: "WriteRequest list"
  lsApplied :: "(WriteRequest \<times> order_choice) list"

section \<open>Operations\<close>

text \<open>\<open>loop\<close> up to its first select.\<close>

definition initLoop :: "DiskMetricStore \<Rightarrow> gotime \<Rightarrow> GroupingKeyToMetricGroup option \<Rightarrow> loop_state" where
  "initLoop dms t disk = \<lparr>lsStore = dms, lsQueue = [], lsPc = AtSelect, lsDrain = False, lsNow = t,
     lsLastWrite = zeroTime, lsLastPersist = t, lsScheduled = False, lsPersist = NoPersist,
     lsDisk = disk, lsSent = [], lsClosed = [], lsSubmitted = [], lsApplied = []\<rparr>"

definition SubmitWriteRequest :: "WriteRequest \<Rightarrow> loop_state \<Rightarrow> loop_state" where
  "SubmitWriteRequest wr s = s\<lparr>lsQueue := lsQueue s @ [wr], lsSubmitted := lsSubmitted s @ [wr]\<rparr>"

text \<open>\<open>Shutdown\<close> up to its wait for the loop; the loop answers by becoming \<open>Finished\<close>.\<close>

definition Shutdown :: "loop_state \<Rightarrow> loop_state" where
  "Shutdown s = s\<lparr>lsDrain := True\<rparr>"

definition Healthy :: "loop_state \<Rightarrow> string option" where
  "Healthy s = (if length (lsQueue s) = writeQueueCapacity then Some ''write queue is full'' else None)"

definition Ready :: "loop_state \<Rightarrow> string option" where
  "Ready s = Healthy s"

definition checkPersist :: "loop_env \<Rightarrow> loop_state \<Rightarrow> loop_state" where
  "checkPersist env s =
     (if persistenceFile (lsStore s) \<noteq> '''' \<and> \<not> lsScheduled s \<and> lsLastPersist s < lsLastWrite s
      then s\<lparr>lsPersist := Armed (lsNow s + (envInterval env - Sub (lsLastWrite s) (lsLastPersist s))),
             lsScheduled := True\<rparr>
      else s)"

text \<open>The send that \<open>checkWriteRequest\<close> defers: the error, if any, on the channel of the request, if it has one.\<close>

definition sendError :: "WriteRequest \<Rightarrow> string option \<Rightarrow> (nat \<times> string) list" where
  "sendError wr err = (case (wrDone wr, err) of (Some ch, Some e) \<Rightarrow> [(ch, e)] | _ \<Rightarrow> [])"

definition applyWrite :: "loop_env \<Rightarrow> order_choice \<Rightarrow> WriteRequest \<Rightarrow> loop_state \<Rightarrow> loop_state" where
  "applyWrite env order wr s =
     s\<lparr>lsStore := fst (handleWrite (envConsts env) (envGather env) order (lsStore s) wr),
       lsSent := lsSent s @ sendError wr (snd (handleWrite (envConsts env) (envGather env) order (lsStore s) wr)),
       lsApplied := lsApplied s @ [(wr, order)]\<rparr>"

text \<open>The case of the select that receives a request, in three critical sections.\<close>

definition receiveWrite :: "WriteRequest \<Rightarrow> WriteRequest list \<Rightarrow> loop_state \<Rightarrow> loop_state" where
  "receiveWrite wr rest s = s\<lparr>lsQueue := rest, lsLastWrite := lsNow s, lsPc := Processing wr\<rparr>"

definition processWrite :: "loop_env \<Rightarrow> order_choice \<Rightarrow> WriteRequest \<Rightarrow> loop_state \<Rightarrow> loop_state" where
  "processWrite env order wr s =
     (let s1 = applyWrite env order wr s in
      s1\<lparr>lsClosed := lsClosed s1 @ (case wrDone wr of None \<Rightarrow> [] | Some c \<Rightarrow> [c]), lsPc := CheckingPersist\<rparr>)"

definition finishCase :: "loop_env \<Rightarrow> loop_state \<Rightarrow> loop_state" where
  "finishCase env s = (checkPersist env s)\<lparr>lsPc := AtSelect\<rparr>"

text \<open>The case that receives on \<open>persistDone\<close>, and the one that sees \<open>drain\<close> closed.\<close>

definition receivePersistDone :: "gotime \<Rightarrow> loop_state \<Rightarrow> loop_state" where
  "receivePersistDone t s =
     s\<lparr>lsLastPersist := t, lsScheduled := False, lsPersist := NoPersist, lsPc := CheckingPersist\<rparr>"

definition startDrain :: "loop_state \<Rightarrow> loop_state" where
  "startDrain s =
     s\<lparr>lsPersist := (case lsPersist s of Armed t \<Rightarrow> NoPersist | p \<Rightarrow> p), lsPc := Draining\<rparr>"

definition drainWrite :: "loop_env \<Rightarrow> order_choice \<Rightarrow> WriteRequest \<Rightarrow> WriteRequest list \<Rightarrow> loop_state \<Rightarrow> loop_state" where
  "drainWrite env order wr rest s = (applyWrite env order wr s)\<lparr>lsQueue := rest\<rparr>"

section \<open>The step relation\<close>

inductive loop_step :: "loop_env \<Rightarrow> loop_state \<Rightarrow> loop_state \<Rightarrow> bool" for env where
  submit: "length (lsQueue s) < writeQueueCapacity \<Longrightarrow> loop_step env s (SubmitWriteRequest wr s)"
| tick: "lsNow s \<le> t \<Longrightarrow> loop_step env s (s\<lparr>lsNow := t\<rparr>)"
| shutdown: "\<not> lsDrain s \<Longrightarrow> loop_step env s (Shutdown s)"
| receive: "lsPc s = AtSelect \<Longrightarrow> lsQueue s = wr # rest \<Longrightarrow> loop_step env s (receiveWrite wr rest s)"
| process: "lsPc s = Processing wr \<Longrightarrow> loop_step env s (processWrite env order wr s)"
| finish_case: "lsPc s = CheckingPersist \<Longrightarrow> loop_step env s (finishCase env s)"
| persist_done: "lsPc s = AtSelect \<Longrightarrow> lsPersist s = Reporting t \<Longrightarrow> loop_step env s (receivePersistDone t s)"
| drain: "lsPc s = AtSelect \<Longrightarrow> lsDrain s \<Longrightarrow> loop_step env s (startDrain s)"
| drain_write: "lsPc s = Draining \<Longrightarrow> lsQueue s = wr # rest \<Longrightarrow> loop_step env s (drainWrite env order wr rest s)"
| drain_no_file: "lsPc s = Draining \<Longrightarrow> lsQueue s = [] \<Longrightarrow> persistenceFile (lsStore s) = '''' \<Longrightarrow>
    loop_step env s (s\<lparr>lsPc := Finished True\<rparr>)"
| drain_encode: "lsPc s = Draining \<Longrightarrow> lsQueue s = [] \<Longrightarrow> persistenceFile (lsStore s) \<noteq> '''' \<Longrightarrow>
    loop_step env s (s\<lparr>lsPc := FinalEncoded (metricGroups (lsStore s))\<rparr>)"
| drain_encode_fails: "lsPc s = Draining \<Longrightarrow> lsQueue s = [] \<Longrightarrow> persistenceFile (lsStore s) \<noteq> '''' \<Longrightarrow>
    loop_step env s (s\<lparr>lsPc := Finished False\<rparr>)"
| drain_rename: "lsPc s = FinalEncoded g \<Longrightarrow> loop_step env s (s\<lparr>lsDisk := Some g, lsPc := Finished True\<rparr>)"
| drain_rename_fails: "lsPc s = FinalEncoded g \<Longrightarrow> loop_step env s (s\<lparr>lsPc := Finished False\<rparr>)"
| timer_fires: "lsPersist s = Armed t \<Longrightarrow> t \<le> lsNow s \<Longrightarrow> loop_step env s (s\<lparr>lsPersist := Started (lsNow s)\<rparr>)"
| persist_encode: "lsPersist s = Started t \<Longrightarrow> loop_step env s (s\<lparr>lsPersist := Encoded t (metricGroups (lsStore s))\<rparr>)"
| persist_encode_fails: "lsPersist s = Started t \<Longrightarrow> loop_step env s (s\<lparr>lsPersist := Reporting t\<rparr>)"
| persist_rename: "lsPersist s = Encoded t g \<Longrightarrow> loop_step env s (s\<lparr>lsDisk := Some g, lsPersist := Reporting t\<rparr>)"
| persist_rename_fails: "lsPersist s = Encoded t g \<Longrightarrow> loop_step env s (s\<lparr>lsPersist := Reporting t\<rparr>)"

inductive_cases loop_stepE: "loop_step env s s'"

lemmas loop_ops = SubmitWriteRequest_def Shutdown_def applyWrite_def receiveWrite_def processWrite_def finishCase_def
  checkPersist_def receivePersistDone_def startDrain_def drainWrite_def Let_def

definition is_init :: "DiskMetricStore \<Rightarrow> GroupingKeyToMetricGroup option \<Rightarrow> loop_state \<Rightarrow> bool" where
  "is_init dms disk s \<longleftrightarrow> (\<exists>t \<ge> zeroTime. s = initLoop dms t disk)"

section \<open>First in, first out\<close>

definition runWrites :: "loop_env \<Rightarrow> (WriteRequest \<times> order_choice) list \<Rightarrow> DiskMetricStore \<Rightarrow> DiskMetricStore" where
  "runWrites env ws dms = fold (\<lambda>(wr, order) d. fst (handleWrite (envConsts env) (envGather env) order d wr)) ws dms"

lemma runWrites_snoc: "runWrites env (ws @ [(wr, order)]) dms =
    fst (handleWrite (envConsts env) (envGather env) order (runWrites env ws dms) wr)"
  by (simp add: runWrites_def)

lemma runWrites_Nil: "runWrites env [] dms = dms"
  by (simp add: runWrites_def)

lemma runWrites_append: "runWrites env (ws @ vs) dms = runWrites env vs (runWrites env ws dms)"
  by (simp add: runWrites_def)

definition inFlight :: "loop_pc \<Rightarrow> WriteRequest list" where
  "inFlight pc = (case pc of Processing wr \<Rightarrow> [wr] | _ \<Rightarrow> [])"

lemma inFlight_simps [simp]:
  "inFlight AtSelect = []" "inFlight (Processing wr) = [wr]" "inFlight CheckingPersist = []"
  "inFlight Draining = []" "inFlight (FinalEncoded g) = []" "inFlight (Finished b) = []"
  by (simp_all add: inFlight_def)

definition fifo_inv :: "loop_env \<Rightarrow> DiskMetricStore \<Rightarrow> loop_state \<Rightarrow> bool" where
  "fifo_inv env dms s \<longleftrightarrow>
     lsSubmitted s = map fst (lsApplied s) @ inFlight (lsPc s) @ lsQueue s \<and>
     lsStore s = runWrites env (lsApplied s) dms \<and>
     length (lsQueue s) \<le> writeQueueCapacity"

lemma fifo_inv_step: "fifo_inv env dms s \<Longrightarrow> loop_step env s s' \<Longrightarrow> fifo_inv env dms s'"
  by (erule loop_stepE) (auto simp: fifo_inv_def loop_ops runWrites_snoc)

lemma fifo_inv_init: "is_init dms disk s \<Longrightarrow> fifo_inv env dms s"
  by (auto simp: is_init_def initLoop_def fifo_inv_def runWrites_def)

interpretation fifo: invariant_system "is_init dms disk" "loop_step env" "fifo_inv env dms" for dms disk env
  by unfold_locales (rule fifo_inv_init, assumption, rule fifo_inv_step)

section \<open>Persisting\<close>

text \<open>Before the drain, something is scheduled exactly when the flag says so; afterwards nothing is armed.\<close>

definition draining :: "loop_pc \<Rightarrow> bool" where
  "draining pc = (case pc of AtSelect \<Rightarrow> False | Processing wr \<Rightarrow> False | CheckingPersist \<Rightarrow> False | _ \<Rightarrow> True)"

lemma draining_simps [simp]:
  "\<not> draining AtSelect" "\<not> draining (Processing wr)" "\<not> draining CheckingPersist"
  "draining Draining" "draining (FinalEncoded g)" "draining (Finished b)"
  by (simp_all add: draining_def)

definition schedule_inv :: "loop_state \<Rightarrow> bool" where
  "schedule_inv s \<longleftrightarrow>
     (if draining (lsPc s) then (\<forall>t. lsPersist s \<noteq> Armed t)
      else (lsScheduled s \<longleftrightarrow> lsPersist s \<noteq> NoPersist)) \<and>
     (lsPc s = AtSelect \<longrightarrow> persistenceFile (lsStore s) \<noteq> '''' \<longrightarrow> \<not> lsScheduled s \<longrightarrow>
        lsLastWrite s \<le> lsLastPersist s)"

lemma schedule_inv_step: "schedule_inv s \<Longrightarrow> loop_step env s s' \<Longrightarrow> schedule_inv s'"
  by (erule loop_stepE) (auto simp: schedule_inv_def loop_ops split: persist_phase.splits if_splits)

lemma schedule_inv_init: "is_init dms disk s \<Longrightarrow> schedule_inv s"
  by (auto simp: is_init_def initLoop_def schedule_inv_def)

interpretation schedule: invariant_system "is_init dms disk" "loop_step env" schedule_inv for dms disk env
  by unfold_locales (rule schedule_inv_init, assumption, rule schedule_inv_step)

text \<open>Every encoding, finished or in progress, is the store after some of the applied requests.\<close>

definition snapshot_of :: "loop_env \<Rightarrow> DiskMetricStore \<Rightarrow> (WriteRequest \<times> order_choice) list \<Rightarrow> GroupingKeyToMetricGroup \<Rightarrow> bool" where
  "snapshot_of env dms ws g \<longleftrightarrow> (\<exists>k \<le> length ws. g = metricGroups (runWrites env (take k ws) dms))"

lemma snapshot_snoc: "snapshot_of env dms ws g \<Longrightarrow> snapshot_of env dms (ws @ [w]) g"
proof -
  assume "snapshot_of env dms ws g"
  then obtain k where "k \<le> length ws" "g = metricGroups (runWrites env (take k ws) dms)"
    by (auto simp: snapshot_of_def)
  then have "k \<le> length (ws @ [w])" "g = metricGroups (runWrites env (take k (ws @ [w])) dms)" by simp_all
  then show ?thesis unfolding snapshot_of_def by blast
qed

lemma snapshot_now: "snapshot_of env dms ws (metricGroups (runWrites env ws dms))"
  by (force simp: snapshot_of_def)

definition snapshot_inv :: "loop_env \<Rightarrow> DiskMetricStore \<Rightarrow> GroupingKeyToMetricGroup option \<Rightarrow> loop_state \<Rightarrow> bool" where
  "snapshot_inv env dms disk s \<longleftrightarrow>
     lsStore s = runWrites env (lsApplied s) dms \<and>
     (lsDisk s = disk \<or> (\<exists>g. lsDisk s = Some g \<and> snapshot_of env dms (lsApplied s) g)) \<and>
     (\<forall>t g. lsPersist s = Encoded t g \<longrightarrow> snapshot_of env dms (lsApplied s) g) \<and>
     (\<forall>g. lsPc s = FinalEncoded g \<longrightarrow> snapshot_of env dms (lsApplied s) g)"

lemma snapshot_inv_step: "snapshot_inv env dms disk s \<Longrightarrow> loop_step env s s' \<Longrightarrow> snapshot_inv env dms disk s'"
  by (erule loop_stepE)
    (auto simp: snapshot_inv_def loop_ops runWrites_snoc snapshot_now snapshot_snoc split: persist_phase.splits)

lemma snapshot_inv_init: "is_init dms disk s \<Longrightarrow> snapshot_inv env dms disk s"
  by (auto simp: is_init_def initLoop_def snapshot_inv_def runWrites_def)

interpretation snapshots: invariant_system "is_init dms disk" "loop_step env" "snapshot_inv env dms disk" for dms disk env
  by unfold_locales (rule snapshot_inv_init, assumption, rule snapshot_inv_step)

section \<open>Shutting down\<close>

text \<open>From the moment the loop drains with no persist in progress, only the final persist writes the file.\<close>

definition quiet :: "persist_phase \<Rightarrow> bool" where
  "quiet p = (case p of NoPersist \<Rightarrow> True | Reporting t \<Rightarrow> True | _ \<Rightarrow> False)"

lemma quiet_simps [simp]:
  "quiet NoPersist" "quiet (Reporting t)" "\<not> quiet (Armed t)" "\<not> quiet (Started t)" "\<not> quiet (Encoded t g)"
  by (simp_all add: quiet_def)

definition drain_inv :: "loop_state \<Rightarrow> bool" where
  "drain_inv s \<longleftrightarrow> draining (lsPc s) \<and> quiet (lsPersist s) \<and>
     (\<forall>g. lsPc s = FinalEncoded g \<longrightarrow> g = metricGroups (lsStore s)) \<and>
     (lsPc s = Finished True \<longrightarrow> persistenceFile (lsStore s) \<noteq> '''' \<longrightarrow> lsDisk s = Some (metricGroups (lsStore s)))"

lemma drain_inv_step: "drain_inv s \<Longrightarrow> loop_step env s s' \<Longrightarrow> drain_inv s'"
  by (erule loop_stepE) (auto simp: drain_inv_def loop_ops)

lemma drain_inv_start: "lsPc s = Draining \<and> quiet (lsPersist s) \<Longrightarrow> drain_inv s"
  by (simp add: drain_inv_def)

interpretation quiet_drain: invariant_system "\<lambda>s. lsPc s = Draining \<and> quiet (lsPersist s)" "loop_step env" drain_inv for env
  by unfold_locales (rule drain_inv_start, assumption, rule drain_inv_step)

text \<open>Closing the answer channels.\<close>

definition doneOf :: "WriteRequest \<Rightarrow> nat list" where
  "doneOf wr = (case wrDone wr of None \<Rightarrow> [] | Some c \<Rightarrow> [c])"

definition closed_inv :: "loop_state \<Rightarrow> bool" where
  "closed_inv s \<longleftrightarrow> draining (lsPc s) \<or> lsClosed s = concat (map (doneOf \<circ> fst) (lsApplied s))"

lemma closed_inv_step: "closed_inv s \<Longrightarrow> loop_step env s s' \<Longrightarrow> closed_inv s'"
  by (erule loop_stepE) (auto simp: closed_inv_def loop_ops doneOf_def)

lemma closed_inv_init: "is_init dms disk s \<Longrightarrow> closed_inv s"
  by (auto simp: is_init_def initLoop_def closed_inv_def)

interpretation closing: invariant_system "is_init dms disk" "loop_step env" closed_inv for dms disk env
  by unfold_locales (rule closed_inv_init, assumption, rule closed_inv_step)

section \<open>Two schedules\<close>

text \<open>
  A first write with its persist about to run: the request is applied, the timer is armed, and
  enough time has passed for it to fire.
\<close>

definition armedState :: "loop_env \<Rightarrow> DiskMetricStore \<Rightarrow> gotime \<Rightarrow> GroupingKeyToMetricGroup option \<Rightarrow>
    WriteRequest \<Rightarrow> order_choice \<Rightarrow> gotime \<Rightarrow> gotime \<Rightarrow> loop_state" where
  "armedState env dms t disk wr ord w n =
     (initLoop (runWrites env [(wr, ord)] dms) t disk)\<lparr>lsNow := n, lsLastWrite := t + 1, lsScheduled := True,
        lsPersist := Armed w,
        lsSent := sendError wr (snd (handleWrite (envConsts env) (envGather env) ord dms wr)), lsClosed := doneOf wr, lsSubmitted := [wr], lsApplied := [(wr, ord)]\<rparr>"

lemma handleWrite_config [simp]:
  "persistenceFile (fst (handleWrite mc gather ord dms wr)) = persistenceFile dms"
  by (auto simp: handleWrite_def split: prod.split)

lemma runWrites_config [simp]: "persistenceFile (runWrites env ws dms) = persistenceFile dms"
proof (induction ws rule: rev_induct)
  case (snoc w ws)
  then show ?case by (cases w) (simp add: runWrites_snoc)
qed (simp add: runWrites_def)

lemma runWrites_one: "fst (handleWrite (envConsts env) (envGather env) ord (runWrites env ws dms) wr) =
    runWrites env (ws @ [(wr, ord)]) dms"
  by (simp add: runWrites_snoc)

lemma runWrites_first: "fst (handleWrite (envConsts env) (envGather env) ord dms wr) = runWrites env [(wr, ord)] dms"
  by (simp add: runWrites_def)

lemma reach_armed:
  assumes "persistenceFile dms \<noteq> ''''"
  shows "\<exists>w n. w \<le> n \<and> t < n \<and> (loop_step env)\<^sup>*\<^sup>* (initLoop dms t disk) (armedState env dms t disk wr ord w n)"
proof -
  let ?s0 = "initLoop dms t disk"
  let ?s1 = "SubmitWriteRequest wr ?s0"
  let ?s2 = "?s1\<lparr>lsNow := t + 1\<rparr>"
  let ?s3 = "receiveWrite wr [] ?s2"
  let ?s4 = "processWrite env ord wr ?s3"
  let ?s5 = "finishCase env ?s4"
  let ?w = "t + 1 + (envInterval env - Sub (t + 1) t)"
  let ?n = "max ?w (t + 1)"
  have "loop_step env ?s0 ?s1"
    by (rule loop_step.submit) (simp add: initLoop_def writeQueueCapacity_def)
  moreover have "loop_step env ?s1 ?s2"
    by (rule loop_step.tick) (simp add: initLoop_def SubmitWriteRequest_def)
  moreover have "loop_step env ?s2 ?s3"
    by (rule loop_step.receive) (simp_all add: initLoop_def SubmitWriteRequest_def)
  moreover have "loop_step env ?s3 ?s4"
    by (rule loop_step.process) (simp add: receiveWrite_def)
  moreover have "loop_step env ?s4 ?s5"
    by (rule loop_step.finish_case) (simp add: processWrite_def Let_def)
  moreover have "loop_step env ?s5 (?s5\<lparr>lsNow := ?n\<rparr>)"
    by (rule loop_step.tick) (simp add: initLoop_def loop_ops)
  moreover have "?s5\<lparr>lsNow := ?n\<rparr> = armedState env dms t disk wr ord ?w ?n"
    using assms by (simp add: armedState_def initLoop_def loop_ops runWrites_first doneOf_def)
  ultimately have "(loop_step env)\<^sup>*\<^sup>* ?s0 (armedState env dms t disk wr ord ?w ?n)"
    by (metis (no_types, lifting) rtranclp.rtrancl_into_rtrancl rtranclp.rtrancl_refl)
  then show ?thesis by (intro exI [of _ ?w] exI [of _ ?n]) simp
qed

text \<open>
  The store that a restart would load differs from the store of the loop, nothing is queued and
  nothing is scheduled: the persist took its snapshot after the second request was stamped and before it was
  applied.
\<close>

definition forgotten :: "loop_env \<Rightarrow> DiskMetricStore \<Rightarrow> WriteRequest \<Rightarrow> order_choice \<Rightarrow> WriteRequest \<Rightarrow> order_choice \<Rightarrow> loop_state \<Rightarrow> bool" where
  "forgotten env dms w1 o1 w2 o2 s \<longleftrightarrow>
     lsPc s = AtSelect \<and> lsQueue s = [] \<and> lsPersist s = NoPersist \<and> \<not> lsScheduled s \<and>
     lsApplied s = [(w1, o1), (w2, o2)] \<and> lsStore s = runWrites env [(w1, o1), (w2, o2)] dms \<and>
     lsDisk s = Some (metricGroups (runWrites env [(w1, o1)] dms))"

lemma reach_forgotten:
  assumes "persistenceFile dms \<noteq> ''''"
  shows "\<exists>s. (loop_step env)\<^sup>*\<^sup>* (initLoop dms t disk) s \<and> forgotten env dms w1 o1 w2 o2 s"
proof -
  obtain w n where n: "w \<le> n" "t < n" and reach: "(loop_step env)\<^sup>*\<^sup>* (initLoop dms t disk) (armedState env dms t disk w1 o1 w n)"
    using reach_armed [OF assms] by metis
  let ?g = "metricGroups (runWrites env [(w1, o1)] dms)"
  let ?a0 = "armedState env dms t disk w1 o1 w n"
  let ?a1 = "SubmitWriteRequest w2 ?a0"
  let ?a2 = "receiveWrite w2 [] ?a1"
  let ?a3 = "?a2\<lparr>lsPersist := Started n\<rparr>"
  let ?a4 = "?a3\<lparr>lsPersist := Encoded n ?g\<rparr>"
  let ?a5 = "processWrite env o2 w2 ?a4"
  let ?a6 = "finishCase env ?a5"
  let ?a7 = "?a6\<lparr>lsDisk := Some ?g, lsPersist := Reporting n\<rparr>"
  let ?a8 = "receivePersistDone n ?a7"
  let ?a9 = "finishCase env ?a8"
  note st = armedState_def initLoop_def loop_ops
  have "loop_step env ?a0 ?a1"
    by (rule loop_step.submit) (simp add: st writeQueueCapacity_def)
  moreover have "loop_step env ?a1 ?a2"
    by (rule loop_step.receive) (simp_all add: st)
  moreover have "loop_step env ?a2 ?a3"
    using loop_step.timer_fires [of ?a2 w env] n by (simp add: st)
  moreover have "loop_step env ?a3 ?a4"
    using loop_step.persist_encode [of ?a3 n env] by (simp add: st)
  moreover have "loop_step env ?a4 ?a5"
    by (rule loop_step.process) (simp add: st)
  moreover have "loop_step env ?a5 ?a6"
    by (rule loop_step.finish_case) (simp add: st)
  moreover have "loop_step env ?a6 ?a7"
    by (rule loop_step.persist_rename) (simp add: st)
  moreover have "loop_step env ?a7 ?a8"
    by (rule loop_step.persist_done) (simp_all add: st)
  moreover have "loop_step env ?a8 ?a9"
    by (rule loop_step.finish_case) (simp add: st)
  ultimately have "(loop_step env)\<^sup>*\<^sup>* (initLoop dms t disk) ?a9"
    using reach by (meson rtranclp.rtrancl_into_rtrancl)
  moreover have "forgotten env dms w1 o1 w2 o2 ?a9"
    using runWrites_one [of env o2 "[(w1, o1)]" dms w2] by (simp add: forgotten_def st)
  ultimately show ?thesis by blast
qed

text \<open>
  \<open>Shutdown\<close> has returned nil, but the persist that was already running renames its older file last.
  The second request was applied while draining: its channel is never closed.
\<close>

definition overwritten :: "loop_env \<Rightarrow> DiskMetricStore \<Rightarrow> WriteRequest \<Rightarrow> order_choice \<Rightarrow> WriteRequest \<Rightarrow> order_choice \<Rightarrow> loop_state \<Rightarrow> bool" where
  "overwritten env dms w1 o1 w2 o2 s \<longleftrightarrow>
     lsPc s = Finished True \<and> lsQueue s = [] \<and> lsApplied s = [(w1, o1), (w2, o2)] \<and>
     lsStore s = runWrites env [(w1, o1), (w2, o2)] dms \<and>
     lsDisk s = Some (metricGroups (runWrites env [(w1, o1)] dms)) \<and> lsClosed s = doneOf w1"

lemma reach_overwritten:
  assumes "persistenceFile dms \<noteq> ''''"
  shows "\<exists>s. (loop_step env)\<^sup>*\<^sup>* (initLoop dms t disk) s \<and> overwritten env dms w1 o1 w2 o2 s"
proof -
  obtain w n where n: "w \<le> n" "t < n" and reach: "(loop_step env)\<^sup>*\<^sup>* (initLoop dms t disk) (armedState env dms t disk w1 o1 w n)"
    using reach_armed [OF assms] by metis
  let ?g = "metricGroups (runWrites env [(w1, o1)] dms)"
  let ?h = "metricGroups (runWrites env [(w1, o1), (w2, o2)] dms)"
  let ?a0 = "armedState env dms t disk w1 o1 w n"
  let ?a1 = "?a0\<lparr>lsPersist := Started n\<rparr>"
  let ?a2 = "?a1\<lparr>lsPersist := Encoded n ?g\<rparr>"
  let ?a3 = "SubmitWriteRequest w2 ?a2"
  let ?a4 = "Shutdown ?a3"
  let ?a5 = "startDrain ?a4"
  let ?a6 = "drainWrite env o2 w2 [] ?a5"
  let ?a7 = "?a6\<lparr>lsPc := FinalEncoded ?h\<rparr>"
  let ?a8 = "?a7\<lparr>lsDisk := Some ?h, lsPc := Finished True\<rparr>"
  let ?a9 = "?a8\<lparr>lsDisk := Some ?g, lsPersist := Reporting n\<rparr>"
  note st = armedState_def initLoop_def loop_ops
  have two: "fst (handleWrite (envConsts env) (envGather env) o2 (runWrites env [(w1, o1)] dms) w2) =
      runWrites env [(w1, o1), (w2, o2)] dms" by (simp add: runWrites_one)
  have "loop_step env ?a0 ?a1"
    using loop_step.timer_fires [of ?a0 w env] n by (simp add: st)
  moreover have "loop_step env ?a1 ?a2"
    using loop_step.persist_encode [of ?a1 n env] by (simp add: st)
  moreover have "loop_step env ?a2 ?a3"
    by (rule loop_step.submit) (simp add: st writeQueueCapacity_def)
  moreover have "loop_step env ?a3 ?a4"
    by (rule loop_step.shutdown) (simp add: st)
  moreover have "loop_step env ?a4 ?a5"
    by (rule loop_step.drain) (simp_all add: st)
  moreover have "loop_step env ?a5 ?a6"
    by (rule loop_step.drain_write) (simp_all add: st)
  moreover have "loop_step env ?a6 ?a7"
    using loop_step.drain_encode [of ?a6 env] assms by (simp add: st two)
  moreover have "loop_step env ?a7 ?a8"
    by (rule loop_step.drain_rename) (simp add: st)
  moreover have "loop_step env ?a8 ?a9"
    by (rule loop_step.persist_rename) (simp add: st)
  ultimately have "(loop_step env)\<^sup>*\<^sup>* (initLoop dms t disk) ?a9"
    using reach by (meson rtranclp.rtrancl_into_rtrancl)
  moreover have "overwritten env dms w1 o1 w2 o2 ?a9"
    by (simp add: overwritten_def st two)
  ultimately show ?thesis by blast
qed

end
