(* ===== verification/Persistence.thy ===== *)
theory Persistence
  imports WriteLoop
begin

text \<open>
  \<open>persist\<close>, \<open>restore\<close> and \<open>NewDiskMetricStore\<close> of storage/diskmetricstore.go.  The file system is a
  map from names to contents.  The outcome of each call to package \<open>os\<close>, which may fail, is an argument,
  and so are the two directions of package \<open>gob\<close>.  \<open>persist\<close> returns the state of the file system after
  each of its calls, because the process may die between any two of them.
\<close>

section \<open>Writing the file\<close>

type_synonym files = "(string, string) fmap"

text \<open>
  The outcomes: the name of the temporary file or an error; what the temporary file holds after each write of
  the encoder, before the last one; the error of an encoding that fails; the errors of closing, of
  removing the temporary file, which is ignored, and of renaming.
\<close>

record persist_io =
  ioCreateTemp :: "string + string"
  ioWrites :: "string list"
  ioEncodeFails :: "string option"
  ioCloseFails :: "string option"
  ioRemoveFails :: "string option"
  ioRenameFails :: "string option"

definition persist ::
  "(GroupingKeyToMetricGroup \<Rightarrow> string) \<Rightarrow> persist_io \<Rightarrow> DiskMetricStore \<Rightarrow> files \<Rightarrow> files list \<times> string option" where
  "persist encode io dms files =
     (if persistenceFile dms = '''' then ([], None)
      else (case ioCreateTemp io of
              Inl err \<Rightarrow> ([], Some err)
            | Inr tmp \<Rightarrow>
                let contents = '''' # ioWrites io; partial = map (\<lambda>b. fmupd tmp b files) contents;
                    removed = (\<lambda>fs. if ioRemoveFails io = None then fmdrop tmp fs else fs) in
                (case ioEncodeFails io of
                   Some err \<Rightarrow> (partial @ [removed (fmupd tmp (last contents) files)], Some err)
                 | None \<Rightarrow>
                     let bytes = encode (metricGroups dms); written = fmupd tmp bytes files in
                     (case ioCloseFails io of
                        Some err \<Rightarrow> (partial @ [written, removed written], Some err)
                      | None \<Rightarrow>
                          (case ioRenameFails io of
                             Some err \<Rightarrow> (partial @ [written], Some err)
                           | None \<Rightarrow> (partial @ [written, fmupd (persistenceFile dms) bytes (fmdrop tmp files)], None))))))"

section \<open>Reading the file\<close>

text \<open>
  \<open>os.Open\<close> may fail for other reasons than a missing file.  Decoding fills the groups of the store,
  which are empty at that point, and may stop with an error in between.
\<close>

definition restore ::
  "(string \<Rightarrow> GroupingKeyToMetricGroup \<times> string option) \<Rightarrow> string option \<Rightarrow> DiskMetricStore \<Rightarrow> files \<Rightarrow>
   DiskMetricStore \<times> string option" where
  "restore decode openFails dms files =
     (if persistenceFile dms = '''' then (dms, None)
      else (case fmlookup files (persistenceFile dms) of
              None \<Rightarrow> (dms, None)
            | Some bytes \<Rightarrow>
                (case openFails of
                   Some err \<Rightarrow> (dms, Some err)
                 | None \<Rightarrow>
                     (case decode bytes of (groups, err) \<Rightarrow> (dms\<lparr>metricGroups := groups\<rparr>, err)))))"

text \<open>\<open>NewDiskMetricStore\<close> up to the start of the loop: errors are logged, never returned.\<close>

definition NewDiskMetricStore ::
  "(string \<Rightarrow> GroupingKeyToMetricGroup \<times> string option) \<Rightarrow> string option \<Rightarrow>
   (string + MetricFamily list) option \<Rightarrow> string \<Rightarrow> files \<Rightarrow> DiskMetricStore \<times> string list" where
  "NewDiskMetricStore decode openFails gathered file files =
     (case restore decode openFails \<lparr>metricGroups = fmempty, persistenceFile = file, predefinedHelp = fmempty\<rparr> files of
        (dms, restoreErr) \<Rightarrow>
          let log1 = (case restoreErr of None \<Rightarrow> [] | Some err \<Rightarrow> [err]) in
          (case extractPredefinedHelpStrings gathered of
             Inr helpStrings \<Rightarrow> (dms\<lparr>predefinedHelp := helpStrings\<rparr>, log1)
           | Inl err \<Rightarrow> (dms, log1 @ [err])))"

section \<open>The gob adapters\<close>

text \<open>
  \<open>GobEncode\<close> and \<open>GobDecode\<close> of storage/interface.go, by which \<open>gob\<close> writes a family as its protobuf encoding.  The
  protobuf library, and what \<open>gob\<close> does with the adapters, are parameters.
\<close>

record proto_lib =
  protoMarshal :: "MetricFamily \<Rightarrow> string + string"
  protoUnmarshal :: "string \<Rightarrow> string + MetricFamily"

definition GobEncode :: "proto_lib \<Rightarrow> MetricFamily \<Rightarrow> string + string" where
  "GobEncode lib gmf = protoMarshal lib gmf"

definition GobDecode :: "proto_lib \<Rightarrow> string \<Rightarrow> string + MetricFamily" where
  "GobDecode lib b = protoUnmarshal lib b"

text \<open>
  \<open>MetricFamiliesMap\<close> of testutil/metric\_families.go, which copies each family by encoding and decoding it; \<open>None\<close> where
  it panics.  If decoding undoes encoding, it files the families under their names, the last of a name winning.
\<close>

fun copyFamilies ::
  "proto_lib \<Rightarrow> MetricFamily list \<Rightarrow> (string, MetricFamily) fmap \<Rightarrow> (string, MetricFamily) fmap option" where
  "copyFamilies lib [] m = Some m"
| "copyFamilies lib (mf # mfs) m =
     (case protoMarshal lib mf of
        Inl err \<Rightarrow> None
      | Inr buf \<Rightarrow>
          (case protoUnmarshal lib buf of
             Inl err \<Rightarrow> None
           | Inr mfCopy \<Rightarrow> copyFamilies lib mfs (fmupd (GetFamilyName mf) mfCopy m)))"

definition MetricFamiliesMap :: "proto_lib \<Rightarrow> MetricFamily list \<Rightarrow> (string, MetricFamily) fmap option" where
  "MetricFamiliesMap lib mfs = copyFamilies lib mfs fmempty"

lemma find_append: "find P (xs @ ys) = (case find P xs of None \<Rightarrow> find P ys | Some x \<Rightarrow> Some x)"
  by (induction xs) simp_all

lemma MetricFamiliesMap_lookup:
  assumes "\<And>mf. \<exists>b. protoMarshal lib mf = Inr b \<and> protoUnmarshal lib b = Inr mf"
  shows "\<exists>m. MetricFamiliesMap lib mfs = Some m \<and> fmlookup m n = find (\<lambda>mf. GetFamilyName mf = n) (rev mfs)"
proof -
  have "\<exists>m'. copyFamilies lib mfs m = Some m' \<and>
      fmlookup m' n = (case find (\<lambda>mf. GetFamilyName mf = n) (rev mfs) of None \<Rightarrow> fmlookup m n | Some mf \<Rightarrow> Some mf)" for m
  proof (induction mfs arbitrary: m)
    case (Cons mf mfs)
    obtain b where b: "protoMarshal lib mf = Inr b" "protoUnmarshal lib b = Inr mf" using assms by blast
    obtain m' where "copyFamilies lib mfs (fmupd (GetFamilyName mf) mf m) = Some m'"
      "fmlookup m' n = (case find (\<lambda>mf. GetFamilyName mf = n) (rev mfs) of
         None \<Rightarrow> fmlookup (fmupd (GetFamilyName mf) mf m) n | Some mf \<Rightarrow> Some mf)"
      using Cons.IH by blast
    then show ?case using b by (simp add: find_append split: option.split)
  qed simp
  from this [of fmempty] show ?thesis by (simp add: MetricFamiliesMap_def split: option.splits)
qed

record gob_lib =
  gobEncode :: "(MetricFamily \<Rightarrow> string + string) \<Rightarrow> GroupingKeyToMetricGroup \<Rightarrow> string + string"
  gobDecode :: "(string \<Rightarrow> string + MetricFamily) \<Rightarrow> string \<Rightarrow> GroupingKeyToMetricGroup \<times> string option"

text \<open>What is documented of \<open>gob\<close>: if the adapters undo each other on the families of a value, so does \<open>gob\<close> on the value.\<close>

definition gob_ok :: "gob_lib \<Rightarrow> bool" where
  "gob_ok lib \<longleftrightarrow> (\<forall>enc dec groups.
     (\<forall>g \<in> fmran' groups. \<forall>tmf \<in> fmran' (mgMetrics g). \<forall>mf. tmfFamily tmf = Some mf \<longrightarrow> (\<exists>b. enc mf = Inr b \<and> dec b = Inr mf)) \<longrightarrow>
     (\<exists>b. gobEncode lib enc groups = Inr b \<and> gobDecode lib dec b = (groups, None)))"

text \<open>With the adapters of the code, the encoding of the groups is undone by decoding it.\<close>

lemma gob_adapters_roundtrip:
  assumes "gob_ok lib" "\<And>mf. \<exists>b. protoMarshal pl mf = Inr b \<and> protoUnmarshal pl b = Inr mf"
  shows "\<exists>b. gobEncode lib (GobEncode pl) groups = Inr b \<and> gobDecode lib (GobDecode pl) b = (groups, None)"
  using assms by (auto simp: gob_ok_def GobEncode_def GobDecode_def)

section \<open>Lemmas\<close>

lemma restore_config: "persistenceFile (fst (restore decode openFails dms files)) = persistenceFile dms"
  by (simp add: restore_def split: option.split prod.split)

lemma NewDiskMetricStore_groups:
  "metricGroups (fst (NewDiskMetricStore decode openFails gathered file files)) =
     metricGroups (fst (restore decode openFails \<lparr>metricGroups = fmempty, persistenceFile = file, predefinedHelp = fmempty\<rparr> files))"
  by (simp add: NewDiskMetricStore_def Let_def split: prod.split sum.split)

text \<open>Later families win, so the predefined help string of a name is that of its last family.\<close>

lemma predefined_lookup:
  "extractPredefinedHelpStrings (Some (Inr mfs)) = Inr m \<Longrightarrow>
   fmlookup m n = map_option GetHelp (find (\<lambda>mf. GetFamilyName mf = n) (rev mfs))"
proof -
  have "fmlookup (fold (\<lambda>mf result. fmupd (GetFamilyName mf) (GetHelp mf) result) mfs fmempty) n =
      map_option GetHelp (find (\<lambda>mf. GetFamilyName mf = n) (rev mfs))"
    by (induction mfs rule: rev_induct) simp_all
  then show "extractPredefinedHelpStrings (Some (Inr mfs)) = Inr m \<Longrightarrow> ?thesis"
    by (auto simp: extractPredefinedHelpStrings_def)
qed

text \<open>The persistence file is changed by the rename alone, and then at once.\<close>

lemma persist_states:
  assumes "persistenceFile dms \<noteq> ''''" "\<And>tmp. ioCreateTemp io = Inr tmp \<Longrightarrow> tmp \<noteq> persistenceFile dms"
    and "persist encode io dms files = (states, err)"
  shows "f \<in> set states \<Longrightarrow> fmlookup f (persistenceFile dms) = fmlookup files (persistenceFile dms) \<or>
      fmlookup f (persistenceFile dms) = Some (encode (metricGroups dms))"
    and "fmlookup (last (files # states)) (persistenceFile dms) =
      (if err = None then Some (encode (metricGroups dms)) else fmlookup files (persistenceFile dms))"
  using assms by (auto simp: persist_def Let_def split: sum.splits option.splits if_splits)

text \<open>
  After an error the temporary file is gone, unless the rename or the removal has failed; everything else is as
  it was.
\<close>

lemma persist_leaves_temp_file:
  assumes "persistenceFile dms \<noteq> ''''" "ioCreateTemp io = Inr tmp" "fmlookup files tmp = None"
    and "snd (persist encode io dms files) = Some err"
  shows "fmdrop tmp (last (files # fst (persist encode io dms files))) = files \<and>
    (last (files # fst (persist encode io dms files)) = files \<longleftrightarrow>
       ioRemoveFails io = None \<and> (ioEncodeFails io \<noteq> None \<or> ioCloseFails io \<noteq> None))"
proof -
  have drop: "fmdrop tmp files = files" "fmdrop tmp (fmupd tmp b files) = files" for b
    using assms(3) by (intro fmap_ext; simp)+
  have put: "fmupd tmp b files \<noteq> files" for b using assms(3) by (metis fmupd_lookup option.distinct(1))
  show ?thesis using assms(1,2,4) drop put
    by (auto simp: persist_def Let_def split: option.splits prod.splits)
qed

section \<open>Properties\<close>

text \<open>
  C16. Wherever the process dies inside \<open>persist\<close>, and whatever call fails, the persistence file holds
  either what it held before or the complete new encoding; it holds the new one if \<open>persist\<close> returns
  without error, and the old one otherwise.
\<close>

theorem persist_is_atomic:
  assumes "persistenceFile dms \<noteq> ''''" "\<And>tmp. ioCreateTemp io = Inr tmp \<Longrightarrow> tmp \<noteq> persistenceFile dms"
    and "persist encode io dms files = (states, err)"
  shows "list_all (\<lambda>f. fmlookup f (persistenceFile dms) = fmlookup files (persistenceFile dms) \<or>
       fmlookup f (persistenceFile dms) = Some (encode (metricGroups dms))) states \<and>
    fmlookup (last (files # states)) (persistenceFile dms) =
      (if err = None then Some (encode (metricGroups dms)) else fmlookup files (persistenceFile dms))"
  using persist_states [OF assms] by (simp add: list_all_iff)

theorem persist_is_atomic_witness:
  "fmlookup (last (fmempty # fst (persist (\<lambda>g. ''new'')
      \<lparr>ioCreateTemp = Inr ''f.in_progress.1'', ioWrites = [''n'', ''ne''], ioEncodeFails = None, ioCloseFails = None,
        ioRemoveFails = None, ioRenameFails = None\<rparr>
      \<lparr>metricGroups = fmempty, persistenceFile = ''f'', predefinedHelp = fmempty\<rparr> fmempty))) ''f'' = Some ''new''"
  using persist_is_atomic [of "\<lparr>metricGroups = fmempty, persistenceFile = ''f'', predefinedHelp = fmempty\<rparr>"
      "\<lparr>ioCreateTemp = Inr ''f.in_progress.1'', ioWrites = [''n'', ''ne''], ioEncodeFails = None, ioCloseFails = None,
        ioRemoveFails = None, ioRenameFails = None\<rparr>"
      "\<lambda>g. ''new''" fmempty, OF _ _ prod.collapse [symmetric]]
  by (simp add: persist_def Let_def)

text \<open>
  A restart restores what was persisted: if \<open>gob\<close> decodes what it encoded, then after a \<open>persist\<close>
  without error a new store on the same file has the same groups, and nothing is logged about them.
\<close>

lemma restart_restores_groups:
  assumes codec: "decode (encode (metricGroups dms)) = (metricGroups dms, None)"
    and path: "persistenceFile dms \<noteq> ''''" "\<And>tmp. ioCreateTemp io = Inr tmp \<Longrightarrow> tmp \<noteq> persistenceFile dms"
    and ok: "snd (persist encode io dms files) = None"
  shows "metricGroups (fst (NewDiskMetricStore decode None None (persistenceFile dms)
      (last (files # fst (persist encode io dms files))))) = metricGroups dms \<and>
    snd (NewDiskMetricStore decode None None (persistenceFile dms)
      (last (files # fst (persist encode io dms files)))) = []"
proof -
  have "fmlookup (last (files # fst (persist encode io dms files))) (persistenceFile dms) = Some (encode (metricGroups dms))"
    using persist_states(2) [OF path prod.collapse [symmetric]] ok by simp
  then show ?thesis
    using path(1) codec by (simp add: NewDiskMetricStore_def restore_def extractPredefinedHelpStrings_def Let_def)
qed

end
