(* ===== verification/LoopProps.thy ===== *)
theory LoopProps
  imports Persistence
begin

text \<open>
  What the write loop guarantees in every interleaving, as consequences of the invariants of
  WriteLoop, and three schedules in which it does less than its comments say.
\<close>

section \<open>Concrete inputs\<close>

definition sample_env :: loop_env where
  "sample_env = \<lparr>envConsts = prom_consts, envGather = (\<lambda>mfs. None), envInterval = 300000000000\<rparr>"

definition sample_store :: DiskMetricStore where
  "sample_store = \<lparr>metricGroups = fmempty, persistenceFile = ''f'', predefinedHelp = fmempty\<rparr>"

definition sample_push :: WriteRequest where
  "sample_push = push_of ''j'' 5 fmempty True"

definition sample_delete :: WriteRequest where
  "sample_delete = (delete_of ''j'' 6)\<lparr>wrDone := Some 1\<rparr>"

abbreviation sample_start :: loop_state where
  "sample_start \<equiv> initLoop sample_store 0 None"

lemma sample_file: "persistenceFile sample_store \<noteq> ''''"
  by (simp add: sample_store_def)

text \<open>After the push the group is there, after the deletion it is gone.\<close>

lemma sample_groups:
  "metricGroups (runWrites sample_env [(sample_push, sortedOrder)] sample_store) \<noteq> fmempty"
  "metricGroups (runWrites sample_env [(sample_push, sortedOrder), (sample_delete, sortedOrder)] sample_store) = fmempty"
proof -
  let ?d = "runWrites sample_env [(sample_push, sortedOrder)] sample_store"
  have acc: "accepted prom_consts (\<lambda>mfs. None) sortedOrder sample_store sample_push"
    by (simp add: accepted_iff gatherStore_def sample_push_def timestampsPresent_iff)
  have d: "?d = sanitizedUpdate prom_consts sample_store sample_push fmempty"
    using acc by (simp add: runWrites_def sample_env_def handleWrite_store) (simp add: sample_push_def)
  then obtain g where g: "metricGroups ?d = fmupd (keyOf prom_consts sample_push) g fmempty"
    by (simp add: sanitizedUpdate_def sanitizeRequest_def store_simps sample_push_def sample_store_def)
  then show "metricGroups ?d \<noteq> fmempty" by (metis fmdom'_empty fmdom'_fmupd insert_not_empty)
  have "keyOf prom_consts sample_delete = keyOf prom_consts sample_push"
    by (simp add: keyOf_def sample_push_def sample_delete_def)
  moreover have "wrMetricFamilies sample_delete = None" by (simp add: sample_delete_def)
  ultimately have "metricGroups (fst (handleWrite prom_consts (\<lambda>mfs. None) sortedOrder ?d sample_delete)) = fmempty"
    using g by (simp add: handleWrite_store accepted_iff store_simps) (rule fmap_ext, simp)
  then show "metricGroups (runWrites sample_env [(sample_push, sortedOrder), (sample_delete, sortedOrder)] sample_store) = fmempty"
    by (simp add: runWrites_def sample_env_def)
qed

lemma sample_forgotten:
  "\<exists>s. (loop_step sample_env)\<^sup>*\<^sup>* sample_start s \<and>
     forgotten sample_env sample_store sample_push sortedOrder sample_delete sortedOrder s"
  by (rule reach_forgotten [OF sample_file])

lemma initLoop_is_init: "zeroTime \<le> t \<Longrightarrow> is_init dms disk (initLoop dms t disk)"
  by (auto simp: is_init_def)

section \<open>Properties\<close>

text \<open>
  C1. Requests are processed in the order of submission, none lost and none twice: at any moment those
  submitted are those applied, the one in the works, and those in the queue, in that order; the
  store is the result of handling the applied ones one after the other; the queue never exceeds its
  capacity.
\<close>

theorem requests_processed_in_order:
  assumes "zeroTime \<le> t" "(loop_step env)\<^sup>*\<^sup>* (initLoop dms t disk) s"
  shows "lsSubmitted s = map fst (lsApplied s) @ inFlight (lsPc s) @ lsQueue s \<and>
    lsStore s = fold (\<lambda>(wr, order) d. fst (handleWrite (envConsts env) (envGather env) order d wr)) (lsApplied s) dms \<and>
    length (lsQueue s) \<le> writeQueueCapacity"
  using fifo.inv_reachable [OF initLoop_is_init [OF assms(1)] assms(2)]
  by (simp add: fifo_inv_def runWrites_def)

theorem requests_processed_in_order_witness:
  "\<exists>s. (loop_step sample_env)\<^sup>*\<^sup>* sample_start s \<and> lsSubmitted s = [sample_push, sample_delete] \<and>
     length (lsQueue s) \<le> writeQueueCapacity"
proof -
  obtain s where s: "(loop_step sample_env)\<^sup>*\<^sup>* sample_start s"
    "forgotten sample_env sample_store sample_push sortedOrder sample_delete sortedOrder s"
    using sample_forgotten by blast
  have "zeroTime \<le> 0" by (simp add: zeroTime_def)
  from requests_processed_in_order [OF this s(1)] s show ?thesis
    by (intro exI [of _ s]) (simp add: forgotten_def)
qed

text \<open>
  At every moment the persistence file holds what it held at the start or the groups of the store
  as they were after some prefix of the applied requests, never a mixture.
\<close>

lemma disk_is_a_past_store:
  assumes "zeroTime \<le> t" "(loop_step env)\<^sup>*\<^sup>* (initLoop dms t disk) s"
  shows "lsDisk s = disk \<or> (\<exists>k \<le> length (lsApplied s).
    lsDisk s = Some (metricGroups (runWrites env (take k (lsApplied s)) dms)))"
  using snapshots.inv_reachable [OF initLoop_is_init [OF assms(1)] assms(2)]
  by (auto simp: snapshot_inv_def snapshot_of_def)

text \<open>
  C27. Whenever the loop waits for its next event and the last request was stamped after the start
  of the last finished persist, another persist is scheduled.
\<close>

theorem late_write_is_scheduled:
  assumes "zeroTime \<le> t" "(loop_step env)\<^sup>*\<^sup>* (initLoop dms t disk) s"
    and "lsPc s = AtSelect" "persistenceFile (lsStore s) \<noteq> ''''" "lsLastPersist s < lsLastWrite s"
  shows "lsScheduled s \<and> lsPersist s \<noteq> NoPersist"
  using schedule.inv_reachable [OF initLoop_is_init [OF assms(1)] assms(2)] assms(3-)
  by (auto simp: schedule_inv_def)

theorem late_write_is_scheduled_witness:
  "\<exists>s. (loop_step sample_env)\<^sup>*\<^sup>* sample_start s \<and> lsLastPersist s < lsLastWrite s \<and> lsScheduled s"
proof -
  obtain w n where n: "0 < n" and s: "(loop_step sample_env)\<^sup>*\<^sup>* sample_start
      (armedState sample_env sample_store 0 None sample_push sortedOrder w n)"
    using reach_armed [OF sample_file] by metis
  let ?s = "armedState sample_env sample_store 0 None sample_push sortedOrder w n"
  have "lsPc ?s = AtSelect" "persistenceFile (lsStore ?s) \<noteq> ''''" "lsLastPersist ?s < lsLastWrite ?s"
    by (simp_all add: armedState_def initLoop_def sample_file)
  moreover have "zeroTime \<le> 0" by (simp add: zeroTime_def)
  ultimately show ?thesis
    using late_write_is_scheduled [OF _ s] s by blast
qed

text \<open>
  C15. If \<open>Shutdown\<close> returns nil, and no persist was running when the loop began to drain, then
  the persistence file holds the final store, which has handled everything submitted except what
  came after the queue was empty.
\<close>

theorem shutdown_persists_final_store:
  assumes "zeroTime \<le> t" "(loop_step env)\<^sup>*\<^sup>* (initLoop dms t disk) s"
    and "lsPc s = Draining" "quiet (lsPersist s)"
    and "(loop_step env)\<^sup>*\<^sup>* s s'" "lsPc s' = Finished True" "persistenceFile (lsStore s') \<noteq> ''''"
  shows "lsDisk s' = Some (metricGroups (lsStore s')) \<and>
    lsStore s' = runWrites env (lsApplied s') dms \<and> lsSubmitted s' = map fst (lsApplied s') @ lsQueue s'"
proof -
  have "drain_inv s'" using assms(3-5) by (intro quiet_drain.inv_reachable) simp_all
  moreover have "fifo_inv env dms s'"
    using fifo.inv_reachable [OF initLoop_is_init [OF assms(1)] rtranclp_trans [OF assms(2,5)]] .
  ultimately show ?thesis using assms(6,7) by (simp add: drain_inv_def fifo_inv_def)
qed

theorem shutdown_persists_final_store_witness:
  "\<exists>s'. (loop_step sample_env)\<^sup>*\<^sup>* sample_start s' \<and> lsPc s' = Finished True \<and>
     lsDisk s' = Some (metricGroups (lsStore s'))"
proof -
  let ?s1 = "Shutdown sample_start"
  let ?s2 = "startDrain ?s1"
  let ?s3 = "?s2\<lparr>lsPc := FinalEncoded fmempty\<rparr>"
  let ?s4 = "?s3\<lparr>lsDisk := Some fmempty, lsPc := Finished True\<rparr>"
  note st = initLoop_def loop_ops sample_store_def
  have "loop_step sample_env sample_start ?s1" by (rule loop_step.shutdown) (simp add: st)
  moreover have "loop_step sample_env ?s1 ?s2" by (rule loop_step.drain) (simp_all add: st)
  ultimately have r1: "(loop_step sample_env)\<^sup>*\<^sup>* sample_start ?s2"
    by (meson rtranclp.rtrancl_into_rtrancl rtranclp.rtrancl_refl)
  have "loop_step sample_env ?s2 ?s3" using loop_step.drain_encode [of ?s2 sample_env] by (simp add: st)
  moreover have "loop_step sample_env ?s3 ?s4" by (rule loop_step.drain_rename) (simp add: st)
  ultimately have r2: "(loop_step sample_env)\<^sup>*\<^sup>* ?s2 ?s4"
    by (meson rtranclp.rtrancl_into_rtrancl rtranclp.rtrancl_refl)
  have "zeroTime \<le> 0" by (simp add: zeroTime_def)
  from shutdown_persists_final_store [OF this r1 _ _ r2]
  have "lsDisk ?s4 = Some (metricGroups (lsStore ?s4))" by (simp add: st)
  moreover have "(loop_step sample_env)\<^sup>*\<^sup>* sample_start ?s4" using r1 r2 by (rule rtranclp_trans)
  moreover have "lsPc ?s4 = Finished True" by simp
  ultimately show ?thesis by blast
qed

text \<open>
  Until the loop drains, the answer channels of all applied requests are closed, each once and in
  the order of the requests.
\<close>

lemma done_channels_closed:
  assumes "zeroTime \<le> t" "(loop_step env)\<^sup>*\<^sup>* (initLoop dms t disk) s" "\<not> draining (lsPc s)"
  shows "lsClosed s = concat (map (\<lambda>(wr, order). case wrDone wr of None \<Rightarrow> [] | Some c \<Rightarrow> [c]) (lsApplied s))"
proof -
  have "(\<lambda>(wr, order). case wrDone wr of None \<Rightarrow> [] | Some c \<Rightarrow> [c]) =
      doneOf \<circ> (fst :: WriteRequest \<times> order_choice \<Rightarrow> WriteRequest)"
    by (auto simp: doneOf_def)
  then show ?thesis
    using closing.inv_reachable [OF initLoop_is_init [OF assms(1)] assms(2)] assms(3)
    unfolding closed_inv_def by (simp only: simp_thms)
qed

text \<open>
  C38. A request can miss the persistence file although nothing is left to do: it is stamped, the running
  persist takes its snapshot, it is applied, and when the persist reports, its start is not before the
  stamp, so no further persist is scheduled until another request arrives.
\<close>

theorem write_can_miss_the_disk:
  assumes "persistenceFile dms \<noteq> ''''"
  shows "\<exists>s. (loop_step env)\<^sup>*\<^sup>* (initLoop dms t disk) s \<and>
    lsPc s = AtSelect \<and> lsQueue s = [] \<and> lsPersist s = NoPersist \<and>
    lsStore s = runWrites env [(w1, o1), (w2, o2)] dms \<and>
    lsDisk s = Some (metricGroups (runWrites env [(w1, o1)] dms))"
  using reach_forgotten [OF assms, of env t disk w1 o1 w2 o2] unfolding forgotten_def by blast

theorem write_can_miss_the_disk_witness:
  "\<exists>s. (loop_step sample_env)\<^sup>*\<^sup>* sample_start s \<and> lsPersist s = NoPersist \<and> lsQueue s = [] \<and>
     lsDisk s \<noteq> Some (metricGroups (lsStore s))"
proof -
  obtain s where s: "(loop_step sample_env)\<^sup>*\<^sup>* sample_start s" "lsPersist s = NoPersist" "lsQueue s = []"
    "lsStore s = runWrites sample_env [(sample_push, sortedOrder), (sample_delete, sortedOrder)] sample_store"
    "lsDisk s = Some (metricGroups (runWrites sample_env [(sample_push, sortedOrder)] sample_store))"
    using write_can_miss_the_disk [OF sample_file] by blast
  have "lsDisk s \<noteq> Some (metricGroups (lsStore s))" using s(4,5) sample_groups by simp
  then show ?thesis using s(1-3) by blast
qed

text \<open>
  C39. \<open>Shutdown\<close> can return nil and the file still lose the last requests: a persist that was already
  running when the drain began renames its older file over the final one.
\<close>

theorem shutdown_can_be_overwritten:
  assumes "persistenceFile dms \<noteq> ''''"
  shows "\<exists>s. (loop_step env)\<^sup>*\<^sup>* (initLoop dms t disk) s \<and>
    lsPc s = Finished True \<and> lsQueue s = [] \<and>
    lsStore s = runWrites env [(w1, o1), (w2, o2)] dms \<and>
    lsDisk s = Some (metricGroups (runWrites env [(w1, o1)] dms))"
  using reach_overwritten [OF assms, of env t disk w1 o1 w2 o2] unfolding overwritten_def by blast

theorem shutdown_can_be_overwritten_witness:
  "\<exists>s. (loop_step sample_env)\<^sup>*\<^sup>* sample_start s \<and> lsPc s = Finished True \<and>
     lsDisk s \<noteq> Some (metricGroups (lsStore s))"
proof -
  obtain s where s: "(loop_step sample_env)\<^sup>*\<^sup>* sample_start s" "lsPc s = Finished True"
    "lsStore s = runWrites sample_env [(sample_push, sortedOrder), (sample_delete, sortedOrder)] sample_store"
    "lsDisk s = Some (metricGroups (runWrites sample_env [(sample_push, sortedOrder)] sample_store))"
    using shutdown_can_be_overwritten [OF sample_file] by blast
  have "lsDisk s \<noteq> Some (metricGroups (lsStore s))" using s(3,4) sample_groups by simp
  then show ?thesis using s(1,2) by blast
qed

text \<open>A request handled while draining is applied, but its answer channel stays open.\<close>

lemma drained_request_not_answered:
  "\<exists>s. (loop_step sample_env)\<^sup>*\<^sup>* sample_start s \<and> lsPc s = Finished True \<and>
     (sample_delete, sortedOrder) \<in> set (lsApplied s) \<and> wrDone sample_delete = Some 1 \<and> 1 \<notin> set (lsClosed s)"
proof -
  obtain s where s: "(loop_step sample_env)\<^sup>*\<^sup>* sample_start s"
    "overwritten sample_env sample_store sample_push sortedOrder sample_delete sortedOrder s"
    using reach_overwritten [OF sample_file] by blast
  then show ?thesis
    by (intro exI [of _ s]) (simp add: overwritten_def doneOf_def sample_push_def sample_delete_def)
qed

end
