(* ===== verification/Draining.thy ===== *)
theory Draining
  imports LoopProps
begin

text \<open>
  The end of the write loop: once \<open>Shutdown\<close> was called the loop can always run to its end, and once it
  drains it must, whatever the other goroutines do meanwhile.
\<close>

section \<open>A run to the end\<close>

text \<open>A loop that drains and has a file to write to, and its run to the end, in three parts.\<close>

definition drainable :: "loop_state \<Rightarrow> bool" where
  "drainable s \<longleftrightarrow> lsPc s = Draining \<and> persistenceFile (lsStore s) \<noteq> ''''"

lemma file_applyWrite [simp]: "persistenceFile (lsStore (applyWrite env order wr s)) = persistenceFile (lsStore s)"
  by (simp add: applyWrite_def)

lemma applyWrite_rest [simp]:
  "lsApplied (applyWrite env order wr s) = lsApplied s @ [(wr, order)]"
  "lsSubmitted (applyWrite env order wr s) = lsSubmitted s" "lsQueue (applyWrite env order wr s) = lsQueue s"
  "lsDrain (applyWrite env order wr s) = lsDrain s" "lsPc (applyWrite env order wr s) = lsPc s"
  by (simp_all add: applyWrite_def)

lemma drain_at_select:
  assumes "lsDrain s" "lsPc s = AtSelect" "persistenceFile (lsStore s) \<noteq> ''''"
  shows "\<exists>s'. (loop_step env)\<^sup>*\<^sup>* s s' \<and> drainable s' \<and> lsSubmitted s' = lsSubmitted s \<and>
    map fst (lsApplied s') @ lsQueue s' = map fst (lsApplied s) @ lsQueue s"
  using loop_step.drain [OF assms(2,1), of env] assms(3)
  by (intro exI [of _ "startDrain s"]) (simp add: startDrain_def drainable_def)

lemma drain_at_check:
  assumes "lsDrain s" "lsPc s = CheckingPersist" "persistenceFile (lsStore s) \<noteq> ''''"
  shows "\<exists>s'. (loop_step env)\<^sup>*\<^sup>* s s' \<and> drainable s' \<and> lsSubmitted s' = lsSubmitted s \<and>
    map fst (lsApplied s') @ lsQueue s' = map fst (lsApplied s) @ lsQueue s"
proof -
  have "\<exists>s'. (loop_step env)\<^sup>*\<^sup>* (finishCase env s) s' \<and> drainable s' \<and> lsSubmitted s' = lsSubmitted s \<and>
      map fst (lsApplied s') @ lsQueue s' = map fst (lsApplied s) @ lsQueue s"
    using drain_at_select [of "finishCase env s" env] assms by (auto simp: finishCase_def checkPersist_def)
  then show ?thesis using loop_step.finish_case [OF assms(2), of env]
    by (meson converse_rtranclp_into_rtranclp)
qed

lemma reach_drain:
  assumes "lsDrain s" "\<not> draining (lsPc s)" "persistenceFile (lsStore s) \<noteq> ''''"
  shows "\<exists>s'. (loop_step env)\<^sup>*\<^sup>* s s' \<and> drainable s' \<and> lsSubmitted s' = lsSubmitted s \<and>
    map fst (lsApplied s') @ lsQueue s' = map fst (lsApplied s) @ inFlight (lsPc s) @ lsQueue s"
proof (cases "lsPc s")
  case (Processing wr)
  let ?s1 = "processWrite env sortedOrder wr s"
  have "\<exists>s'. (loop_step env)\<^sup>*\<^sup>* ?s1 s' \<and> drainable s' \<and> lsSubmitted s' = lsSubmitted s \<and>
      map fst (lsApplied s') @ lsQueue s' = map fst (lsApplied s) @ wr # lsQueue s"
    using drain_at_check [of ?s1 env] assms(1,3) by (auto simp: processWrite_def Let_def)
  then show ?thesis using loop_step.process [OF Processing, of env sortedOrder] Processing
    by simp (meson converse_rtranclp_into_rtranclp)
qed (use drain_at_select [of s env] drain_at_check [of s env] assms in simp_all)

lemma drain_queue:
  assumes "drainable s"
  shows "\<exists>s'. (loop_step env)\<^sup>*\<^sup>* s s' \<and> drainable s' \<and> lsQueue s' = [] \<and> lsSubmitted s' = lsSubmitted s \<and>
    map fst (lsApplied s') = map fst (lsApplied s) @ lsQueue s"
  using assms
proof (induction "lsQueue s" arbitrary: s)
  case Nil
  then show ?case by (intro exI [of _ s]) simp
next
  case (Cons wr rest)
  let ?s1 = "drainWrite env sortedOrder wr rest s"
  have q: "lsQueue s = wr # rest" using Cons.hyps(2) by simp
  have "drainable ?s1" "rest = lsQueue ?s1" "lsSubmitted ?s1 = lsSubmitted s"
      "map fst (lsApplied ?s1) = map fst (lsApplied s) @ [wr]"
    using Cons.prems by (simp_all add: drainable_def drainWrite_def)
  moreover from this Cons.hyps(1) [of ?s1] obtain s' where "(loop_step env)\<^sup>*\<^sup>* ?s1 s'" "drainable s'" "lsQueue s' = []"
      "lsSubmitted s' = lsSubmitted ?s1" "map fst (lsApplied s') = map fst (lsApplied ?s1) @ lsQueue ?s1" by blast
  moreover have "loop_step env s ?s1"
    using loop_step.drain_write [of s wr rest env sortedOrder] Cons.prems q by (simp add: drainable_def)
  ultimately show ?case using q
    by (intro exI [of _ s']) (auto intro: converse_rtranclp_into_rtranclp)
qed

lemma write_final:
  assumes "drainable s" "lsQueue s = []"
  shows "\<exists>s'. (loop_step env)\<^sup>*\<^sup>* s s' \<and> lsPc s' = Finished True \<and> lsQueue s' = [] \<and> lsSubmitted s' = lsSubmitted s \<and>
    lsApplied s' = lsApplied s \<and> lsDisk s' = Some (metricGroups (lsStore s'))"
proof -
  let ?g = "metricGroups (lsStore s)"
  let ?s1 = "s\<lparr>lsPc := FinalEncoded ?g\<rparr>"
  let ?s2 = "?s1\<lparr>lsDisk := Some ?g, lsPc := Finished True\<rparr>"
  have "loop_step env s ?s1" using assms by (intro loop_step.drain_encode) (simp_all add: drainable_def)
  moreover have "loop_step env ?s1 ?s2" by (rule loop_step.drain_rename) simp
  ultimately have "(loop_step env)\<^sup>*\<^sup>* s ?s2"
    by (meson rtranclp.rtrancl_into_rtrancl rtranclp.rtrancl_refl)
  then show ?thesis using assms(2) by (intro exI [of _ ?s2]) simp
qed

section \<open>Every run ends\<close>

text \<open>
  The work that a draining loop has left.  A step of the loop itself is one that changes where it stands or
  what is queued, without a submission.
\<close>

definition drainWork :: "loop_state \<Rightarrow> nat" where
  "drainWork s = (case lsPc s of Draining \<Rightarrow> length (lsQueue s) + 2 | FinalEncoded g \<Rightarrow> 1 | _ \<Rightarrow> 0)"

definition own_step :: "loop_state \<Rightarrow> loop_state \<Rightarrow> bool" where
  "own_step s s' \<longleftrightarrow> lsPc s' \<noteq> lsPc s \<or> lsQueue s' \<noteq> lsQueue s"

fun ownSteps :: "loop_state list \<Rightarrow> nat" where
  "ownSteps (s # s' # ss) = (if own_step s s' then 1 else 0) + ownSteps (s' # ss)"
| "ownSteps ss = 0"

lemma drainWork_step:
  "loop_step env s s' \<Longrightarrow> draining (lsPc s) \<Longrightarrow> lsSubmitted s' = lsSubmitted s \<Longrightarrow>
   draining (lsPc s') \<and> drainWork s' + (if own_step s s' then 1 else 0) \<le> drainWork s"
  by (erule loop_stepE) (auto simp: drainWork_def own_step_def loop_ops split: loop_pc.splits)

lemma ownSteps_bounded:
  "successively (loop_step env) (s # ss) \<Longrightarrow> draining (lsPc s) \<Longrightarrow> \<forall>s' \<in> set ss. lsSubmitted s' = lsSubmitted s \<Longrightarrow>
   draining (lsPc (last (s # ss))) \<and> ownSteps (s # ss) \<le> drainWork s"
proof (induction ss arbitrary: s)
  case (Cons s' ss)
  then have "draining (lsPc s') \<and> drainWork s' + (if own_step s s' then 1 else 0) \<le> drainWork s"
    by (intro drainWork_step [of env]) simp_all
  moreover from this Cons have "draining (lsPc (last (s' # ss))) \<and> ownSteps (s' # ss) \<le> drainWork s'"
    by (intro Cons.IH) simp_all
  ultimately show ?case by auto
qed simp

lemma drain_progress:
  assumes "draining (lsPc s)" "\<forall>b. lsPc s \<noteq> Finished b"
  shows "\<exists>s'. loop_step env s s' \<and> own_step s s' \<and> lsSubmitted s' = lsSubmitted s"
proof (cases "lsPc s")
  case Draining
  show ?thesis
  proof (cases "lsQueue s")
    case Nil
    then show ?thesis
      using Draining loop_step.drain_no_file [of s env] loop_step.drain_encode [of s env]
      by (cases "persistenceFile (lsStore s) = ''''") (force simp: own_step_def)+
  next
    case (Cons wr rest)
    then show ?thesis
      using loop_step.drain_write [OF Draining Cons, of env sortedOrder]
      by (intro exI [of _ "drainWrite env sortedOrder wr rest s"]) (simp add: own_step_def drainWrite_def)
  qed
next
  case (FinalEncoded g)
  then show ?thesis using loop_step.drain_rename [OF FinalEncoded, of env] by (force simp: own_step_def)
qed (use assms in simp_all)

section \<open>Properties\<close>

text \<open>
  Once \<open>Shutdown\<close> has been called, a loop that has not begun to drain can always finish: without
  any further event but its own steps it handles everything that is queued, in order, and returns
  nil with the final store on disk, when no write to the disk fails.
\<close>

lemma shutdown_completes:
  assumes "lsDrain s" "\<not> draining (lsPc s)" "persistenceFile (lsStore s) \<noteq> ''''"
  shows "\<exists>s'. (loop_step env)\<^sup>*\<^sup>* s s' \<and> lsPc s' = Finished True \<and> lsQueue s' = [] \<and>
    lsSubmitted s' = lsSubmitted s \<and>
    map fst (lsApplied s') = map fst (lsApplied s) @ inFlight (lsPc s) @ lsQueue s \<and>
    lsDisk s' = Some (metricGroups (lsStore s'))"
proof -
  obtain s1 where 1: "(loop_step env)\<^sup>*\<^sup>* s s1" "drainable s1" "lsSubmitted s1 = lsSubmitted s"
    "map fst (lsApplied s1) @ lsQueue s1 = map fst (lsApplied s) @ inFlight (lsPc s) @ lsQueue s"
    using reach_drain [OF assms] by blast
  obtain s2 where 2: "(loop_step env)\<^sup>*\<^sup>* s1 s2" "drainable s2" "lsQueue s2 = []" "lsSubmitted s2 = lsSubmitted s1"
    "map fst (lsApplied s2) = map fst (lsApplied s1) @ lsQueue s1"
    using drain_queue [OF 1(2)] by blast
  obtain s3 where "(loop_step env)\<^sup>*\<^sup>* s2 s3" "lsPc s3 = Finished True" "lsQueue s3 = []"
    "lsSubmitted s3 = lsSubmitted s2" "lsApplied s3 = lsApplied s2" "lsDisk s3 = Some (metricGroups (lsStore s3))"
    using write_final [OF 2(2,3)] by blast
  then show ?thesis using 1 2 by (intro exI [of _ s3]) (auto intro: rtranclp_trans)
qed

text \<open>
  C20. A draining loop ends: in a run with no further submission it takes at most two more steps than
  requests are queued, however the persist timer and the clock interleave, and unless it has
  finished it can take another one.
\<close>

theorem drain_terminates:
  assumes "successively (loop_step env) (s # ss)" "draining (lsPc s)" "\<forall>s' \<in> set ss. lsSubmitted s' = lsSubmitted s"
  shows "ownSteps (s # ss) \<le> length (lsQueue s) + 2 \<and>
    ((\<exists>b. lsPc (last (s # ss)) = Finished b) \<or>
     (\<exists>s'. loop_step env (last (s # ss)) s' \<and> own_step (last (s # ss)) s' \<and> lsSubmitted s' = lsSubmitted s))"
proof -
  have "draining (lsPc (last (s # ss)))" "ownSteps (s # ss) \<le> drainWork s"
    using ownSteps_bounded [OF assms] by simp_all
  moreover have "drainWork s \<le> length (lsQueue s) + 2" by (simp add: drainWork_def split: loop_pc.split)
  moreover have "lsSubmitted (last (s # ss)) = lsSubmitted s" using assms(3) by simp
  moreover note drain_progress [of "last (s # ss)" env]
  ultimately show ?thesis by (metis le_trans)
qed

theorem drain_terminates_witness:
  "\<exists>ss. successively (loop_step sample_env) (startDrain (Shutdown (sample_start\<lparr>lsQueue := [sample_push]\<rparr>)) # ss) \<and>
     length ss = 3 \<and> ownSteps (startDrain (Shutdown (sample_start\<lparr>lsQueue := [sample_push]\<rparr>)) # ss) \<le> 3"
proof -
  define s where "s = startDrain (Shutdown (sample_start\<lparr>lsQueue := [sample_push]\<rparr>))"
  define s1 where "s1 = drainWrite sample_env sortedOrder sample_push [] s"
  define s2 where "s2 = s1\<lparr>lsPc := FinalEncoded (metricGroups (lsStore s1))\<rparr>"
  define s3 where "s3 = s2\<lparr>lsDisk := Some (metricGroups (lsStore s1)), lsPc := Finished True\<rparr>"
  have s: "lsPc s = Draining" "lsQueue s = [sample_push]" "persistenceFile (lsStore s) \<noteq> ''''"
    by (simp_all add: s_def startDrain_def Shutdown_def initLoop_def sample_file)
  then have s1: "lsPc s1 = Draining" "lsQueue s1 = []" "persistenceFile (lsStore s1) \<noteq> ''''" "lsSubmitted s1 = lsSubmitted s"
    by (simp_all add: s1_def drainWrite_def)
  have "loop_step sample_env s s1" unfolding s1_def using s(1,2) by (rule loop_step.drain_write)
  moreover have "loop_step sample_env s1 s2" unfolding s2_def using s1(1-3) by (rule loop_step.drain_encode)
  moreover have "loop_step sample_env s2 s3" unfolding s3_def by (rule loop_step.drain_rename) (simp add: s2_def)
  ultimately have run: "successively (loop_step sample_env) (s # [s1, s2, s3])" by simp
  have "\<forall>s' \<in> set [s1, s2, s3]. lsSubmitted s' = lsSubmitted s" using s1(4) by (simp add: s2_def s3_def)
  from drain_terminates [OF run _ this] have "ownSteps (s # [s1, s2, s3]) \<le> 3" using s(1,2) by simp
  then show ?thesis using run unfolding s_def [symmetric] by (intro exI [of _ "[s1, s2, s3]"]) simp
qed

end
