(* ===== verification/Handlers.thy ===== *)
theory Handlers
  imports UrlLabels Draining
begin

text \<open>
  The HTTP handlers that change the store or report on it: handler/push.go, handler/delete.go,
  handler/wipe.go and handler/misc.go.  A handler is a function from the parts of the request it
  reads to the write requests it submits and the reply.  Parsing a body is library code: the media
  type parser, the delimited protobuf reader and the text parser are parameters.
\<close>

section \<open>Requests and replies\<close>

text \<open>
  A body is what can be read of it and the error that ends it, or \<open>None\<close> at a regular end: the connection
  may break, and compressed data may be corrupt in the middle.
\<close>

type_synonym body = "string \<times> string option"

record http_request =
  reqJob :: string
  reqLabels :: string
  reqContentType :: string
  reqBody :: body

text \<open>
  The libraries: \<open>mime.ParseMediaType\<close> (nothing on an error), the messages that \<open>protodelim\<close> reads
  before its first error together with that error unless it is the end of the input, and
  \<open>TextToMetricFamilies\<close>, whose map is never nil.
\<close>

record handler_env =
  hvConsts :: model_consts
  hvSyntax :: label_syntax
  ParseMediaType :: "string \<Rightarrow> (string \<times> (string, string) fmap) option"
  UnmarshalDelimited :: "body \<Rightarrow> MetricFamily list \<times> string option"
  TextToMetricFamilies :: "body \<Rightarrow> string + (string, MetricFamily) fmap"

datatype push_error =
    BadJobBase64 string nat
  | BadLabels url_error
  | JobRequired
  | BadBody string
  | Inconsistent string

datatype reply = StatusOK | StatusAccepted | BadRequest push_error | ServerError string

fun statusCode :: "reply \<Rightarrow> nat" where
  "statusCode StatusOK = 200"
| "statusCode StatusAccepted = 202"
| "statusCode (BadRequest e) = 400"
| "statusCode (ServerError e) = 500"

section \<open>The target of a push or a deletion\<close>

text \<open>The message about a job name in bad base64 shows what was decoded of it.\<close>

definition targetLabels :: "handler_env \<Rightarrow> bool \<Rightarrow> http_request \<Rightarrow> push_error + labels" where
  "targetLabels env jobBase64Encoded r =
     (let (job, jobErr) = (if jobBase64Encoded then decodeBase64 (reqJob r) else (reqJob r, None)) in
      case jobErr of
        Some offset \<Rightarrow> Inl (BadJobBase64 job offset)
      | None \<Rightarrow>
          (case splitLabels (hvConsts env) (hvSyntax env) (reqLabels r) of
             Inl err \<Rightarrow> Inl (BadLabels err)
           | Inr lbls \<Rightarrow> if job = '''' then Inl JobRequired else Inr (fmupd ''job'' job lbls)))"

section \<open>Push\<close>

definition isDelimitedProto :: "(string \<times> (string, string) fmap) option \<Rightarrow> bool" where
  "isDelimitedProto ct = (case ct of None \<Rightarrow> False | Some (ctMediatype, ctParams) \<Rightarrow>
     ctMediatype = ''application/vnd.google.protobuf'' \<and>
     fmlookup ctParams ''encoding'' = Some ''delimited'' \<and>
     fmlookup ctParams ''proto'' = Some ''io.prometheus.client.MetricFamily'')"

text \<open>A later message replaces an earlier one of the same name.\<close>

definition parseBody :: "handler_env \<Rightarrow> http_request \<Rightarrow> string + (string, MetricFamily) fmap" where
  "parseBody env r =
     (if isDelimitedProto (ParseMediaType env (reqContentType r))
      then (case UnmarshalDelimited env (reqBody r) of
              (mfs, err) \<Rightarrow>
                (let metricFamilies = fold (\<lambda>mf m. fmupd (GetFamilyName mf) mf m) mfs fmempty in
                 case err of Some e \<Rightarrow> Inl e | None \<Rightarrow> Inr metricFamilies))
      else TextToMetricFamilies env (reqBody r))"

text \<open>\<open>now\<close> is the time at which the body has been read, \<open>ch\<close> the fresh channel for errors.\<close>

definition pushRequest ::
  "handler_env \<Rightarrow> bool \<Rightarrow> bool \<Rightarrow> bool \<Rightarrow> gotime \<Rightarrow> nat \<Rightarrow> http_request \<Rightarrow> push_error + WriteRequest" where
  "pushRequest env replace check jobBase64Encoded now ch r =
     (case targetLabels env jobBase64Encoded r of
        Inl err \<Rightarrow> Inl err
      | Inr lbls \<Rightarrow>
          (case parseBody env r of
             Inl err \<Rightarrow> Inl (BadBody err)
           | Inr metricFamilies \<Rightarrow>
               Inr \<lparr>wrLabels = lbls, wrTimestamp = now, wrMetricFamilies = Some metricFamilies,
                    wrReplace = replace, wrDone = (if check then Some ch else None)\<rparr>))"

text \<open>The reply, from the errors received on the channel until it is closed: the first one is reported.\<close>

definition pushReply :: "bool \<Rightarrow> string list \<Rightarrow> reply" where
  "pushReply check errs =
     (if \<not> check then StatusAccepted
      else (case errs of [] \<Rightarrow> StatusOK | err # _ \<Rightarrow> BadRequest (Inconsistent err)))"

definition Push ::
  "handler_env \<Rightarrow> bool \<Rightarrow> bool \<Rightarrow> bool \<Rightarrow> gotime \<Rightarrow> nat \<Rightarrow> http_request \<Rightarrow> WriteRequest option \<times> (string list \<Rightarrow> reply)" where
  "Push env replace check jobBase64Encoded now ch r =
     (case pushRequest env replace check jobBase64Encoded now ch r of
        Inl err \<Rightarrow> (None, \<lambda>errs. BadRequest err)
      | Inr wr \<Rightarrow> (Some wr, pushReply check))"

section \<open>Delete, wipe, health, static files\<close>

definition deleteRequest :: "labels \<Rightarrow> gotime \<Rightarrow> WriteRequest" where
  "deleteRequest lbls now = \<lparr>wrLabels = lbls, wrTimestamp = now, wrMetricFamilies = None,
     wrReplace = False, wrDone = None\<rparr>"

definition Delete :: "handler_env \<Rightarrow> bool \<Rightarrow> gotime \<Rightarrow> http_request \<Rightarrow> WriteRequest option \<times> reply" where
  "Delete env jobBase64Encoded now r =
     (case targetLabels env jobBase64Encoded r of
        Inl err \<Rightarrow> (None, BadRequest err)
      | Inr lbls \<Rightarrow> (Some (deleteRequest lbls now), StatusAccepted))"

text \<open>
  The requests that \<open>WipeMetricStore\<close> submits: one for each group of its copy of the map, in the
  order \<open>keys\<close> of the iteration, each with its own time.
\<close>

definition WipeMetricStore :: "GroupingKeyToMetricGroup \<Rightarrow> (string \<times> gotime) list \<Rightarrow> WriteRequest list" where
  "WipeMetricStore groups keys =
     map (\<lambda>(key, now). case fmlookup groups key of
            None \<Rightarrow> deleteRequest fmempty now
          | Some g \<Rightarrow> deleteRequest (mgLabels g) now) keys"

definition healthReply :: "string option \<Rightarrow> reply" where
  "healthReply err = (case err of None \<Rightarrow> StatusOK | Some e \<Rightarrow> ServerError e)"

definition HealthyHandler :: "loop_state \<Rightarrow> reply" where
  "HealthyHandler s = healthReply (Healthy s)"

definition ReadyHandler :: "loop_state \<Rightarrow> reply" where
  "ReadyHandler s = healthReply (Ready s)"

text \<open>\<open>Static\<close> cuts the prefix off the path; a shorter path makes the slice expression panic.\<close>

definition staticPath :: "string \<Rightarrow> string \<Rightarrow> string option" where
  "staticPath pre path =
     (let p = (if pre = ''/'' then '''' else pre) in
      if length p \<le> length path then Some (drop (length p) path) else None)"

section \<open>What clients of a metric store rely on\<close>

text \<open>
  The part of the \<open>MetricStore\<close> interface behind \<open>SubmitWriteRequest\<close> and \<open>GetMetricFamiliesMap\<close>:
  a request without families removes the group of its labels and nothing else, and groups are filed under
  the key of their labels.
\<close>

locale metric_store =
  fixes submit :: "WriteRequest \<Rightarrow> 's \<Rightarrow> 's"
    and groups :: "'s \<Rightarrow> GroupingKeyToMetricGroup"
    and key :: "labels \<Rightarrow> string"
    and good :: "'s \<Rightarrow> bool"
  assumes good_submit: "good s \<Longrightarrow> good (submit wr s)"
    and submit_delete: "good s \<Longrightarrow> wrMetricFamilies wr = None \<Longrightarrow>
      groups (submit wr s) = fmdrop (key (wrLabels wr)) (groups s)"
    and filed: "good s \<Longrightarrow> fmlookup (groups s) k = Some g \<Longrightarrow> key (mgLabels g) = k"
begin

lemma deletes:
  assumes "good s" "list_all (\<lambda>wr. wrMetricFamilies wr = None) wrs"
  shows "fmlookup (groups (fold submit wrs s)) k =
    (if k \<in> set (map (\<lambda>wr. key (wrLabels wr)) wrs) then None else fmlookup (groups s) k)"
  using assms
proof (induction wrs arbitrary: s)
  case (Cons wr wrs)
  then show ?case by (auto simp: good_submit submit_delete)
qed simp

lemma wipe:
  assumes "good s" "set (map fst keys) = fmdom' (groups s)"
  shows "groups (fold submit (WipeMetricStore (groups s) keys) s) = fmempty"
proof (rule fmap_ext)
  fix k
  let ?wrs = "WipeMetricStore (groups s) keys"
  have del: "list_all (\<lambda>wr. wrMetricFamilies wr = None) ?wrs"
    by (auto simp: WipeMetricStore_def list_all_iff deleteRequest_def split: option.split)
  have "k \<in> set (map (\<lambda>wr. key (wrLabels wr)) ?wrs)" if "fmlookup (groups s) k = Some g" for g
  proof -
    have "k \<in> set (map fst keys)" using that assms(2) by (auto simp: fmdom'_iff_Some)
    then obtain t where t: "(k, t) \<in> set keys" by auto
    have "deleteRequest (mgLabels g) t \<in> set ?wrs"
      using t that by (force simp: WipeMetricStore_def)
    moreover have "key (wrLabels (deleteRequest (mgLabels g) t)) = k"
      using filed [OF assms(1) that] by (simp add: deleteRequest_def)
    ultimately show ?thesis by force
  qed
  then show "fmlookup (groups (fold submit ?wrs s)) k = fmlookup fmempty k"
    using deletes [OF assms(1) del, of k] by (cases "fmlookup (groups s) k") auto
qed

end

lemma handleWrite_delete:
  "wrMetricFamilies wr = None \<Longrightarrow>
   metricGroups (fst (handleWrite mc gather order dms wr)) = fmdrop (keyOf mc wr) (metricGroups dms)"
  by (simp add: handleWrite_store accepted_iff store_simps)

lemma store_wf_filed: "store_wf mc dms \<Longrightarrow> fmlookup (metricGroups dms) k = Some g \<Longrightarrow> groupingKeyFor mc (mgLabels g) = k"
  by (auto simp: store_wf_def group_wf_def dest: fmpredD2)

interpretation disk_store: metric_store "\<lambda>wr dms. fst (handleWrite mc gather order dms wr)" metricGroups
    "groupingKeyFor mc" "store_wf mc" for mc gather order
  by unfold_locales (simp_all add: handleWrite_wf handleWrite_delete keyOf_def store_wf_filed)

section \<open>Lemmas\<close>

lemma splitLabels_names:
  assumes "splitLabels mc syn path = Inr lbls" "\<And>name v n w. parseLabel mc syn name v = Inr (n, w) \<Longrightarrow> P n"
  shows "\<forall>n \<in> fmdom' lbls. P n"
proof (cases "length path \<le> 1")
  case True
  then show ?thesis using assms(1) by (auto simp: splitLabels_def)
next
  case False
  then have "splitComponents mc syn (splitOn CHR ''/'' (drop 1 path)) fmempty = Inr lbls"
    using assms(1) by (simp add: splitLabels_def Let_def split: if_splits)
  then show ?thesis by (rule splitComponents_names) (use assms(2) in auto)
qed

text \<open>The labels of an accepted target: a job, and other names that are valid.\<close>

lemma targetLabels_ok:
  assumes "targetLabels env b64 r = Inr lbls"
  shows "fmlookup lbls ''job'' = Some (if b64 then fst (decodeBase64 (reqJob r)) else reqJob r)"
    and "fmlookup lbls ''job'' \<noteq> Some ''''"
    and "\<forall>n \<in> fmdom' lbls. n = ''job'' \<or> IsValidLabelName (hvSyntax env) n"
proof -
  obtain job split where split: "splitLabels (hvConsts env) (hvSyntax env) (reqLabels r) = Inr split"
    and job: "job = (if b64 then fst (decodeBase64 (reqJob r)) else reqJob r)" "job \<noteq> ''''" "lbls = fmupd ''job'' job split"
    using assms by (auto simp: targetLabels_def Let_def split: if_splits prod.splits option.splits sum.splits)
  then show "fmlookup lbls ''job'' = Some (if b64 then fst (decodeBase64 (reqJob r)) else reqJob r)"
    and "fmlookup lbls ''job'' \<noteq> Some ''''" by simp_all
  have "\<forall>n \<in> fmdom' split. IsValidLabelName (hvSyntax env) n"
    using split by (rule splitLabels_names) (use parseLabel_ok in blast)
  then show "\<forall>n \<in> fmdom' lbls. n = ''job'' \<or> IsValidLabelName (hvSyntax env) n"
    using job(3) by simp
qed

section \<open>Properties\<close>

text \<open>
  What a push submits: a request that has families, so never a deletion, with the flags of its
  route, an answer channel exactly if the push is checked, a non-empty job, and otherwise valid label
  names only.
\<close>

lemma push_submits_update:
  assumes "pushRequest env replace check b64 now ch r = Inr wr"
  shows "wrMetricFamilies wr \<noteq> None \<and> wrReplace wr = replace \<and> wrTimestamp wr = now \<and>
    (wrDone wr \<noteq> None) = check \<and>
    fmlookup (wrLabels wr) ''job'' \<notin> {None, Some ''''} \<and>
    (\<forall>n \<in> fmdom' (wrLabels wr). n = ''job'' \<or> IsValidLabelName (hvSyntax env) n)"
proof -
  obtain lbls where t: "targetLabels env b64 r = Inr lbls" and wr: "wrLabels wr = lbls"
    "wrMetricFamilies wr \<noteq> None" "wrReplace wr = replace" "wrTimestamp wr = now" "(wrDone wr \<noteq> None) = check"
    using assms by (auto simp: pushRequest_def split: sum.splits)
  then show ?thesis using targetLabels_ok [OF t] by simp
qed

definition sample_handlers :: handler_env where
  "sample_handlers = \<lparr>hvConsts = prom_consts,
     hvSyntax = \<lparr>UnescapeName = id, IsValidLabelName = (\<lambda>n. n \<noteq> [])\<rparr>,
     ParseMediaType = (\<lambda>ct. None), UnmarshalDelimited = (\<lambda>b. ([], None)), TextToMetricFamilies = (\<lambda>b. Inr fmempty)\<rparr>"

definition sample_request :: http_request where
  "sample_request = \<lparr>reqJob = ''j'', reqLabels = '''', reqContentType = '''', reqBody = ('''', None)\<rparr>"

lemma sample_pushRequest:
  "pushRequest sample_handlers True True False 5 0 sample_request = Inr (push_of ''j'' 5 fmempty True)"
  by (simp add: pushRequest_def targetLabels_def sample_handlers_def sample_request_def splitLabels_def
      parseBody_def isDelimitedProto_def push_of_def job_labels_def)

text \<open>
  C2. From the request to the store: a checked push is answered with 200 exactly when it is stored as
  sanitised and the store gathers afterwards, and with 400 exactly when only the failure is
  recorded.
\<close>

theorem checked_push_end_to_end:
  assumes "pushRequest env replace True b64 now ch r = Inr wr"
    and "handleWrite mc gather order dms wr = (dms', err)"
  shows "(case err of
      None \<Rightarrow> statusCode (pushReply True []) = 200 \<and>
        gather (GetMetricFamilies (predefinedHelp dms') (metricGroups dms') (order (metricGroups dms'))) = None \<and>
        list_all (\<lambda>name. \<not> isPushMetric name \<longrightarrow>
          stored dms' (groupingKeyFor mc (wrLabels wr)) name =
          map_option (\<lambda>mf. stamp now (sanitizeLabels mc mf (wrLabels wr))) (fmlookup (the (wrMetricFamilies wr)) name))
          (sortedKeys (the (wrMetricFamilies wr)))
    | Some e \<Rightarrow> statusCode (pushReply True [e]) = 400 \<and> dms' = setPushFailedTimestamp mc dms wr)"
proof -
  obtain families where wr: "wrMetricFamilies wr = Some families" "wrDone wr \<noteq> None" "wrTimestamp wr = now"
    using assms(1) by (auto simp: pushRequest_def split: sum.splits)
  have err: "err = None \<longleftrightarrow> accepted mc gather order dms wr"
    using handleWrite_error [OF wr(2), of mc gather order dms] assms(2) by simp
  have dms': "dms' = (if accepted mc gather order dms wr then sanitizedUpdate mc dms wr families
      else setPushFailedTimestamp mc dms wr)"
    using handleWrite_store [of mc gather order dms wr] assms(2) wr(1) by simp
  show ?thesis
  proof (cases err)
    case None
    then have acc: "accepted mc gather order dms wr" and eq: "dms' = sanitizedUpdate mc dms wr families"
      using err dms' by simp_all
    have "gatherStore gather dms' (order (metricGroups dms')) = None"
      using acc wr eq by (simp add: accepted_iff)
    moreover have "stored dms' (groupingKeyFor mc (wrLabels wr)) name =
        map_option (\<lambda>mf. stamp now (sanitizeLabels mc mf (wrLabels wr))) (fmlookup families name)"
      if "name \<in> fmdom' families" "\<not> isPushMetric name" for name
      using stored_update [of "sanitizeRequest mc wr families" _ mc dms name] that wr(3)
      by (auto simp: eq sanitizedUpdate_def sanitizeRequest_def keyOf_def fmdom'_iff_Some updatedGroup_lookup
          augmented_lookup)
    ultimately show ?thesis
      using None wr(1) by (simp add: pushReply_def gatherStore_def list_all_iff del: isPushMetric_simps)
  next
    case (Some e)
    then show ?thesis using err dms' by (simp add: pushReply_def)
  qed
qed

theorem checked_push_end_to_end_witness:
  "\<exists>dms'. handleWrite prom_consts (\<lambda>mfs. None) sortedOrder empty_store (push_of ''j'' 5 fmempty True) = (dms', None) \<and>
     statusCode (pushReply True []) = 200"
proof -
  have "accepted prom_consts (\<lambda>mfs. None) sortedOrder empty_store (push_of ''j'' 5 fmempty True)"
    by (simp add: accepted_iff gatherStore_def timestampsPresent_iff)
  then have "snd (handleWrite prom_consts (\<lambda>mfs. None) sortedOrder empty_store (push_of ''j'' 5 fmempty True)) = None"
    by (simp add: handleWrite_error)
  then obtain dms' where h: "handleWrite prom_consts (\<lambda>mfs. None) sortedOrder empty_store (push_of ''j'' 5 fmempty True) = (dms', None)"
    by (metis prod.collapse)
  from checked_push_end_to_end [OF sample_pushRequest h] h show ?thesis by auto
qed

text \<open>
  Wiping empties the store: once the deletions that the handler submits are processed, in whatever order
  it met the groups, no group is left.
\<close>

lemma wipe_empties_store:
  assumes "store_wf mc dms" "set (map fst keys) = fmdom' (GetMetricFamiliesMap dms)"
  shows "metricGroups (fold (\<lambda>wr d. fst (handleWrite mc gather order d wr))
    (WipeMetricStore (GetMetricFamiliesMap dms) keys) dms) = fmempty"
  using disk_store.wipe [OF assms(1), of keys] assms(2) by simp

end
