(* ===== verification/HttpWriter.thy ===== *)
theory HttpWriter
  imports GoStrings
begin

text \<open>
  \<open>http.ResponseWriter\<close> and \<open>http.Error\<close> of Go's standard library, as far as the handlers use them.  The
  headers go out with the status, so a header set after the status has no effect; the first status
  wins, and a body written before a status, or a handler that returns without one, sends 200.
\<close>

record writer =
  wHeader :: "(string, string) fmap"
  wSent :: "(nat \<times> (string, string) fmap) option"
  wBody :: string

definition newWriter :: writer where
  "newWriter = \<lparr>wHeader = fmempty, wSent = None, wBody = ''''\<rparr>"

definition SetHeader :: "string \<Rightarrow> string \<Rightarrow> writer \<Rightarrow> writer" where
  "SetHeader h v w = w\<lparr>wHeader := fmupd h v (wHeader w)\<rparr>"

definition WriteHeader :: "nat \<Rightarrow> writer \<Rightarrow> writer" where
  "WriteHeader code w = (case wSent w of None \<Rightarrow> w\<lparr>wSent := Some (code, wHeader w)\<rparr> | Some x \<Rightarrow> w)"

definition WriteBody :: "string \<Rightarrow> writer \<Rightarrow> writer" where
  "WriteBody b w = (WriteHeader 200 w)\<lparr>wBody := wBody w @ b\<rparr>"

definition HttpError :: "string \<Rightarrow> nat \<Rightarrow> writer \<Rightarrow> writer" where
  "HttpError msg code w =
     WriteBody (msg @ [CHR 0x0A])
       (WriteHeader code (SetHeader ''X-Content-Type-Options'' ''nosniff''
         (SetHeader ''Content-Type'' ''text/plain; charset=utf-8'' w)))"

text \<open>What the client receives once the handler has returned.\<close>

definition sentStatus :: "writer \<Rightarrow> nat" where
  "sentStatus w = (case wSent w of None \<Rightarrow> 200 | Some (code, hs) \<Rightarrow> code)"

definition sentHeaders :: "writer \<Rightarrow> (string, string) fmap" where
  "sentHeaders w = (case wSent w of None \<Rightarrow> wHeader w | Some (code, hs) \<Rightarrow> hs)"

lemma newWriter_sel [simp]: "wHeader newWriter = fmempty" "wSent newWriter = None" "wBody newWriter = ''''"
  by (simp_all add: newWriter_def)

lemma SetHeader_sel [simp]:
  "wHeader (SetHeader h v w) = fmupd h v (wHeader w)" "wSent (SetHeader h v w) = wSent w" "wBody (SetHeader h v w) = wBody w"
  by (simp_all add: SetHeader_def)

lemma WriteHeader_sel [simp]:
  "wHeader (WriteHeader c w) = wHeader w" "wBody (WriteHeader c w) = wBody w"
  "wSent (WriteHeader c w) = (case wSent w of None \<Rightarrow> Some (c, wHeader w) | Some x \<Rightarrow> Some x)"
  by (simp_all add: WriteHeader_def split: option.split)

lemma WriteBody_sel [simp]:
  "wHeader (WriteBody b w) = wHeader w" "wBody (WriteBody b w) = wBody w @ b" "wSent (WriteBody b w) = wSent (WriteHeader 200 w)"
  by (simp_all add: WriteBody_def)

lemma HttpError_sel [simp]:
  "wBody (HttpError msg c w) = wBody w @ msg @ [CHR 0x0A]"
  "wSent w = None \<Longrightarrow> sentStatus (HttpError msg c w) = c"
  by (simp_all add: HttpError_def sentStatus_def)

lemma sentStatus_simps [simp]: "sentStatus newWriter = 200" "sentStatus (WriteBody b w) = sentStatus w"
  by (simp_all add: sentStatus_def split: option.split)

end
