(* ===== verification/Instrumentation.thy ===== *)
theory Instrumentation
  imports HttpWriter GoNum
begin

text \<open>
  The metrics that the Pushgateway keeps about its own requests (handler/metrics.go) and the wrappers
  that count a handler's requests.  The vectors are described here; what happens when one is curried
  or observed is code of client\_golang, which the record \<open>instrument_lib\<close> stands for.
\<close>

record counter_vec =
  cvName :: string
  cvHelp :: string
  cvLabels :: "string list"
  cvCurried :: labels

record summary_vec =
  svName :: string
  svHelp :: string
  svObjectives :: "(float64 \<times> float64) list"
  svLabels :: "string list"

definition httpCnt :: counter_vec where
  "httpCnt = \<lparr>cvName = ''pushgateway_http_requests_total'',
     cvHelp = ''Total HTTP requests processed by the Pushgateway, excluding scrapes.'',
     cvLabels = [''handler'', ''code'', ''method''], cvCurried = fmempty\<rparr>"

definition pushObjectives :: "(float64 \<times> float64) list" where
  "pushObjectives = [(f64_of_quot 1 10, f64_of_quot 1 100), (f64_of_quot 5 10, f64_of_quot 5 100),
     (f64_of_quot 9 10, f64_of_quot 1 100)]"

definition httpPushSize :: summary_vec where
  "httpPushSize = \<lparr>svName = ''pushgateway_http_push_size_bytes'',
     svHelp = ''HTTP request size for pushes to the Pushgateway.'',
     svObjectives = pushObjectives, svLabels = [''method'']\<rparr>"

definition httpPushDuration :: summary_vec where
  "httpPushDuration = \<lparr>svName = ''pushgateway_http_push_duration_seconds'',
     svHelp = ''HTTP request duration for pushes to the Pushgateway.'',
     svObjectives = pushObjectives, svLabels = [''method'']\<rparr>"

record 'h instrument_lib =
  MustCurryWith :: "counter_vec \<Rightarrow> labels \<Rightarrow> counter_vec"
  InstrumentHandlerCounter :: "counter_vec \<Rightarrow> 'h \<Rightarrow> 'h"
  InstrumentHandlerDuration :: "summary_vec \<Rightarrow> 'h \<Rightarrow> 'h"
  InstrumentHandlerRequestSize :: "summary_vec \<Rightarrow> 'h \<Rightarrow> 'h"

definition InstrumentWithCounter :: "'h instrument_lib \<Rightarrow> string \<Rightarrow> 'h \<Rightarrow> 'h" where
  "InstrumentWithCounter lib handlerName handler =
     InstrumentHandlerCounter lib (MustCurryWith lib httpCnt (fmupd ''handler'' handlerName fmempty)) handler"

text \<open>The wrapping of the push handlers in handler/push.go.\<close>

definition instrumentedPush :: "'h instrument_lib \<Rightarrow> 'h \<Rightarrow> 'h" where
  "instrumentedPush lib handler =
     InstrumentHandlerRequestSize lib httpPushSize
       (InstrumentHandlerDuration lib httpPushDuration (InstrumentWithCounter lib ''push'' handler))"

text \<open>
  What is documented of the wrappers and used below: they observe a request and its response and leave both
  as they are, so that seen from the client the wrapped handler is the handler.
\<close>

definition transparent :: "'h instrument_lib \<Rightarrow> bool" where
  "transparent lib \<longleftrightarrow>
     (\<forall>v h. InstrumentHandlerCounter lib v h = h) \<and>
     (\<forall>v h. InstrumentHandlerDuration lib v h = h) \<and> (\<forall>v h. InstrumentHandlerRequestSize lib v h = h)"

lemma transparent_counter [simp]: "transparent lib \<Longrightarrow> InstrumentWithCounter lib n h = h"
  by (simp add: InstrumentWithCounter_def transparent_def)

lemma transparent_push [simp]: "transparent lib \<Longrightarrow> instrumentedPush lib h = h"
  by (simp add: instrumentedPush_def) (simp add: transparent_def)

text \<open>Currying leaves no label of the counter unbound but those that the wrapper itself fills in.\<close>

lemma httpCnt_labels: "set (cvLabels httpCnt) - {''handler''} = {''code'', ''method''}"
  by (auto simp: httpCnt_def)

end
