(* ===== verification/Responses.thy ===== *)
theory Responses
  imports Handlers Instrumentation
begin

text \<open>
  What the handlers of theory Handlers write: the texts of their errors and the bytes of their responses
  (handler/push.go, delete.go, wipe.go, misc.go).  The verbs \<open>%q\<close> and \<open>%d\<close> of package fmt are parameters.
\<close>

record fmt_lib =
  fmtQuote :: "string \<Rightarrow> string"
  fmtInt :: "nat \<Rightarrow> string"

text \<open>\<open>CorruptInputError\<close> of encoding/base64.\<close>

definition base64ErrorText :: "fmt_lib \<Rightarrow> nat \<Rightarrow> string" where
  "base64ErrorText fmt offset = ''illegal base64 data at input byte '' @ fmtInt fmt offset"

fun urlErrorText :: "fmt_lib \<Rightarrow> url_error \<Rightarrow> string" where
  "urlErrorText fmt (OddComponents lbls) = ''odd number of components in label string '' @ fmtQuote fmt lbls"
| "urlErrorText fmt (ImproperLabelName name) = ''improper label name '' @ fmtQuote fmt name"
| "urlErrorText fmt (InvalidBase64 name value offset) =
     ''invalid base64 encoding for label '' @ name @ ''='' @ fmtQuote fmt value @ '': '' @ base64ErrorText fmt offset"

fun pushErrorText :: "fmt_lib \<Rightarrow> push_error \<Rightarrow> string" where
  "pushErrorText fmt (BadJobBase64 job offset) =
     ''invalid base64 encoding in job name '' @ fmtQuote fmt job @ '': '' @ base64ErrorText fmt offset"
| "pushErrorText fmt (BadLabels err) = urlErrorText fmt err"
| "pushErrorText fmt JobRequired = ''job name is required''"
| "pushErrorText fmt (BadBody err) = err"
| "pushErrorText fmt (Inconsistent err) =
     ''pushed metrics are invalid or inconsistent with existing metrics: '' @ err"

section \<open>Responses\<close>

text \<open>
  Push and Delete write nothing when a checked push has gone well, which net/http completes to a 200 without a
  body; every error goes through \<open>http.Error\<close>.
\<close>

definition respondPush :: "fmt_lib \<Rightarrow> reply \<Rightarrow> writer \<Rightarrow> writer" where
  "respondPush fmt r w =
     (case r of
        StatusOK \<Rightarrow> w
      | StatusAccepted \<Rightarrow> WriteHeader 202 w
      | BadRequest err \<Rightarrow> HttpError (pushErrorText fmt err) 400 w
      | ServerError err \<Rightarrow> HttpError err 500 w)"

definition respondWipe :: "writer \<Rightarrow> writer" where
  "respondWipe w = WriteHeader 202 w"

definition respondHealth :: "string option \<Rightarrow> writer \<Rightarrow> writer" where
  "respondHealth err w = (case err of None \<Rightarrow> WriteBody ''OK'' w | Some e \<Rightarrow> HttpError e 500 w)"

lemma HttpError_sent:
  "wSent w = None \<Longrightarrow> wSent (HttpError msg code w) = Some (code, fmupd ''X-Content-Type-Options'' ''nosniff''
     (fmupd ''Content-Type'' ''text/plain; charset=utf-8'' (wHeader w)))"
  by (simp add: HttpError_def)

text \<open>The status on the wire is the one that \<open>statusCode\<close> gives, for pushes and deletions as for health.\<close>

lemma respondPush_status: "sentStatus (respondPush fmt r newWriter) = statusCode r"
  by (cases r) (simp_all add: respondPush_def, simp_all add: sentStatus_def)

lemma respondHealth_status: "sentStatus (respondHealth err newWriter) = statusCode (healthReply err)"
  by (cases err) (simp_all add: respondHealth_def healthReply_def)

lemma respondPush_body:
  "wBody (respondPush fmt r newWriter) =
     (case r of BadRequest err \<Rightarrow> pushErrorText fmt err @ [CHR 0x0A] | ServerError err \<Rightarrow> err @ [CHR 0x0A] | _ \<Rightarrow> '''')"
  by (cases r) (simp_all add: respondPush_def)

text \<open>The response to a checked push in which the store reported an error: the first one only.\<close>

lemma respondPush_first_error:
  "wBody (respondPush fmt (pushReply True (err # errs)) newWriter) =
     ''pushed metrics are invalid or inconsistent with existing metrics: '' @ err @ [CHR 0x0A]"
  by (simp add: respondPush_body pushReply_def)

end
