(* ===== verification/HistApi.thy ===== *)
theory HistApi
  imports Storage
begin

text \<open>
  Native histograms for the API and the status page: histogram/prometheus\_model.go.  The bucket
  iterators and the zero bucket of github.com/prometheus/prometheus/model/histogram are library
  code; what they yield for a histogram, or that they panic, is an argument.  Counts are of two types, 64-bit integers and
  floats, which differ here only in the test against zero.
\<close>

section \<open>Model histograms\<close>

record ModelHistogram =
  mhCount :: "64 word"
  mhSum :: float64
  mhZeroThreshold :: float64
  mhZeroCount :: "64 word"
  mhSchema :: "32 word"
  mhPositiveSpans :: "BucketSpan list"
  mhPositiveBuckets :: "64 word list"
  mhNegativeSpans :: "BucketSpan list"
  mhNegativeBuckets :: "64 word list"

record FloatHistogram =
  fhCount :: float64
  fhSum :: float64
  fhZeroThreshold :: float64
  fhZeroCount :: float64
  fhSchema :: "32 word"
  fhPositiveSpans :: "BucketSpan list"
  fhPositiveBuckets :: "float64 list"
  fhNegativeSpans :: "BucketSpan list"
  fhNegativeBuckets :: "float64 list"

text \<open>The copying loops over the spans.\<close>

definition copySpans :: "BucketSpan list \<Rightarrow> BucketSpan list" where
  "copySpans spans = map (\<lambda>s. \<lparr>spOffset = spOffset s, spLength = spLength s\<rparr>) spans"

text \<open>Exactly one of the two results is not nil.\<close>

definition NewModelHistogram :: "Histogram \<Rightarrow> ModelHistogram option \<times> FloatHistogram option" where
  "NewModelHistogram ch =
     (if f64_pos (hSampleCountFloat ch) \<or> f64_pos (hZeroCountFloat ch)
      then (None, Some \<lparr>fhCount = hSampleCountFloat ch, fhSum = hSampleSum ch,
              fhZeroThreshold = hZeroThreshold ch, fhZeroCount = hZeroCountFloat ch, fhSchema = hSchema ch,
              fhPositiveSpans = copySpans (hPositiveSpan ch), fhPositiveBuckets = hPositiveCount ch,
              fhNegativeSpans = copySpans (hNegativeSpan ch), fhNegativeBuckets = hNegativeCount ch\<rparr>)
      else (Some \<lparr>mhCount = hSampleCount ch, mhSum = hSampleSum ch,
              mhZeroThreshold = hZeroThreshold ch, mhZeroCount = hZeroCount ch, mhSchema = hSchema ch,
              mhPositiveSpans = copySpans (hPositiveSpan ch), mhPositiveBuckets = hPositiveDelta ch,
              mhNegativeSpans = copySpans (hNegativeSpan ch), mhNegativeBuckets = hNegativeDelta ch\<rparr>, None))"

section \<open>Buckets\<close>

record 'c ModelBucket =
  mbLower :: float64
  mbUpper :: float64
  mbLowerInclusive :: bool
  mbUpperInclusive :: bool
  mbCount :: 'c

record 'c APIBucket =
  abBoundaries :: nat
  abLower :: float64
  abUpper :: float64
  abCount :: 'c

definition makeBucket :: "'c ModelBucket \<Rightarrow> 'c APIBucket" where
  "makeBucket b =
     \<lparr>abBoundaries = (if mbLowerInclusive b then (if mbUpperInclusive b then 3 else 1)
                      else (if mbUpperInclusive b then 0 else 2)),
      abLower = mbLower b, abUpper = mbUpper b, abCount = mbCount b\<rparr>"

text \<open>
  The loop of \<open>GetAPIBuckets\<close> over an iterator, the reversed loop over the collected negative buckets,
  and the whole function, once for both types of counts.
\<close>

fun collectBuckets :: "('c \<Rightarrow> bool) \<Rightarrow> 'c ModelBucket list \<Rightarrow> 'c ModelBucket list" where
  "collectBuckets isZero [] = []"
| "collectBuckets isZero (b # it) =
     (if \<not> isZero (mbCount b) then b # collectBuckets isZero it else collectBuckets isZero it)"

fun appendReversed :: "'c ModelBucket list \<Rightarrow> 'c APIBucket list" where
  "appendReversed [] = []"
| "appendReversed (b # bs) = appendReversed bs @ [makeBucket b]"

definition apiBuckets ::
  "('c \<Rightarrow> bool) \<Rightarrow> 'c ModelBucket list option \<Rightarrow> 'c \<Rightarrow> 'c ModelBucket option \<Rightarrow> 'c ModelBucket list option \<Rightarrow>
   'c APIBucket list option" where
  "apiBuckets isZero negative zeroCount zeroBucket positive =
     (case negative of
        None \<Rightarrow> None
      | Some nIt \<Rightarrow>
          (case (if \<not> isZero zeroCount then map_option (\<lambda>b. [makeBucket b]) zeroBucket else Some []) of
             None \<Rightarrow> None
           | Some zBuckets \<Rightarrow>
               (case positive of
                  None \<Rightarrow> None
                | Some pIt \<Rightarrow>
                    Some (appendReversed (collectBuckets isZero nIt) @ zBuckets @ map makeBucket (collectBuckets isZero pIt)))))"

text \<open>
  What the library yields for a histogram: the buckets of the two iterators and the zero bucket, or \<open>None\<close> where
  it panics, as an iterator does that runs over the end of a bucket list which does not fit its spans.
\<close>

record hist_lib =
  NegativeBuckets :: "ModelHistogram \<Rightarrow> (64 word) ModelBucket list option"
  PositiveBuckets :: "ModelHistogram \<Rightarrow> (64 word) ModelBucket list option"
  ZeroBucket :: "ModelHistogram \<Rightarrow> (64 word) ModelBucket option"
  NegativeFloatBuckets :: "FloatHistogram \<Rightarrow> float64 ModelBucket list option"
  PositiveFloatBuckets :: "FloatHistogram \<Rightarrow> float64 ModelBucket list option"
  ZeroFloatBucket :: "FloatHistogram \<Rightarrow> float64 ModelBucket option"

definition f64_zero :: "float64 \<Rightarrow> bool" where
  "f64_zero x \<longleftrightarrow> x \<le> F64 0 0 \<and> F64 0 0 \<le> x"

definition GetAPIBuckets :: "hist_lib \<Rightarrow> ModelHistogram \<Rightarrow> (64 word) APIBucket list option" where
  "GetAPIBuckets lib h =
     apiBuckets (\<lambda>c. c = 0) (NegativeBuckets lib h) (mhZeroCount h) (ZeroBucket lib h) (PositiveBuckets lib h)"

definition GetAPIFloatBuckets :: "hist_lib \<Rightarrow> FloatHistogram \<Rightarrow> float64 APIBucket list option" where
  "GetAPIFloatBuckets lib h =
     apiBuckets f64_zero (NegativeFloatBuckets lib h) (fhZeroCount h) (ZeroFloatBucket lib h) (PositiveFloatBuckets lib h)"

section \<open>Lemmas\<close>

lemma collectBuckets_filter: "collectBuckets isZero bs = filter (\<lambda>b. \<not> isZero (mbCount b)) bs"
  by (induction bs) simp_all

lemma appendReversed_rev: "appendReversed bs = rev (map makeBucket bs)"
  by (induction bs) simp_all

lemma apiBuckets_filter:
  "apiBuckets isZero (Some neg) zc (Some zb) (Some pos) =
     Some (map makeBucket (rev (filter (\<lambda>b. \<not> isZero (mbCount b)) neg) @
       (if isZero zc then [] else [zb]) @ filter (\<lambda>b. \<not> isZero (mbCount b)) pos))"
  by (simp add: apiBuckets_def collectBuckets_filter appendReversed_rev rev_map)

text \<open>The zero bucket is asked for only if it counts something.\<close>

lemma apiBuckets_panics:
  "apiBuckets isZero neg zc zb pos = None \<longleftrightarrow> neg = None \<or> pos = None \<or> \<not> isZero zc \<and> zb = None"
  by (auto simp: apiBuckets_def split: option.split)

lemma copySpans_id: "copySpans spans = spans"
  by (simp add: copySpans_def map_idI)

lemma makeBucket_sel:
  "abLower (makeBucket b) = mbLower b" "abUpper (makeBucket b) = mbUpper b" "abCount (makeBucket b) = mbCount b"
  by (simp_all add: makeBucket_def)

text \<open>One bucket lies below the other.\<close>

definition below :: "'c ModelBucket \<Rightarrow> 'c ModelBucket \<Rightarrow> bool" where
  "below a b \<longleftrightarrow> mbUpper a \<le> mbLower b"

section \<open>Properties\<close>

text \<open>
  The buckets of the API are in ascending order, whichever of them are dropped because they are empty: the negative
  buckets, which the iterator yields downwards from zero, are reversed, then comes the zero
  bucket, then the positive buckets.
\<close>

lemma api_buckets_ascending:
  assumes "sorted_wrt (\<lambda>a b. below b a) neg" "sorted_wrt below pos"
    and "list_all (\<lambda>n. below n zb \<and> list_all (below n) pos) neg" "list_all (below zb) pos"
  shows "\<exists>bs. apiBuckets isZero (Some neg) zc (Some zb) (Some pos) = Some bs \<and> sorted_wrt (\<lambda>a b. abUpper a \<le> abLower b) bs"
proof -
  let ?f = "filter (\<lambda>b. \<not> isZero (mbCount b))"
  have "sorted_wrt below (rev (?f neg))"
    using assms(1) by (simp add: sorted_wrt_rev sorted_wrt_filter)
  moreover have "sorted_wrt below (?f pos)" using assms(2) by (rule sorted_wrt_filter)
  ultimately have "sorted_wrt below (rev (?f neg) @ (if isZero zc then [] else [zb]) @ ?f pos)"
    using assms(3,4) by (auto simp: sorted_wrt_append list_all_iff)
  then have "sorted_wrt (\<lambda>a b. abUpper a \<le> abLower b)
      (map makeBucket (rev (?f neg) @ (if isZero zc then [] else [zb]) @ ?f pos))"
    unfolding sorted_wrt_map by (simp only: makeBucket_sel below_def [abs_def])
  then show ?thesis by (simp only: apiBuckets_filter option.inject ex_simps simp_thms)
qed

definition sample_bucket :: "int \<Rightarrow> int \<Rightarrow> nat \<Rightarrow> nat ModelBucket" where
  "sample_bucket l u c = \<lparr>mbLower = F64 l 0, mbUpper = F64 u 0, mbLowerInclusive = False,
     mbUpperInclusive = True, mbCount = c\<rparr>"

text \<open>The kind of histogram decides which result is nil.\<close>

lemma NewModelHistogram_one_nil:
  "(fst (NewModelHistogram ch) = None) \<noteq> (snd (NewModelHistogram ch) = None)"
  by (simp add: NewModelHistogram_def)

end
