(* ===== verification/ApiV1.thy ===== *)
theory ApiV1
  imports HistApi Instrumentation
begin

text \<open>
  The JSON API: api/v1/api.go.  The data of a response is modelled as it is before
  \<open>json.Marshal\<close>; the formatting of numbers (\<open>fmt.Sprint\<close>), the native-histogram iterators and the
  marshaller are parameters.  A handler that panics is \<open>None\<close>.
\<close>

section \<open>Response data\<close>

datatype json =
    JStr string
  | JBool bool
  | JStrings "(string, string) fmap"
  | JRows "(nat \<times> string \<times> string \<times> string) list"

type_synonym encodableMetric = "(string, json) fmap"

record metrics_json =
  mjTimestamp :: gotime
  mjType :: MetricType
  mjHelp :: string
  mjMetrics :: "encodableMetric list"

datatype group_entry = GLabels labels | GFlag bool | GFamily metrics_json

record printer =
  SprintFloat :: "float64 \<Rightarrow> string"
  SprintUint :: "64 word \<Rightarrow> string"
  HistLib :: hist_lib

section \<open>Metrics\<close>

definition makeLabels :: "Metric \<Rightarrow> labels" where
  "makeLabels m = fold (\<lambda>lp result. fmupd (GetName lp) (GetValue lp) result) (mLabel m) fmempty"

definition GetSummary :: "Metric \<Rightarrow> Summary" where
  "GetSummary m = (case mSummary m of Some s \<Rightarrow> s
     | None \<Rightarrow> \<lparr>sSampleCount = 0, sSampleSum = F64 0 0, sQuantile = []\<rparr>)"

definition GetHistogram :: "Metric \<Rightarrow> Histogram" where
  "GetHistogram m = (case mHistogram m of Some h \<Rightarrow> h
     | None \<Rightarrow> \<lparr>hSampleCount = 0, hSampleCountFloat = F64 0 0, hSampleSum = F64 0 0, hBucket = [],
         hSchema = 0, hZeroThreshold = F64 0 0, hZeroCount = 0, hZeroCountFloat = F64 0 0,
         hNegativeSpan = [], hNegativeDelta = [], hNegativeCount = [],
         hPositiveSpan = [], hPositiveDelta = [], hPositiveCount = []\<rparr>)"

definition makeQuantiles :: "printer \<Rightarrow> Metric \<Rightarrow> (string, string) fmap" where
  "makeQuantiles pr m =
     fold (\<lambda>q result. fmupd (SprintFloat pr (qQuantile q)) (SprintFloat pr (qValue q)) result)
       (sQuantile (GetSummary m)) fmempty"

definition makeBuckets :: "printer \<Rightarrow> Metric \<Rightarrow> (string, string) fmap" where
  "makeBuckets pr m =
     fold (\<lambda>b result. fmupd (SprintFloat pr (bUpperBound b))
         (if f64_pos (bCumulativeCountFloat b) then SprintFloat pr (bCumulativeCountFloat b)
          else SprintUint pr (bCumulativeCount b)) result)
       (hBucket (GetHistogram m)) fmempty"

definition getMetricValue :: "Metric \<Rightarrow> float64" where
  "getMetricValue m =
     (case mGauge m of Some v \<Rightarrow> v | None \<Rightarrow>
       (case mCounter m of Some v \<Rightarrow> v | None \<Rightarrow>
         (case mUntyped m of Some v \<Rightarrow> v | None \<Rightarrow> F64 0 0)))"

definition BucketsAsJson :: "printer \<Rightarrow> ('c \<Rightarrow> string) \<Rightarrow> 'c APIBucket list \<Rightarrow> json" where
  "BucketsAsJson pr sprintCount bs =
     JRows (map (\<lambda>b. (abBoundaries b, SprintFloat pr (abLower b), SprintFloat pr (abUpper b), sprintCount (abCount b))) bs)"

text \<open>
  One metric; \<open>None\<close> if the buckets of a native histogram panic.  The two results of \<open>NewModelHistogram\<close> are never
  both nil, so the last inner case, a nil pointer, does not arise.
\<close>

definition encodeMetric :: "printer \<Rightarrow> MetricType \<Rightarrow> Metric \<Rightarrow> encodableMetric option" where
  "encodeMetric pr metricsType m =
     (let metric = fmupd ''labels'' (JStrings (makeLabels m)) fmempty in
      case metricsType of
        SUMMARY \<Rightarrow> Some
          (fmupd ''sum'' (JStr (SprintFloat pr (sSampleSum (GetSummary m))))
            (fmupd ''count'' (JStr (SprintUint pr (sSampleCount (GetSummary m))))
              (fmupd ''quantiles'' (JStrings (makeQuantiles pr m)) metric)))
      | HISTOGRAM \<Rightarrow>
          let dtoH = GetHistogram m;
              metric1 = fmupd ''sum'' (JStr (SprintFloat pr (hSampleSum dtoH))) metric
          in if 0 < length (hNegativeSpan dtoH) + length (hPositiveSpan dtoH)
             then (case NewModelHistogram dtoH of
                     (Some h, _) \<Rightarrow>
                       map_option (\<lambda>bs. fmupd ''buckets'' (BucketsAsJson pr (SprintUint pr) bs)
                         (fmupd ''count'' (JStr (SprintUint pr (mhCount h))) metric1)) (GetAPIBuckets (HistLib pr) h)
                   | (None, Some fh) \<Rightarrow>
                       map_option (\<lambda>bs. fmupd ''buckets'' (BucketsAsJson pr (SprintFloat pr) bs)
                         (fmupd ''count'' (JStr (SprintFloat pr (fhCount fh))) metric1)) (GetAPIFloatBuckets (HistLib pr) fh)
                   | (None, None) \<Rightarrow> None)
             else Some (fmupd ''count''
                    (JStr (if f64_pos (hSampleCountFloat dtoH) then SprintFloat pr (hSampleCountFloat dtoH)
                           else SprintUint pr (hSampleCount dtoH)))
                    (fmupd ''buckets'' (JStrings (makeBuckets pr m)) metric1))
      | _ \<Rightarrow> Some (fmupd ''value'' (JStr (SprintFloat pr (getMetricValue m))) metric))"

fun makeEncodableMetrics :: "printer \<Rightarrow> Metric list \<Rightarrow> MetricType \<Rightarrow> encodableMetric list option" where
  "makeEncodableMetrics pr [] metricsType = Some []"
| "makeEncodableMetrics pr (m # ms) metricsType =
     (case encodeMetric pr metricsType m of
        None \<Rightarrow> None
      | Some metric \<Rightarrow> map_option ((#) metric) (makeEncodableMetrics pr ms metricsType))"

text \<open>A nil family reads as an empty one through the getters.\<close>

definition familyJson :: "printer \<Rightarrow> TimestampedMetricFamily \<Rightarrow> metrics_json option" where
  "familyJson pr tmf =
     (case GetMetricFamily tmf of
        None \<Rightarrow> Some \<lparr>mjTimestamp = tmfTimestamp tmf, mjType = COUNTER, mjHelp = '''', mjMetrics = []\<rparr>
      | Some mf \<Rightarrow>
          map_option (\<lambda>ms. \<lparr>mjTimestamp = tmfTimestamp tmf, mjType = GetType mf, mjHelp = GetHelp mf, mjMetrics = ms\<rparr>)
            (makeEncodableMetrics pr (mfMetric mf) (GetType mf)))"

text \<open>
  The loop over the families of a group, in some order of their names; the entries are put into the map
  that holds the labels and the flag.  \<open>None\<close> if \<open>LastPushSuccess\<close> or the encoding of a family panics.
\<close>

fun familyEntries ::
  "printer \<Rightarrow> (string, TimestampedMetricFamily) fmap \<Rightarrow> string list \<Rightarrow> (string, group_entry) fmap \<Rightarrow>
   (string, group_entry) fmap option" where
  "familyEntries pr families [] metricResponse = Some metricResponse"
| "familyEntries pr families (name # names) metricResponse =
     (case Option.bind (fmlookup families name) (familyJson pr) of
        None \<Rightarrow> None
      | Some uniqueMetrics \<Rightarrow> familyEntries pr families names (fmupd name (GFamily uniqueMetrics) metricResponse))"

definition groupResponse :: "printer \<Rightarrow> MetricGroup \<Rightarrow> (string, group_entry) fmap option" where
  "groupResponse pr v =
     (case LastPushSuccess v of
        None \<Rightarrow> None
      | Some ok \<Rightarrow>
          familyEntries pr (mgMetrics v) (sortedKeys (mgMetrics v))
            (fmupd ''last_push_successful'' (GFlag ok) (fmupd ''labels'' (GLabels (mgLabels v)) fmempty)))"

text \<open>The handler \<open>metrics\<close>: the groups in the order of the iteration.\<close>

fun metricsData :: "printer \<Rightarrow> MetricGroup list \<Rightarrow> (string, group_entry) fmap list option" where
  "metricsData pr [] = Some []"
| "metricsData pr (v # vs) =
     (case groupResponse pr v of
        None \<Rightarrow> None
      | Some metricResponse \<Rightarrow>
          (case metricsData pr vs of None \<Rightarrow> None | Some res \<Rightarrow> Some (metricResponse # res)))"

section \<open>Responding\<close>

datatype errorType = errorNone | errorTimeout | errorCanceled | errorExec | errorBadData | errorInternal
  | errorUnavailable | errorNotFound

fun errorTypeName :: "errorType \<Rightarrow> string" where
  "errorTypeName errorNone = ''''"
| "errorTypeName errorTimeout = ''timeout''"
| "errorTypeName errorCanceled = ''canceled''"
| "errorTypeName errorExec = ''execution''"
| "errorTypeName errorBadData = ''bad_data''"
| "errorTypeName errorInternal = ''internal''"
| "errorTypeName errorUnavailable = ''unavailable''"
| "errorTypeName errorNotFound = ''not_found''"

record apiError =
  aeTyp :: errorType
  aeErr :: string

definition apiErrorText :: "apiError \<Rightarrow> string" where
  "apiErrorText e = errorTypeName (aeTyp e) @ '': '' @ aeErr e"

text \<open>The data of a response, of type \<open>any\<close> in the code, and its body before marshalling.\<close>

datatype status_entry = SMap labels | STime gotime

datatype api_data =
    MetricsData "(string, group_entry) fmap list"
  | StatusData "(string, status_entry) fmap"
  | StringData string

record response =
  rsStatus :: string
  rsData :: api_data
  rsErrorType :: errorType
  rsError :: string

text \<open>The marshaller fails with a message.  An error of a type without a status panics.\<close>

definition respondError ::
  "(response \<Rightarrow> string + string) \<Rightarrow> apiError \<Rightarrow> api_data \<Rightarrow> writer \<Rightarrow> writer option" where
  "respondError marshal apiErr data w =
     (let w1 = SetHeader ''Content-Type'' ''application/json'' w in
      case (case aeTyp apiErr of errorBadData \<Rightarrow> Some 400 | errorInternal \<Rightarrow> Some 500 | _ \<Rightarrow> None) of
        None \<Rightarrow> None
      | Some code \<Rightarrow>
          let w2 = WriteHeader code w1 in
          Some (case marshal \<lparr>rsStatus = ''error'', rsData = data, rsErrorType = aeTyp apiErr, rsError = aeErr apiErr\<rparr> of
                  Inl err \<Rightarrow> w2
                | Inr b \<Rightarrow> WriteBody b w2))"

text \<open>After a failed marshalling the code goes on to write the nil slice.\<close>

definition respond ::
  "(response \<Rightarrow> string + string) \<Rightarrow> api_data \<Rightarrow> writer \<Rightarrow> writer option" where
  "respond marshal data w =
     (let w1 = WriteHeader 200 (SetHeader ''Content-Type'' ''application/json'' w) in
      case marshal \<lparr>rsStatus = ''success'', rsData = data, rsErrorType = errorNone, rsError = ''''\<rparr> of
        Inr b \<Rightarrow> Some (WriteBody b w1)
      | Inl err \<Rightarrow> map_option (WriteBody '''') (respondError marshal \<lparr>aeTyp = errorBadData, aeErr = err\<rparr> (StringData '''') w1))"

section \<open>The API and its routes\<close>

definition corsHeaders :: "(string \<times> string) list" where
  "corsHeaders =
     [(''Access-Control-Allow-Headers'', ''Accept, Authorization, Content-Type, Origin''),
      (''Access-Control-Allow-Methods'', ''GET, POST, DELETE, OPTIONS''),
      (''Access-Control-Allow-Origin'', ''*''),
      (''Access-Control-Expose-Headers'', ''Date''),
      (''Cache-Control'', ''no-cache, no-store, must-revalidate'')]"

definition setCORS :: "writer \<Rightarrow> writer" where
  "setCORS w = fold (\<lambda>(h, v). SetHeader h v) corsHeaders w"

record API =
  apiFlags :: labels
  apiStartTime :: gotime
  apiBuildInfo :: labels

definition NewAPI :: "labels \<Rightarrow> labels \<Rightarrow> gotime \<Rightarrow> API" where
  "NewAPI flags buildInfo now = \<lparr>apiFlags = flags, apiStartTime = now, apiBuildInfo = buildInfo\<rparr>"

text \<open>
  A handler gets the groups of the store in the order in which it meets them, the one part of its surroundings
  that a request can see.
\<close>

type_synonym api_handler = "MetricGroup list \<Rightarrow> writer \<Rightarrow> writer option"

definition apiMetrics :: "printer \<Rightarrow> (response \<Rightarrow> string + string) \<Rightarrow> api_handler" where
  "apiMetrics pr marshal familyMaps w =
     (case metricsData pr familyMaps of None \<Rightarrow> None | Some res \<Rightarrow> respond marshal (MetricsData res) w)"

definition apiStatus :: "API \<Rightarrow> (response \<Rightarrow> string + string) \<Rightarrow> api_handler" where
  "apiStatus api marshal familyMaps w =
     respond marshal (StatusData (fmupd ''build_information'' (SMap (apiBuildInfo api))
       (fmupd ''start_time'' (STime (apiStartTime api)) (fmupd ''flags'' (SMap (apiFlags api)) fmempty)))) w"

definition apiWrap :: "api_handler instrument_lib \<Rightarrow> string \<Rightarrow> api_handler \<Rightarrow> api_handler" where
  "apiWrap lib handlerName f = InstrumentWithCounter lib handlerName (\<lambda>gs w. f gs (setCORS w))"

datatype api_method = ApiOptions | ApiGet | ApiPut

definition Register ::
  "api_handler instrument_lib \<Rightarrow> printer \<Rightarrow> (response \<Rightarrow> string + string) \<Rightarrow> API \<Rightarrow>
   (api_method \<times> string \<times> api_handler) list" where
  "Register lib pr marshal api =
     [(ApiOptions, ''/*path'', apiWrap lib ''api/v1/options'' (\<lambda>gs w. Some w)),
      (ApiGet, ''/status'', apiWrap lib ''api/v1/status'' (apiStatus api marshal)),
      (ApiGet, ''/metrics'', apiWrap lib ''api/v1/metrics'' (apiMetrics pr marshal))]"

section \<open>Lemmas\<close>

lemma makeLabels_lookup: "fmlookup (makeLabels m) n = labelValue (rev (mLabel m)) n"
proof -
  have "fmlookup (fold (\<lambda>lp result. fmupd (GetName lp) (GetValue lp) result) lps fmempty) n = labelValue (rev lps) n" for lps
    by (induction lps rule: rev_induct) simp_all
  then show ?thesis by (simp add: makeLabels_def)
qed

text \<open>
  Where the handler \<open>metrics\<close> panics: at a native histogram whose buckets do, or at a group whose push times have no
  gauge.
\<close>

definition bucketsPanic :: "hist_lib \<Rightarrow> Metric \<Rightarrow> bool" where
  "bucketsPanic lib m =
     (let h = GetHistogram m in
      0 < length (hNegativeSpan h) + length (hPositiveSpan h) \<and>
      (case NewModelHistogram h of
         (Some mh, _) \<Rightarrow> NegativeBuckets lib mh = None \<or> PositiveBuckets lib mh = None \<or> mhZeroCount mh \<noteq> 0 \<and> ZeroBucket lib mh = None
       | (None, Some fh) \<Rightarrow>
           NegativeFloatBuckets lib fh = None \<or> PositiveFloatBuckets lib fh = None \<or>
           \<not> f64_zero (fhZeroCount fh) \<and> ZeroFloatBucket lib fh = None
       | (None, None) \<Rightarrow> True))"

definition familyPanics :: "hist_lib \<Rightarrow> MetricFamily \<Rightarrow> bool" where
  "familyPanics lib mf \<longleftrightarrow> GetType mf = HISTOGRAM \<and> list_ex (bucketsPanic lib) (mfMetric mf)"

definition groupPanics :: "hist_lib \<Rightarrow> MetricGroup \<Rightarrow> bool" where
  "groupPanics lib g \<longleftrightarrow> LastPushSuccess g = None \<or>
     list_ex (\<lambda>name. case familyOf g name of None \<Rightarrow> False | Some mf \<Rightarrow> familyPanics lib mf) (sortedKeys (mgMetrics g))"

lemma encodeMetric_panics: "encodeMetric pr t m = None \<longleftrightarrow> t = HISTOGRAM \<and> bucketsPanic (HistLib pr) m"
  by (cases t)
    (auto simp: encodeMetric_def bucketsPanic_def Let_def GetAPIBuckets_def GetAPIFloatBuckets_def apiBuckets_panics
      split: prod.split option.split)

lemma makeEncodable_panics:
  "makeEncodableMetrics pr ms t = None \<longleftrightarrow> t = HISTOGRAM \<and> list_ex (bucketsPanic (HistLib pr)) ms"
proof (induction ms)
  case (Cons m ms)
  then show ?case using encodeMetric_panics [of pr t m] by (auto split: option.split)
qed simp

lemma familyJson_panics:
  "familyJson pr tmf = None \<longleftrightarrow> (case tmfFamily tmf of None \<Rightarrow> False | Some mf \<Rightarrow> familyPanics (HistLib pr) mf)"
  by (simp add: familyJson_def GetMetricFamily_def familyPanics_def makeEncodable_panics split: option.split)

lemma familyEntries_panics:
  "set names \<subseteq> fmdom' families \<Longrightarrow>
   familyEntries pr families names r = None \<longleftrightarrow>
     (\<exists>name \<in> set names. Option.bind (fmlookup families name) (familyJson pr) = None)"
  by (induction names arbitrary: r) (auto split: option.splits)

lemma familyEntries_lookup:
  "set names \<subseteq> fmdom' families \<Longrightarrow> familyEntries pr families names r = Some r' \<Longrightarrow>
   fmlookup r' n = (if n \<in> set names then map_option GFamily (Option.bind (fmlookup families n) (familyJson pr)) else fmlookup r n)"
  by (induction names arbitrary: r) (auto simp: fmdom'_iff_Some split: option.splits if_splits)

lemma groupResponse_panics: "groupResponse pr g = None \<longleftrightarrow> groupPanics (HistLib pr) g"
proof -
  have "(Option.bind (fmlookup (mgMetrics g) name) (familyJson pr) = None) =
      (case familyOf g name of None \<Rightarrow> False | Some mf \<Rightarrow> familyPanics (HistLib pr) mf)"
    if "name \<in> fmdom' (mgMetrics g)" for name
    using that by (auto simp: fmdom'_iff_Some familyOf_def familyJson_panics)
  then show ?thesis
    by (simp add: groupResponse_def groupPanics_def familyEntries_panics list_ex_iff cong: bex_cong split: option.split)
qed

lemma metricsData_panics: "metricsData pr vs = None \<longleftrightarrow> list_ex (groupPanics (HistLib pr)) vs"
  by (induction vs) (auto simp: groupResponse_panics [symmetric] split: option.splits)

text \<open>
  Every completed response goes out as JSON with the status 200: also that of a marshalling error, whose
  400 comes after the status was sent.
\<close>

lemma respond_sent:
  "respond marshal d w = Some w' \<Longrightarrow> wSent w = None \<Longrightarrow>
   wSent w' = Some (200, fmupd ''Content-Type'' ''application/json'' (wHeader w))"
  by (auto simp: respond_def respondError_def Let_def split: sum.splits)

lemma respond_returns: "\<exists>w'. respond marshal d w = Some w'"
  by (simp add: respond_def respondError_def Let_def split: sum.split)

lemma marshal_error_keeps_200:
  assumes "marshal \<lparr>rsStatus = ''success'', rsData = d, rsErrorType = errorNone, rsError = ''''\<rparr> = Inl err"
  shows "map_option sentStatus (respond marshal d newWriter) = Some 200"
  using respond_returns [of marshal d newWriter] respond_sent [of marshal d newWriter]
  by (auto simp: sentStatus_def)

lemma setCORS_sel [simp]: "wSent (setCORS w) = wSent w" "wBody (setCORS w) = wBody w"
  by (simp_all add: setCORS_def corsHeaders_def)

lemma setCORS_headers: "(h, v) \<in> set corsHeaders \<Longrightarrow> fmlookup (wHeader (setCORS w)) h = Some v"
  by (auto simp: setCORS_def corsHeaders_def)

lemma cors_not_content_type: "(h, v) \<in> set corsHeaders \<Longrightarrow> h \<noteq> ''Content-Type''"
  by (auto simp: corsHeaders_def)

section \<open>Properties\<close>

text \<open>
  What the API shows for a group: an entry for every family under its name, the labels and the outcome of
  the last push under their fixed keys.  The keys share one map, so a family named \<open>labels\<close> or
  \<open>last_push_successful\<close> hides the fixed entry.
\<close>

lemma api_group_entries:
  assumes "LastPushSuccess g = Some ok" "groupResponse pr g = Some r"
  shows "fmlookup r n = (case fmlookup (mgMetrics g) n of
        Some tmf \<Rightarrow> map_option GFamily (familyJson pr tmf)
      | None \<Rightarrow> if n = ''labels'' then Some (GLabels (mgLabels g))
                else if n = ''last_push_successful'' then Some (GFlag ok) else None)"
proof -
  let ?r0 = "fmupd ''last_push_successful'' (GFlag ok) (fmupd ''labels'' (GLabels (mgLabels g)) fmempty)"
  have "familyEntries pr (mgMetrics g) (sortedKeys (mgMetrics g)) ?r0 = Some r"
    using assms by (simp add: groupResponse_def)
  then have "fmlookup r n = (if n \<in> fmdom' (mgMetrics g)
      then map_option GFamily (Option.bind (fmlookup (mgMetrics g) n) (familyJson pr)) else fmlookup ?r0 n)"
    using familyEntries_lookup [of "sortedKeys (mgMetrics g)" "mgMetrics g" pr ?r0 r n] by simp
  then show ?thesis by (simp add: fmdom'_iff_not_None split: option.split)
qed

end
