(* ===== verification/MainCfg.thy ===== *)
theory MainCfg
  imports Responses ApiV1 Persistence
begin

text \<open>
  The wiring of main.go: the flags and their defaults, the route prefix, the decoding of request bodies, the
  table of routes with the handlers behind them, the mount of the API, the pprof dispatch and the life
  cycle handlers.  Flag parsing, \<open>path.Join\<close>, the decompressors and the router itself are library code.
\<close>

section \<open>Flags\<close>

text \<open>The values of the flags that the program itself declares, with the path of the external URL.\<close>

record main_flags =
  flMetricsPath :: string
  flExternalURLPath :: string
  flRoutePrefix :: string
  flEnableLifeCycle :: bool
  flEnableAdminAPI :: bool
  flPersistenceFile :: string
  flPersistenceInterval :: int
  flPushUnchecked :: bool
  flPushUTF8Names :: bool

definition defaultFlags :: main_flags where
  "defaultFlags = \<lparr>flMetricsPath = ''/metrics'', flExternalURLPath = '''', flRoutePrefix = '''',
     flEnableLifeCycle = False, flEnableAdminAPI = False, flPersistenceFile = '''',
     flPersistenceInterval = 5 * 60 * 1000000000, flPushUnchecked = False, flPushUTF8Names = False\<rparr>"

text \<open>The flags shown on the status page and by the API: all but those that every kingpin program has.\<close>

definition shownFlags :: "(string \<Rightarrow> bool) \<Rightarrow> (string \<times> string) list \<Rightarrow> labels" where
  "shownFlags boilerplate modelFlags =
     fold (\<lambda>(name, v) flags. if \<not> boilerplate name then fmupd name v flags else flags) modelFlags fmempty"

datatype escaping_scheme = NoEscaping | ValueEncodingEscaping

datatype validation_scheme = LegacyValidation | UTF8Validation

definition namingSchemes :: "bool \<Rightarrow> escaping_scheme \<times> validation_scheme" where
  "namingSchemes utf8Names =
     (if utf8Names then (ValueEncodingEscaping, UTF8Validation) else (NoEscaping, LegacyValidation))"

text \<open>The gatherers behind the scraped metrics: the default one, and the families of the store, which never fail.\<close>

definition scrapeGatherers ::
  "(string + MetricFamily list) \<Rightarrow> range_order \<Rightarrow> DiskMetricStore \<Rightarrow> (string + MetricFamily list) list" where
  "scrapeGatherers gathered order ms =
     [gathered, Inr (GetMetricFamilies (predefinedHelp ms) (metricGroups ms) order)]"

section \<open>Route prefix\<close>

text \<open>The path of the external URL is an argument.\<close>

definition computeRoutePrefix :: "string \<Rightarrow> string \<Rightarrow> string" where
  "computeRoutePrefix pre externalPath =
     (let p = (if pre = '''' then externalPath else pre) in
      if p = ''/'' then ''''
      else let q = (if \<not> HasPrefix p ''/'' then ''/'' @ p else p) in TrimSuffix q ''/'')"

definition apiPath :: "string \<Rightarrow> string" where
  "apiPath routePrefix = (if routePrefix \<noteq> ''/'' then routePrefix @ ''/api'' else ''/api'')"

section \<open>Request decoding\<close>

datatype body_decoder = PlainBody | GzipBody | SnappyBody

definition bodyDecoder :: "string \<Rightarrow> body_decoder" where
  "bodyDecoder contentEncoding =
     (let e = ToLower contentEncoding in
      if e = ''gzip'' then GzipBody else if e = ''snappy'' then SnappyBody else PlainBody)"

text \<open>
  A gzip header that cannot be read is answered at once.  Otherwise the handler reads the body through the
  decoder, which meets the errors of the body and its own only while it is read.
\<close>

definition decodeRequest ::
  "(body \<Rightarrow> string + body) \<Rightarrow> (body \<Rightarrow> body) \<Rightarrow> (body \<Rightarrow> 'r) \<Rightarrow> string \<Rightarrow> body \<Rightarrow> reply + 'r" where
  "decodeRequest gunzip unsnappy h contentEncoding body =
     (case bodyDecoder contentEncoding of
        GzipBody \<Rightarrow> (case gunzip body of Inl err \<Rightarrow> Inl (BadRequest (BadBody err)) | Inr b \<Rightarrow> Inr (h b))
      | SnappyBody \<Rightarrow> Inr (h (unsnappy body))
      | PlainBody \<Rightarrow> Inr (h body))"

section \<open>Routes\<close>

datatype http_method = MethodGet | MethodPut | MethodPost | MethodDelete

datatype route_handler =
    RouteHealthy | RouteReady | RouteScrape | RouteStatic string | RouteStatus | RoutePprof
  | RoutePush bool bool bool
  | RouteDelete bool
  | RouteQuit | RouteForbidden | RouteMethodNotAllowed

type_synonym route = "http_method \<times> string \<times> route_handler"

text \<open>The body of the loop over the two suffixes.\<close>

definition pushRoutes :: "string \<Rightarrow> bool \<Rightarrow> string \<Rightarrow> route list" where
  "pushRoutes pushAPIPath pushUnchecked sfx =
     (let b64 = (sfx = Base64Suffix); base = pushAPIPath @ ''/job'' @ sfx in
      [(MethodPut, base @ ''/:job/*labels'', RoutePush True (\<not> pushUnchecked) b64),
       (MethodPost, base @ ''/:job/*labels'', RoutePush False (\<not> pushUnchecked) b64),
       (MethodDelete, base @ ''/:job/*labels'', RouteDelete b64),
       (MethodPut, base @ ''/:job'', RoutePush True (\<not> pushUnchecked) b64),
       (MethodPost, base @ ''/:job'', RoutePush False (\<not> pushUnchecked) b64),
       (MethodDelete, base @ ''/:job'', RouteDelete b64)])"

definition routes :: "(string \<Rightarrow> string \<Rightarrow> string) \<Rightarrow> string \<Rightarrow> string \<Rightarrow> bool \<Rightarrow> bool \<Rightarrow> route list" where
  "routes pathJoin routePrefix metricsPath pushUnchecked enableLifeCycle =
     [(MethodGet, routePrefix @ ''/-/healthy'', RouteHealthy),
      (MethodGet, routePrefix @ ''/-/ready'', RouteReady),
      (MethodGet, pathJoin routePrefix metricsPath, RouteScrape)] @
     concat (map (pushRoutes (routePrefix @ ''/metrics'') pushUnchecked) ['''', Base64Suffix]) @
     [(MethodGet, routePrefix @ ''/static/*filepath'', RouteStatic routePrefix),
      (MethodGet, routePrefix @ ''/status'', RouteStatus),
      (MethodGet, routePrefix @ ''/'', RouteStatus),
      (MethodGet, routePrefix @ ''/debug/pprof/*pprof'', RoutePprof)] @
     (if enableLifeCycle
      then [(MethodPut, routePrefix @ ''/-/quit'', RouteQuit), (MethodPost, routePrefix @ ''/-/quit'', RouteQuit)]
      else [(MethodPut, routePrefix @ ''/-/quit'', RouteForbidden), (MethodPost, routePrefix @ ''/-/quit'', RouteForbidden)]) @
     [(MethodGet, ''/-/quit'', RouteMethodNotAllowed)]"

text \<open>The table as \<open>main\<close> builds it from the flags, and the prefix that the status page links with.\<close>

definition mainRoutes :: "(string \<Rightarrow> string \<Rightarrow> string) \<Rightarrow> main_flags \<Rightarrow> route list" where
  "mainRoutes pathJoin fl =
     routes pathJoin (computeRoutePrefix (flRoutePrefix fl) (flExternalURLPath fl)) (flMetricsPath fl)
       (flPushUnchecked fl) (flEnableLifeCycle fl)"

definition externalPathPrefix :: "main_flags \<Rightarrow> string" where
  "externalPathPrefix fl = computeRoutePrefix '''' (flExternalURLPath fl)"

text \<open>The build information that the API and the status page show, from the variables of package \<open>version\<close>.\<close>

record version_info =
  viVersion :: string
  viRevision :: string
  viBranch :: string
  viBuildUser :: string
  viBuildDate :: string
  viGoVersion :: string

definition buildInfo :: "version_info \<Rightarrow> labels" where
  "buildInfo v = fmap_of_list
     [(''version'', viVersion v), (''revision'', viRevision v), (''branch'', viBranch v),
      (''buildUser'', viBuildUser v), (''buildDate'', viBuildDate v), (''goVersion'', viGoVersion v)]"

datatype pprof_handler = PprofCmdline | PprofProfile | PprofSymbol | PprofIndex

definition handlePprof :: "string \<Rightarrow> pprof_handler" where
  "handlePprof param =
     (if param = ''/cmdline'' then PprofCmdline else if param = ''/profile'' then PprofProfile
      else if param = ''/symbol'' then PprofSymbol else PprofIndex)"

text \<open>The responses of the life cycle routes.\<close>

definition quitResponse :: "writer \<Rightarrow> writer" where
  "quitResponse w = WriteBody ''Requesting termination... Goodbye!'' w"

definition forbiddenAPINotEnabled :: "writer \<Rightarrow> writer" where
  "forbiddenAPINotEnabled w = WriteBody ''Lifecycle API is not enabled.'' (WriteHeader 403 w)"

definition quitMethodNotAllowed :: "writer \<Rightarrow> writer" where
  "quitMethodNotAllowed w = WriteBody ''Only POST or PUT requests allowed.'' (WriteHeader 405 w)"

text \<open>
  The mount of the API next to everything else: \<open>http.ServeMux\<close> takes the longer pattern, and
  \<open>http.StripPrefix\<close> leaves the rest of the path to the API's own router; a path that lacks only the slash of
  the pattern is redirected.  The path is the one that the mux has cleaned.
\<close>

datatype mux_target = MuxAPI string | MuxRedirect string | MuxMain string

definition serveMux :: "string \<Rightarrow> string \<Rightarrow> mux_target" where
  "serveMux rp path =
     (let mount = apiPath rp @ ''/v1'' in
      if HasPrefix path (mount @ ''/'') then MuxAPI (drop (length mount) path)
      else if path = mount then MuxRedirect (mount @ ''/'') else MuxMain path)"

text \<open>
  The routes of the API router, those of \<open>Register\<close> and, if it is enabled, the wipe handler, of which this is the
  response; the requests that it submits are those of \<open>WipeMetricStore\<close>.
\<close>

definition apiRouter ::
  "api_handler instrument_lib \<Rightarrow> printer \<Rightarrow> (response \<Rightarrow> string + string) \<Rightarrow> API \<Rightarrow> bool \<Rightarrow>
   (api_method \<times> string \<times> api_handler) list" where
  "apiRouter lib pr marshal api enableAdminAPI =
     Register lib pr marshal api @
     (if enableAdminAPI
      then [(ApiPut, ''/admin/wipe'', InstrumentWithCounter lib ''wipe'' (\<lambda>gs w. Some (respondWipe w)))] else [])"

text \<open>Whether the quit channel is closed; closing it a second time panics.\<close>

definition quitHandler :: "bool \<Rightarrow> bool option" where
  "quitHandler quitClosed = (if quitClosed then None else Some True)"

section \<open>Lemmas\<close>

lemma TrimSuffix_slash: "TrimSuffix (s @ ''/'') ''/'' = s"
  by simp

lemma HasSuffix_snoc: "HasSuffix (s @ [c]) [d] \<longleftrightarrow> c = d"
  by (simp add: HasSuffix_def)

text \<open>A prefix with two slashes at its end keeps one of them.\<close>

lemma double_slash_kept:
  "computeRoutePrefix ''//'' path = ''/''" "computeRoutePrefix ''/foo//'' path = ''/foo/''"
  by (simp_all add: computeRoutePrefix_def Let_def HasPrefix_def TrimSuffix_def HasSuffix_def)

lemma second_quit_panics: "Option.bind (quitHandler False) quitHandler = None"
  by (simp add: quitHandler_def)

text \<open>Every push route replaces exactly for PUT, checks as configured, and decodes the job exactly on the base64 path.\<close>

lemma push_routes_consistent:
  "list_all (\<lambda>(m, pat, h). case h of
      RoutePush replace check b64 \<Rightarrow> (m = MethodPut \<and> replace \<or> m = MethodPost \<and> \<not> replace) \<and>
        check = (\<not> pushUnchecked) \<and> HasPrefix pat (rp @ ''/metrics/job'' @ (if b64 then Base64Suffix else '''') @ ''/:job'')
    | RouteDelete b64 \<Rightarrow> m = MethodDelete \<and>
        HasPrefix pat (rp @ ''/metrics/job'' @ (if b64 then Base64Suffix else '''') @ ''/:job'')
    | _ \<Rightarrow> True) (routes pathJoin rp mp pushUnchecked lifecycle)"
  by (simp add: routes_def pushRoutes_def Let_def HasPrefix_iff Base64Suffix_def)

text \<open>Trimming one slash of a path that starts with a slash.\<close>

lemma trim_slash:
  assumes q: "q = CHR ''/'' # r" and t: "t = TrimSuffix q ''/''"
  shows "(t = '''' \<or> HasPrefix t ''/'') \<and> (HasSuffix q ''//'' \<or> t = '''' \<or> last t \<noteq> CHR ''/'')"
proof (cases r rule: rev_cases)
  case Nil
  then have "t = ''''" by (simp add: t q TrimSuffix_def HasSuffix_def)
  then show ?thesis by simp
next
  case (snoc r' c)
  show ?thesis
  proof (cases "c = CHR ''/''")
    case True
    then have t': "t = CHR ''/'' # r'" using TrimSuffix_slash [of "CHR ''/'' # r'"] snoc by (simp add: t q)
    have "HasSuffix q ''//'' \<or> last t \<noteq> CHR ''/''"
      unfolding t' q snoc True by (cases r' rule: rev_cases) (auto simp: HasSuffix_iff)
    then show ?thesis by (auto simp: t' HasPrefix_def)
  next
    case False
    then have "\<not> HasSuffix q ''/''" using HasSuffix_snoc [of "CHR ''/'' # r'" c] snoc by (simp add: q)
    then have "t = q" by (simp add: t TrimSuffix_def)
    then show ?thesis using False snoc by (simp add: q HasPrefix_def)
  qed
qed

lemma serveMux_api: "serveMux rp (apiPath rp @ ''/v1'' @ ''/'' @ rest) = MuxAPI (''/'' @ rest)"
  by (simp add: serveMux_def Let_def HasPrefix_def)

text \<open>The wipe handler is reachable only if the flag says so.\<close>

lemma wipe_needs_flag:
  "(\<exists>h. (ApiPut, path, h) \<in> set (apiRouter lib pr marshal api enableAdminAPI)) \<longleftrightarrow> enableAdminAPI \<and> path = ''/admin/wipe''"
  by (auto simp: apiRouter_def Register_def)

lemma lifecycle_status:
  "sentStatus (quitResponse newWriter) = 200" "sentStatus (forbiddenAPINotEnabled newWriter) = 403"
  "sentStatus (quitMethodNotAllowed newWriter) = 405"
  by (simp_all add: quitResponse_def forbiddenAPINotEnabled_def quitMethodNotAllowed_def) (simp_all add: sentStatus_def)

lemma shownFlags_lookup:
  "fmlookup (shownFlags boilerplate modelFlags) n =
     (if boilerplate n then None else map_of (rev modelFlags) n)"
  unfolding shownFlags_def
  by (induction modelFlags rule: rev_induct) auto

text \<open>
  The explanation for a GET on the quit path is registered without the route prefix, so with a prefix the GET of the
  path that PUT and POST use is not routed to it.
\<close>

lemma quit_get_without_prefix:
  assumes "rp \<noteq> ''''" "pathJoin rp mp \<noteq> rp @ ''/-/quit''"
  shows "(MethodGet, rp @ ''/-/quit'', h) \<notin> set (routes pathJoin rp mp unchecked lifecycle)"
  using assms by (auto simp: routes_def pushRoutes_def Let_def Base64Suffix_def)

section \<open>Properties\<close>

text \<open>
  Unless the configured prefix ends with two slashes, the route prefix is empty, or starts with a
  slash and does not end with one, so that every path appended to it follows exactly one slash.
\<close>

lemma route_prefix_normalised:
  assumes "\<not> HasSuffix (if pre = '''' then externalPath else pre) ''//''"
  shows "computeRoutePrefix pre externalPath = '''' \<or>
    HasPrefix (computeRoutePrefix pre externalPath) ''/'' \<and> last (computeRoutePrefix pre externalPath) \<noteq> CHR ''/''"
proof -
  let ?c = "if pre = '''' then externalPath else pre"
  let ?p = "computeRoutePrefix pre externalPath"
  show ?thesis
  proof (cases "?c = ''/''")
    case True
    then show ?thesis by (simp add: computeRoutePrefix_def Let_def)
  next
    case False
    define q where "q = (if \<not> HasPrefix ?c ''/'' then ''/'' @ ?c else ?c)"
    have p: "?p = TrimSuffix q ''/''"
      using False unfolding computeRoutePrefix_def q_def Let_def by simp
    have "\<exists>r. q = CHR ''/'' # r" by (cases "HasPrefix ?c ''/''") (simp_all add: q_def HasPrefix_iff)
    then obtain r where q: "q = CHR ''/'' # r" ..
    have "HasSuffix q ''//'' \<Longrightarrow> HasSuffix ?c ''//''"
      by (auto simp: q_def HasSuffix_iff HasPrefix_iff Cons_eq_append_conv split: if_splits)
    then show ?thesis using trim_slash [OF q p] assms by blast
  qed
qed

end
