(* ===== verification/Process.thy ===== *)
theory Process
  imports MainCfg
begin

text \<open>
  The whole process as \<open>main\<close> of main.go composes it: the HTTP server with the push and delete handlers that are
  running, the wipe handler, the write loop of the store behind them, and the order in which \<open>main\<close> shuts
  them down.  A push or a deletion is in one of three phases, and its number is that of the answer channel it makes;
  a wipe has the groups that it has not yet deleted, and the request it is about to submit.  The server is
  package net/http: of it the model uses that \<open>ListenAndServe\<close> returns as soon as \<open>Shutdown\<close> is
  called, while handlers still run, which is its documented behaviour; a request on a connection that was
  already active may even reach its handler after that.
\<close>

section \<open>State\<close>

datatype handler_phase =
    Submitting WriteRequest
  | Waiting WriteRequest
  | Wiping "labels list"
  | WipeSubmitting WriteRequest "labels list"
  | Replied "WriteRequest option" reply

datatype main_pc = Serving | ServerStopped | StoreStopping | Exited

record process =
  psLoop :: loop_state
  psHandlers :: "(nat, handler_phase) fmap"
  psQuitClosed :: bool
  psSignalled :: bool
  psMain :: main_pc

record proc_env =
  peLoop :: loop_env
  peHandlers :: handler_env

definition initProcess :: "DiskMetricStore \<Rightarrow> gotime \<Rightarrow> GroupingKeyToMetricGroup option \<Rightarrow> process" where
  "initProcess dms t disk = \<lparr>psLoop = initLoop dms t disk, psHandlers = fmempty, psQuitClosed = False,
     psSignalled = False, psMain = Serving\<rparr>"

section \<open>Handlers\<close>

text \<open>A push or a deletion up to the point where it submits, at the time of the clock.\<close>

definition startPush :: "handler_env \<Rightarrow> bool \<Rightarrow> bool \<Rightarrow> bool \<Rightarrow> http_request \<Rightarrow> nat \<Rightarrow> process \<Rightarrow> process" where
  "startPush env replace check b64 r h p =
     p\<lparr>psHandlers := fmupd h
        (case pushRequest env replace check b64 (lsNow (psLoop p)) h r of
           Inl err \<Rightarrow> Replied None (BadRequest err)
         | Inr wr \<Rightarrow> Submitting wr) (psHandlers p)\<rparr>"

definition startDelete :: "handler_env \<Rightarrow> bool \<Rightarrow> http_request \<Rightarrow> nat \<Rightarrow> process \<Rightarrow> process" where
  "startDelete env b64 r h p =
     p\<lparr>psHandlers := fmupd h
        (case targetLabels env b64 r of
           Inl err \<Rightarrow> Replied None (BadRequest err)
         | Inr lbls \<Rightarrow> Submitting (deleteRequest lbls (lsNow (psLoop p)))) (psHandlers p)\<rparr>"

text \<open>The submission: with an answer channel the handler goes on to wait, without one it is done.\<close>

definition submitHandler :: "nat \<Rightarrow> WriteRequest \<Rightarrow> process \<Rightarrow> process" where
  "submitHandler h wr p =
     p\<lparr>psLoop := SubmitWriteRequest wr (psLoop p),
       psHandlers := fmupd h
         (case wrDone wr of None \<Rightarrow> Replied (Some wr) StatusAccepted | Some ch \<Rightarrow> Waiting wr) (psHandlers p)\<rparr>"

text \<open>The errors that a handler receives until its channel is closed, and its answer.\<close>

definition receivedErrors :: "loop_state \<Rightarrow> nat \<Rightarrow> string list" where
  "receivedErrors l ch = map snd (filter (\<lambda>x. fst x = ch) (lsSent l))"

definition answerHandler :: "nat \<Rightarrow> WriteRequest \<Rightarrow> nat \<Rightarrow> process \<Rightarrow> process" where
  "answerHandler h wr ch p =
     p\<lparr>psHandlers := fmupd h (Replied (Some wr) (pushReply True (receivedErrors (psLoop p) ch))) (psHandlers p)\<rparr>"

text \<open>
  The wipe handler: it copies the map of groups, which it meets in the order \<open>keys\<close>, and then in each turn of
  its loop reads the clock for a request and submits it, and goes on without waiting for the outcome.
\<close>

definition startWipe :: "string list \<Rightarrow> nat \<Rightarrow> process \<Rightarrow> process" where
  "startWipe keys h p =
     p\<lparr>psHandlers := fmupd h
        (Wiping (map wrLabels (WipeMetricStore (GetMetricFamiliesMap (lsStore (psLoop p))) (map (\<lambda>k. (k, lsNow (psLoop p))) keys))))
        (psHandlers p)\<rparr>"

definition nextWipe :: "nat \<Rightarrow> labels list \<Rightarrow> process \<Rightarrow> process" where
  "nextWipe h ls p =
     p\<lparr>psHandlers := fmupd h
        (case ls of [] \<Rightarrow> Replied None StatusAccepted
         | l # rest \<Rightarrow> WipeSubmitting (deleteRequest l (lsNow (psLoop p))) rest) (psHandlers p)\<rparr>"

definition submitWipe :: "nat \<Rightarrow> WriteRequest \<Rightarrow> labels list \<Rightarrow> process \<Rightarrow> process" where
  "submitWipe h wr rest p =
     p\<lparr>psLoop := SubmitWriteRequest wr (psLoop p), psHandlers := fmupd h (Wiping rest) (psHandlers p)\<rparr>"

lemmas handler_ops = startPush_def startDelete_def submitHandler_def answerHandler_def startWipe_def nextWipe_def submitWipe_def

text \<open>A step that the store takes by itself.\<close>

definition internal_step :: "loop_env \<Rightarrow> loop_state \<Rightarrow> loop_state \<Rightarrow> bool" where
  "internal_step env l l' \<longleftrightarrow> loop_step env l l' \<and> lsSubmitted l' = lsSubmitted l \<and> lsDrain l' = lsDrain l"

section \<open>Steps\<close>

text \<open>What wakes \<open>shutdownServerOnQuit\<close> from its \<open>select\<close>: a signal, or the closed channel of the quit handler.\<close>

definition quitRequested :: "process \<Rightarrow> bool" where
  "quitRequested p \<longleftrightarrow> psSignalled p \<or> psQuitClosed p"

declare quitRequested_def [simp]

text \<open>
  \<open>main\<close> returns from \<open>ListenAndServe\<close> because \<open>shutdownServerOnQuit\<close>, woken by a signal or by the quit handler, has called
  \<open>Shutdown\<close> on the server, or because the server failed; it then shuts the store down and exits, and with it
  every handler.
\<close>

inductive process_step :: "proc_env \<Rightarrow> process \<Rightarrow> process \<Rightarrow> bool" for env where
  push_arrives: "psMain p \<noteq> Exited \<Longrightarrow> h \<notin> fmdom' (psHandlers p) \<Longrightarrow>
    process_step env p (startPush (peHandlers env) replace check b64 r h p)"
| delete_arrives: "psMain p \<noteq> Exited \<Longrightarrow> h \<notin> fmdom' (psHandlers p) \<Longrightarrow>
    process_step env p (startDelete (peHandlers env) b64 r h p)"
| submit: "psMain p \<noteq> Exited \<Longrightarrow> fmlookup (psHandlers p) h = Some (Submitting wr) \<Longrightarrow>
    length (lsQueue (psLoop p)) < writeQueueCapacity \<Longrightarrow> process_step env p (submitHandler h wr p)"
| store: "psMain p \<noteq> Exited \<Longrightarrow> internal_step (peLoop env) (psLoop p) l \<Longrightarrow> process_step env p (p\<lparr>psLoop := l\<rparr>)"
| answer: "psMain p \<noteq> Exited \<Longrightarrow> fmlookup (psHandlers p) h = Some (Waiting wr) \<Longrightarrow> wrDone wr = Some ch \<Longrightarrow>
    ch \<in> set (lsClosed (psLoop p)) \<Longrightarrow> process_step env p (answerHandler h wr ch p)"
| wipe_arrives: "psMain p \<noteq> Exited \<Longrightarrow> h \<notin> fmdom' (psHandlers p) \<Longrightarrow> distinct keys \<Longrightarrow>
    set keys = fmdom' (metricGroups (lsStore (psLoop p))) \<Longrightarrow> process_step env p (startWipe keys h p)"
| wipe_turn: "psMain p \<noteq> Exited \<Longrightarrow> fmlookup (psHandlers p) h = Some (Wiping ls) \<Longrightarrow>
    process_step env p (nextWipe h ls p)"
| wipe_submit: "psMain p \<noteq> Exited \<Longrightarrow> fmlookup (psHandlers p) h = Some (WipeSubmitting wr rest) \<Longrightarrow>
    length (lsQueue (psLoop p)) < writeQueueCapacity \<Longrightarrow> process_step env p (submitWipe h wr rest p)"
| quit: "psMain p \<noteq> Exited \<Longrightarrow> quitHandler (psQuitClosed p) = Some c \<Longrightarrow> process_step env p (p\<lparr>psQuitClosed := c\<rparr>)"
| signal: "psMain p \<noteq> Exited \<Longrightarrow> process_step env p (p\<lparr>psSignalled := True\<rparr>)"
| server_stops: "psMain p = Serving \<Longrightarrow> quitRequested p \<Longrightarrow> process_step env p (p\<lparr>psMain := ServerStopped\<rparr>)"
| server_fails: "psMain p = Serving \<Longrightarrow> process_step env p (p\<lparr>psMain := ServerStopped\<rparr>)"
| store_shutdown: "psMain p = ServerStopped \<Longrightarrow>
    process_step env p (p\<lparr>psLoop := Shutdown (psLoop p), psMain := StoreStopping\<rparr>)"
| exit: "psMain p = StoreStopping \<Longrightarrow> lsPc (psLoop p) = Finished ok \<Longrightarrow> process_step env p (p\<lparr>psMain := Exited\<rparr>)"

inductive_cases process_stepE: "process_step env p p'"

section \<open>What the answers are, from the history\<close>

definition outcome :: "loop_env \<Rightarrow> DiskMetricStore \<Rightarrow> (WriteRequest \<times> order_choice) list \<Rightarrow> nat \<Rightarrow> string option" where
  "outcome env dms ws k = snd (handleWrite (envConsts env) (envGather env) (snd (ws ! k)) (runWrites env (take k ws) dms) (fst (ws ! k)))"

definition sentErrors :: "loop_env \<Rightarrow> DiskMetricStore \<Rightarrow> (WriteRequest \<times> order_choice) list \<Rightarrow> (nat \<times> string) list" where
  "sentErrors env dms ws = concat (map (\<lambda>k. sendError (fst (ws ! k)) (outcome env dms ws k)) [0..<length ws])"

definition channels :: "WriteRequest list \<Rightarrow> nat list" where
  "channels wrs = concat (map doneOf wrs)"

lemma channels_simps [simp]: "channels [] = []" "channels (wr # wrs) = doneOf wr @ channels wrs"
  "channels (ws @ wrs) = channels ws @ channels wrs"
  by (simp_all add: channels_def)

lemma outcome_append: "k < length ws \<Longrightarrow> outcome env dms (ws @ vs) k = outcome env dms ws k"
  by (simp add: outcome_def nth_append)

lemma sentErrors_snoc:
  "sentErrors env dms (ws @ [(wr, order)]) = sentErrors env dms ws @
     sendError wr (snd (handleWrite (envConsts env) (envGather env) order (runWrites env ws dms) wr))"
proof -
  let ?ws = "ws @ [(wr, order)]"
  let ?f = "\<lambda>k. sendError (fst (?ws ! k)) (outcome env dms ?ws k)"
  have "sentErrors env dms ?ws = concat (map ?f [0..<length ws]) @ ?f (length ws)"
    by (simp add: sentErrors_def)
  moreover have "map ?f [0..<length ws] = map (\<lambda>k. sendError (fst (ws ! k)) (outcome env dms ws k)) [0..<length ws]"
    by (rule map_cong) (simp_all add: outcome_append nth_append)
  moreover have "?f (length ws) =
      sendError wr (snd (handleWrite (envConsts env) (envGather env) order (runWrites env ws dms) wr))"
    by (simp add: outcome_def)
  ultimately show ?thesis by (simp only: sentErrors_def)
qed

lemma distinct_concat_nth:
  "distinct (concat xss) \<Longrightarrow> i < length xss \<Longrightarrow> j < length xss \<Longrightarrow> x \<in> set (xss ! i) \<Longrightarrow> x \<in> set (xss ! j) \<Longrightarrow> i = j"
proof (induction xss arbitrary: i j)
  case (Cons xs xss)
  have other: "y \<notin> set xs" if "k < length xss" "y \<in> set (xss ! k)" for k y
  proof -
    have "xss ! k \<in> set xss" using that(1) by simp
    then have "set xs \<inter> set (xss ! k) = {}" using Cons.prems(1) by auto
    then show ?thesis using that(2) by blast
  qed
  show ?case
    using Cons other by (cases i; cases j) auto
qed simp

lemma concat_single: "k < n \<Longrightarrow> concat (map (\<lambda>j. if j = k then xs else []) [0..<n]) = xs"
proof (induction n)
  case (Suc n)
  have "concat (map (\<lambda>j. if j = n then xs else []) [0..<n]) = []" by simp
  then show ?case using Suc by (cases "k = n") simp_all
qed simp

text \<open>With every channel used once, what is sent on a channel is the outcome of its request.\<close>

lemma sent_on_channel:
  assumes "distinct (channels (map fst ws))" "k < length ws" "wrDone (fst (ws ! k)) = Some ch"
  shows "map snd (filter (\<lambda>x. fst x = ch) (sentErrors env dms ws)) =
    (case outcome env dms ws k of None \<Rightarrow> [] | Some e \<Rightarrow> [e])"
proof -
  let ?es = "case outcome env dms ws k of None \<Rightarrow> [] | Some e \<Rightarrow> [e]"
  let ?f = "\<lambda>j. sendError (fst (ws ! j)) (outcome env dms ws j)"
  have "map snd (filter (\<lambda>x. fst x = ch) (?f j)) = (if j = k then ?es else [])" if "j < length ws" for j
  proof (cases "j = k")
    case True
    then show ?thesis using assms(3) by (simp add: sendError_def split: option.split)
  next
    case False
    have "wrDone (fst (ws ! j)) \<noteq> Some ch"
    proof
      assume "wrDone (fst (ws ! j)) = Some ch"
      then have "ch \<in> set (map doneOf (map fst ws) ! j)" "ch \<in> set (map doneOf (map fst ws) ! k)"
        using that assms(2,3) by (simp_all add: doneOf_def)
      then show False
        using distinct_concat_nth [of "map doneOf (map fst ws)" j k ch] assms(1,2) that False by (simp add: channels_def)
    qed
    then show ?thesis using False by (auto simp: sendError_def split: option.split)
  qed
  then have "map (\<lambda>j. map snd (filter (\<lambda>x. fst x = ch) (?f j))) [0..<length ws] =
      map (\<lambda>j. if j = k then ?es else []) [0..<length ws]"
    by (intro map_cong) simp_all
  moreover have "map snd (filter (\<lambda>x. fst x = ch) (sentErrors env dms ws)) =
      concat (map (\<lambda>j. map snd (filter (\<lambda>x. fst x = ch) (?f j))) [0..<length ws])"
    by (simp add: sentErrors_def filter_concat map_concat comp_def)
  ultimately show ?thesis using concat_single [OF assms(2), of ?es] by (simp only:)
qed

end
