(* ===== verification/ProcessProps.thy ===== *)
theory ProcessProps
  imports Process
begin

text \<open>
  What the composition guarantees: the store of the process behaves as the write loop alone, an answered
  push was handled with just that outcome, a waiting push can be answered as long as the loop does not
  drain; and what it does not: \<open>main\<close> does not wait for the handlers that are running when it exits.
\<close>

section \<open>The store inside the process\<close>

definition answer_inv :: "loop_env \<Rightarrow> DiskMetricStore \<Rightarrow> loop_state \<Rightarrow> bool" where
  "answer_inv env dms l \<longleftrightarrow>
     fifo_inv env dms l \<and> closed_inv l \<and>
     lsSent l = sentErrors env dms (lsApplied l) \<and>
     set (lsClosed l) \<subseteq> set (channels (map fst (lsApplied l))) \<and>
     (draining (lsPc l) \<longrightarrow> lsDrain l)"

lemma answer_inv_step:
  assumes "answer_inv env dms l" "loop_step env l l'"
  shows "answer_inv env dms l'"
proof -
  have inv: "fifo_inv env dms l" "closed_inv l" "lsSent l = sentErrors env dms (lsApplied l)"
    "set (lsClosed l) \<subseteq> set (channels (map fst (lsApplied l)))" "draining (lsPc l) \<longrightarrow> lsDrain l"
    using assms(1) by (simp_all add: answer_inv_def)
  have store: "lsStore l = runWrites env (lsApplied l) dms" using inv(1) by (simp add: fifo_inv_def)
  have "lsSent l' = sentErrors env dms (lsApplied l')"
    using assms(2) inv(3) store by (cases rule: loop_step.cases) (simp_all add: loop_ops sentErrors_snoc)
  moreover have "set (lsClosed l') \<subseteq> set (channels (map fst (lsApplied l')))"
    using assms(2) inv(4) by (cases rule: loop_step.cases) (auto simp: loop_ops doneOf_def)
  moreover have "draining (lsPc l') \<longrightarrow> lsDrain l'"
    using assms(2) inv(5) by (cases rule: loop_step.cases) (auto simp: loop_ops)
  ultimately show ?thesis
    using fifo_inv_step [OF inv(1) assms(2)] closed_inv_step [OF inv(2) assms(2)] by (simp add: answer_inv_def)
qed

lemma answer_inv_init: "is_init dms disk l \<Longrightarrow> answer_inv env dms l"
  using fifo_inv_init closed_inv_init
  by (fastforce simp: answer_inv_def is_init_def initLoop_def sentErrors_def)

interpretation answers: invariant_system "is_init dms disk" "loop_step env" "answer_inv env dms" for dms disk env
  by unfold_locales (rule answer_inv_init, assumption, rule answer_inv_step)

text \<open>Every step of the process is a step of the loop or leaves the loop as it is.\<close>

lemma process_loop_step:
  assumes "process_step env p p'" "\<not> lsDrain (psLoop p) \<or> psMain p \<noteq> ServerStopped"
  shows "psLoop p' = psLoop p \<or> loop_step (peLoop env) (psLoop p) (psLoop p')"
  using assms(1)
proof (cases rule: process_step.cases)
  case (submit h wr)
  then show ?thesis by (auto simp: submitHandler_def intro: loop_step.submit)
next
  case (wipe_submit h wr rest)
  then show ?thesis by (auto simp: submitWipe_def intro: loop_step.submit)
next
  case (store l)
  then show ?thesis by (auto simp: internal_step_def)
next
  case store_shutdown
  then show ?thesis using assms(2) by (auto intro: loop_step.shutdown)
qed (simp_all add: handler_ops)

lemma applied_grows: "loop_step env l l' \<Longrightarrow> \<exists>vs. lsApplied l' = lsApplied l @ vs"
  by (erule loop_stepE) (auto simp: loop_ops)

lemma submitted_grows: "loop_step env l l' \<Longrightarrow> set (lsSubmitted l) \<subseteq> set (lsSubmitted l')"
  by (erule loop_stepE) (auto simp: loop_ops)

section \<open>The handlers\<close>

text \<open>The reply is the outcome of handling the request at its turn.\<close>

definition answered :: "loop_env \<Rightarrow> DiskMetricStore \<Rightarrow> (WriteRequest \<times> order_choice) list \<Rightarrow> WriteRequest \<Rightarrow> reply \<Rightarrow> bool" where
  "answered env dms ws wr r \<longleftrightarrow>
     (\<exists>k < length ws. fst (ws ! k) = wr \<and>
       r = pushReply True (case outcome env dms ws k of None \<Rightarrow> [] | Some e \<Rightarrow> [e]))"

lemma answered_append:
  assumes "answered env dms ws wr r"
  shows "answered env dms (ws @ vs) wr r"
proof -
  obtain k where "k < length ws" "fst (ws ! k) = wr" "r = pushReply True (case outcome env dms ws k of None \<Rightarrow> [] | Some e \<Rightarrow> [e])"
    using assms unfolding answered_def by blast
  then show ?thesis unfolding answered_def by (intro exI [of _ k]) (simp add: outcome_append nth_append)
qed

definition phase_ok :: "loop_env \<Rightarrow> DiskMetricStore \<Rightarrow> loop_state \<Rightarrow> nat \<Rightarrow> handler_phase \<Rightarrow> bool" where
  "phase_ok env dms l h ph =
     (case ph of
        Submitting wr \<Rightarrow> wrDone wr \<in> {None, Some h} \<and> h \<notin> set (channels (lsSubmitted l))
      | Waiting wr \<Rightarrow> wrDone wr = Some h \<and> wr \<in> set (lsSubmitted l)
      | Wiping ls \<Rightarrow> True
      | WipeSubmitting wr rest \<Rightarrow> wrMetricFamilies wr = None \<and> wrDone wr = None
      | Replied None r \<Rightarrow> True
      | Replied (Some wr) r \<Rightarrow> wrDone wr \<noteq> None \<longrightarrow> answered env dms (lsApplied l) wr r)"

lemma phase_ok_simps [simp]:
  "phase_ok env dms l h (Submitting wr) \<longleftrightarrow> wrDone wr \<in> {None, Some h} \<and> h \<notin> set (channels (lsSubmitted l))"
  "phase_ok env dms l h (Waiting wr) \<longleftrightarrow> wrDone wr = Some h \<and> wr \<in> set (lsSubmitted l)"
  "phase_ok env dms l h (Wiping ls)"
  "phase_ok env dms l h (WipeSubmitting wr rest) \<longleftrightarrow> wrMetricFamilies wr = None \<and> wrDone wr = None"
  "phase_ok env dms l h (Replied None r)"
  "phase_ok env dms l h (Replied (Some wr) r) \<longleftrightarrow> (wrDone wr \<noteq> None \<longrightarrow> answered env dms (lsApplied l) wr r)"
  by (simp_all add: phase_ok_def)

definition process_inv :: "proc_env \<Rightarrow> DiskMetricStore \<Rightarrow> process \<Rightarrow> bool" where
  "process_inv env dms p \<longleftrightarrow>
     answer_inv (peLoop env) dms (psLoop p) \<and>
     (psMain p \<in> {Serving, ServerStopped} \<longrightarrow> \<not> lsDrain (psLoop p)) \<and>
     distinct (channels (lsSubmitted (psLoop p))) \<and>
     set (channels (lsSubmitted (psLoop p))) \<subseteq> fmdom' (psHandlers p) \<and>
     (\<forall>h ph. fmlookup (psHandlers p) h = Some ph \<longrightarrow> phase_ok (peLoop env) dms (psLoop p) h ph)"

lemma process_invD:
  assumes "process_inv env dms p"
  shows "answer_inv (peLoop env) dms (psLoop p)"
    and "distinct (channels (lsSubmitted (psLoop p)))"
    and "set (channels (lsSubmitted (psLoop p))) \<subseteq> fmdom' (psHandlers p)"
    and "fmlookup (psHandlers p) h = Some ph \<Longrightarrow> phase_ok (peLoop env) dms (psLoop p) h ph"
  using assms by (simp_all add: process_inv_def)

lemma phase_ok_mono:
  assumes "phase_ok env dms l h ph" "loop_step env l l'" "lsSubmitted l' = lsSubmitted l"
  shows "phase_ok env dms l' h ph"
proof -
  obtain vs where "lsApplied l' = lsApplied l @ vs" using applied_grows [OF assms(2)] by blast
  then show ?thesis using assms(1,3) answered_append
    by (auto simp: phase_ok_def split: handler_phase.splits option.splits)
qed

lemma pushRequest_channel:
  "pushRequest env replace check b64 now h r = Inr wr \<Longrightarrow> wrDone wr \<in> {None, Some h}"
  by (auto simp: pushRequest_def split: sum.splits)

lemma deleteRequest_channel: "wrDone (deleteRequest lbls now) = None"
  by (simp add: deleteRequest_def)

text \<open>A new handler, and one that changes its phase while the store stays.\<close>

lemma process_inv_handler:
  assumes "process_inv env dms p" "phase_ok (peLoop env) dms (psLoop p) h ph"
  shows "process_inv env dms (p\<lparr>psHandlers := fmupd h ph (psHandlers p)\<rparr>)"
  using assms by (auto simp: process_inv_def)

lemma process_inv_arrives:
  assumes "process_inv env dms p" "h \<notin> fmdom' (psHandlers p)"
  shows "process_inv env dms (startPush henv replace check b64 r h p)" "process_inv env dms (startDelete henv b64 r h p)"
proof -
  have new: "h \<notin> set (channels (lsSubmitted (psLoop p)))" using assms(2) process_invD(3) [OF assms(1)] by blast
  show "process_inv env dms (startPush henv replace check b64 r h p)"
    unfolding startPush_def using assms(1) new
    by (intro process_inv_handler) (auto split: sum.split dest: pushRequest_channel)
  show "process_inv env dms (startDelete henv b64 r h p)"
    unfolding startDelete_def using assms(1) new
    by (intro process_inv_handler) (auto split: sum.split simp: deleteRequest_channel)
qed

text \<open>A submission, by a handler that made the request's channel or without one.\<close>

lemma process_inv_submits:
  assumes "process_inv env dms p" "length (lsQueue (psLoop p)) < writeQueueCapacity" "h \<in> fmdom' (psHandlers p)"
    and "wrDone wr = None \<or> wrDone wr = Some h \<and> h \<notin> set (channels (lsSubmitted (psLoop p)))"
    and "phase_ok (peLoop env) dms (SubmitWriteRequest wr (psLoop p)) h ph"
  shows "process_inv env dms (p\<lparr>psLoop := SubmitWriteRequest wr (psLoop p), psHandlers := fmupd h ph (psHandlers p)\<rparr>)"
proof -
  let ?l = "psLoop p"
  let ?l' = "SubmitWriteRequest wr ?l"
  have sub: "lsSubmitted ?l' = lsSubmitted ?l @ [wr]" "lsApplied ?l' = lsApplied ?l" "lsDrain ?l' = lsDrain ?l"
    by (simp_all add: SubmitWriteRequest_def)
  have ch: "set (channels (lsSubmitted ?l')) \<subseteq> insert h (set (channels (lsSubmitted ?l)))"
    "distinct (channels (lsSubmitted ?l'))"
    using assms(4) process_invD(2) [OF assms(1)] by (auto simp: sub doneOf_def)
  have "phase_ok (peLoop env) dms ?l' h' ph'" if "fmlookup (psHandlers p) h' = Some ph'" "h' \<noteq> h" for h' ph'
  proof -
    have "phase_ok (peLoop env) dms ?l h' ph'" by (rule process_invD(4) [OF assms(1) that(1)])
    then show ?thesis using ch(1) that(2)
      by (auto simp: phase_ok_def sub split: handler_phase.splits option.splits)
  qed
  moreover have "answer_inv (peLoop env) dms ?l'"
    by (rule answer_inv_step [OF process_invD(1) [OF assms(1)] loop_step.submit [OF assms(2)]])
  ultimately show ?thesis
    using assms(1,3,5) ch by (auto simp: process_inv_def sub fmdom'_iff_Some)
qed

lemma process_inv_submit:
  assumes "process_inv env dms p" "fmlookup (psHandlers p) h = Some (Submitting wr)"
    and "length (lsQueue (psLoop p)) < writeQueueCapacity"
  shows "process_inv env dms (submitHandler h wr p)"
proof -
  have wr: "wrDone wr \<in> {None, Some h}" "h \<notin> set (channels (lsSubmitted (psLoop p)))"
    using process_invD(4) [OF assms(1,2)] by simp_all
  then show ?thesis
    unfolding submitHandler_def using assms(2)
    by (intro process_inv_submits [OF assms(1,3)])
      (auto simp: fmdom'_iff_Some SubmitWriteRequest_def split: option.split)
qed

lemma process_inv_wipe:
  assumes "process_inv env dms p" "fmlookup (psHandlers p) h = Some (WipeSubmitting wr rest)"
    and "length (lsQueue (psLoop p)) < writeQueueCapacity"
  shows "process_inv env dms (submitWipe h wr rest p)"
  unfolding submitWipe_def using assms(2) process_invD(4) [OF assms(1,2)]
  by (intro process_inv_submits [OF assms(1,3)]) (auto simp: fmdom'_iff_Some)

text \<open>A closed channel belongs to an applied request, and with distinct channels to this one.\<close>

lemma closed_channel:
  assumes "process_inv env dms p" "fmlookup (psHandlers p) h = Some (Waiting wr)" "wrDone wr = Some ch"
    and "ch \<in> set (lsClosed (psLoop p))"
  shows "answered (peLoop env) dms (lsApplied (psLoop p)) wr (pushReply True (receivedErrors (psLoop p) ch))"
proof -
  let ?l = "psLoop p"
  let ?ws = "lsApplied ?l"
  have inv: "lsSent ?l = sentErrors (peLoop env) dms ?ws" "set (lsClosed ?l) \<subseteq> set (channels (map fst ?ws))"
    "lsSubmitted ?l = map fst ?ws @ inFlight (lsPc ?l) @ lsQueue ?l" "distinct (channels (lsSubmitted ?l))"
    "wr \<in> set (lsSubmitted ?l)"
    using process_invD(1,2) [OF assms(1)] process_invD(4) [OF assms(1,2)]
    by (simp_all add: answer_inv_def fifo_inv_def)
  have "ch \<in> set (channels (map fst ?ws))" using inv(2) assms(4) by blast
  then obtain w where "w \<in> set ?ws" "ch \<in> set (doneOf (fst w))" by (auto simp: channels_def)
  then obtain k where k: "k < length ?ws" "ch \<in> set (doneOf (fst (?ws ! k)))" by (metis in_set_conv_nth)
  then have done_k: "wrDone (fst (?ws ! k)) = Some ch" by (auto simp: doneOf_def split: option.splits)
  obtain j where j: "j < length (lsSubmitted ?l)" "lsSubmitted ?l ! j = wr" using inv(5) by (auto simp: in_set_conv_nth)
  have k': "k < length (lsSubmitted ?l)" "lsSubmitted ?l ! k = fst (?ws ! k)"
    using k(1) inv(3) by (simp_all add: nth_append)
  have "k = j"
    using distinct_concat_nth [of "map doneOf (lsSubmitted ?l)" k j ch] inv(4) j k' done_k assms(3)
    by (simp add: channels_def doneOf_def)
  then have "fst (?ws ! k) = wr" using j(2) k'(2) by simp
  moreover have "distinct (channels (map fst ?ws))" using inv(3,4) by simp
  ultimately show ?thesis
    using k(1) sent_on_channel [of ?ws k ch "peLoop env" dms] done_k inv(1)
    unfolding answered_def receivedErrors_def by (intro exI [of _ k]) simp
qed

lemma process_inv_step:
  assumes "process_inv env dms p" "process_step env p p'"
  shows "process_inv env dms p'"
  using assms(2)
proof (cases rule: process_step.cases)
  case (push_arrives h replace check b64 r)
  then show ?thesis using process_inv_arrives [OF assms(1)] by simp
next
  case (delete_arrives h b64 r)
  then show ?thesis using process_inv_arrives [OF assms(1)] by simp
next
  case (submit h wr)
  then show ?thesis using process_inv_submit [OF assms(1)] by simp
next
  case (wipe_arrives h keys)
  then show ?thesis unfolding wipe_arrives(1) startWipe_def by (intro process_inv_handler [OF assms(1)]) simp
next
  case (wipe_turn h ls)
  then show ?thesis unfolding wipe_turn(1) nextWipe_def
    by (intro process_inv_handler [OF assms(1)]) (simp add: deleteRequest_def split: list.split)
next
  case (wipe_submit h wr rest)
  then show ?thesis using process_inv_wipe [OF assms(1)] by simp
next
  case (store l)
  then have step: "loop_step (peLoop env) (psLoop p) l" "lsSubmitted l = lsSubmitted (psLoop p)" "lsDrain l = lsDrain (psLoop p)"
    by (simp_all add: internal_step_def)
  have "\<forall>h ph. fmlookup (psHandlers p) h = Some ph \<longrightarrow> phase_ok (peLoop env) dms l h ph"
    using assms(1) phase_ok_mono [OF _ step(1,2)] by (simp add: process_inv_def)
  then show ?thesis using assms(1) answer_inv_step [OF _ step(1)] step(2,3) store(1) by (simp add: process_inv_def)
next
  case (answer h wr ch)
  then show ?thesis using closed_channel [OF assms(1)] assms(1)
    by (auto simp: answerHandler_def intro!: process_inv_handler)
next
  case store_shutdown
  then have "\<not> lsDrain (psLoop p)" using assms(1) by (simp add: process_inv_def)
  then have step: "loop_step (peLoop env) (psLoop p) (Shutdown (psLoop p))" by (rule loop_step.shutdown)
  have sub: "lsSubmitted (Shutdown (psLoop p)) = lsSubmitted (psLoop p)" by (simp add: Shutdown_def)
  have "\<forall>h ph. fmlookup (psHandlers p) h = Some ph \<longrightarrow> phase_ok (peLoop env) dms (Shutdown (psLoop p)) h ph"
    using process_invD(4) [OF assms(1)] phase_ok_mono [OF _ step sub] by blast
  then show ?thesis using answer_inv_step [OF process_invD(1) [OF assms(1)] step] process_invD(2,3) [OF assms(1)] store_shutdown
    by (simp add: process_inv_def sub)
qed (use assms(1) in \<open>simp_all add: process_inv_def\<close>)

definition is_start :: "DiskMetricStore \<Rightarrow> GroupingKeyToMetricGroup option \<Rightarrow> process \<Rightarrow> bool" where
  "is_start dms disk p \<longleftrightarrow> (\<exists>t \<ge> zeroTime. p = initProcess dms t disk)"

lemma process_inv_init: "is_start dms disk p \<Longrightarrow> process_inv env dms p"
proof -
  assume "is_start dms disk p"
  then obtain t where t: "zeroTime \<le> t" "p = initProcess dms t disk" by (auto simp: is_start_def)
  have "answer_inv (peLoop env) dms (initLoop dms t disk)"
    by (rule answer_inv_init [OF initLoop_is_init [OF t(1)]])
  then show ?thesis by (simp add: process_inv_def t(2) initProcess_def) (simp add: initLoop_def)
qed

interpretation processes: invariant_system "is_start dms disk" "process_step env" "process_inv env dms" for dms disk env
  by unfold_locales (rule process_inv_init, assumption, rule process_inv_step)

lemma reachable_process_inv:
  "zeroTime \<le> t \<Longrightarrow> (process_step env)\<^sup>*\<^sup>* (initProcess dms t disk) p \<Longrightarrow> process_inv env dms p"
  by (rule processes.inv_reachable [of dms disk]) (auto simp: is_start_def)

text \<open>The store of a reachable process is a reachable state of the write loop, so all that holds of the loop holds of it.\<close>

lemma process_refines_loop:
  assumes "zeroTime \<le> t" "(process_step env)\<^sup>*\<^sup>* (initProcess dms t disk) p"
  shows "(loop_step (peLoop env))\<^sup>*\<^sup>* (initLoop dms t disk) (psLoop p)"
  using assms(2)
proof (induction rule: rtranclp_induct)
  case base
  then show ?case by (simp add: initProcess_def)
next
  case (step p p')
  have "process_inv env dms p" using reachable_process_inv [OF assms(1) step.hyps(1)] .
  then have "\<not> lsDrain (psLoop p) \<or> psMain p \<noteq> ServerStopped" by (auto simp: process_inv_def)
  from process_loop_step [OF step.hyps(2) this] step.IH show ?case by (auto intro: rtranclp.rtrancl_into_rtrancl)
qed

section \<open>Runs of the store inside the process\<close>

lemma internal_run:
  assumes "(internal_step (peLoop env))\<^sup>*\<^sup>* (psLoop p) l" "psMain p \<noteq> Exited"
  shows "(process_step env)\<^sup>*\<^sup>* p (p\<lparr>psLoop := l\<rparr>)"
  using assms(1)
proof (induction rule: rtranclp_induct)
  case (step l l')
  have "process_step env (p\<lparr>psLoop := l\<rparr>) ((p\<lparr>psLoop := l\<rparr>)\<lparr>psLoop := l'\<rparr>)"
    using assms(2) step.hyps(2) by (intro process_step.store) simp_all
  then show ?case using step.IH by simp
qed simp

lemma finish_internal: "lsPc l = CheckingPersist \<Longrightarrow> internal_step env l (finishCase env l)"
  using loop_step.finish_case [of l env] by (simp add: internal_step_def finishCase_def checkPersist_def)

lemma process_internal: "lsPc l = Processing wr \<Longrightarrow> internal_step env l (processWrite env sortedOrder wr l)"
  using loop_step.process [of l wr env sortedOrder] by (simp add: internal_step_def processWrite_def Let_def)

lemma receiveWrite_sel: "lsQueue (receiveWrite wr rest l) = rest" "lsPc (receiveWrite wr rest l) = Processing wr"
  by (simp_all add: receiveWrite_def)

lemma receive_internal: "lsPc l = AtSelect \<Longrightarrow> lsQueue l = wr # rest \<Longrightarrow> internal_step env l (receiveWrite wr rest l)"
  using loop_step.receive [of l wr rest env] by (simp add: internal_step_def receiveWrite_def)

text \<open>Before it drains, the loop can come back to its select and handle all that is queued.\<close>

lemma reach_select:
  assumes "\<not> draining (lsPc l)"
  shows "\<exists>l'. (internal_step env)\<^sup>*\<^sup>* l l' \<and> lsPc l' = AtSelect \<and> lsQueue l' = lsQueue l"
proof -
  have check: "\<exists>l'. (internal_step env)\<^sup>*\<^sup>* l l' \<and> lsPc l' = AtSelect \<and> lsQueue l' = lsQueue l"
    if "lsPc l = CheckingPersist" for l
    using finish_internal [OF that, of env]
    by (intro exI [of _ "finishCase env l"]) (auto simp: finishCase_def checkPersist_def)
  show ?thesis
  proof (cases "lsPc l")
    case (Processing wr)
    have "lsPc (processWrite env sortedOrder wr l) = CheckingPersist" "lsQueue (processWrite env sortedOrder wr l) = lsQueue l"
      by (simp_all add: processWrite_def Let_def)
    with check [OF this(1)] process_internal [OF Processing, of env] show ?thesis
      by (metis converse_rtranclp_into_rtranclp)
  qed (use assms check in auto)
qed

lemma reach_idle:
  assumes "\<not> draining (lsPc l)"
  shows "\<exists>l'. (internal_step env)\<^sup>*\<^sup>* l l' \<and> lsPc l' = AtSelect \<and> lsQueue l' = []"
  using assms
proof (induction "length (lsQueue l)" arbitrary: l)
  case 0
  then show ?case using reach_select [of l env] by auto
next
  case (Suc n)
  obtain l1 where l1: "(internal_step env)\<^sup>*\<^sup>* l l1" "lsPc l1 = AtSelect" "lsQueue l1 = lsQueue l"
    using reach_select [OF Suc.prems, of env] by blast
  obtain wr rest where q: "lsQueue l1 = wr # rest" using l1(3) Suc.hyps(2) by (metis length_Suc_conv)
  have step: "internal_step env l1 (receiveWrite wr rest l1)" by (rule receive_internal [OF l1(2) q])
  have "n = length (lsQueue (receiveWrite wr rest l1))" "\<not> draining (lsPc (receiveWrite wr rest l1))"
    using Suc.hyps(2) l1(3) q by (metis Suc_inject length_Cons receiveWrite_sel(1)) (simp add: receiveWrite_sel)
  from Suc.hyps(1) [OF this] obtain l' where "(internal_step env)\<^sup>*\<^sup>* (receiveWrite wr rest l1) l'" "lsPc l' = AtSelect" "lsQueue l' = []"
    by blast
  then show ?case using l1(1) step by (meson converse_rtranclp_into_rtranclp rtranclp_trans)
qed

lemma internal_run_keeps:
  "(internal_step env)\<^sup>*\<^sup>* l l' \<Longrightarrow> lsSubmitted l' = lsSubmitted l \<and> lsDrain l' = lsDrain l"
  by (induction rule: rtranclp_induct) (simp_all add: internal_step_def)

text \<open>The end of the process: a drain with one request queued, and a push taken on just before the server stops.\<close>

lemma exited_final: "psMain p = Exited \<Longrightarrow> \<not> process_step env p p'"
  by (auto elim: process_stepE)

lemma drain_one:
  assumes "lsPc l = AtSelect" "lsDrain l" "lsQueue l = [wr]" "persistenceFile (lsStore l) \<noteq> ''''"
  shows "\<exists>l'. (internal_step env)\<^sup>*\<^sup>* l l' \<and> lsPc l' = Finished True \<and>
    lsApplied l' = lsApplied l @ [(wr, sortedOrder)] \<and> lsDisk l' = Some (metricGroups (lsStore l'))"
proof -
  define l1 where "l1 = startDrain l"
  define l2 where "l2 = drainWrite env sortedOrder wr [] l1"
  define l3 where "l3 = l2\<lparr>lsPc := FinalEncoded (metricGroups (lsStore l2))\<rparr>"
  define l4 where "l4 = l3\<lparr>lsDisk := Some (metricGroups (lsStore l2)), lsPc := Finished True\<rparr>"
  have l1: "lsPc l1 = Draining" "lsQueue l1 = [wr]" "persistenceFile (lsStore l1) \<noteq> ''''" "lsApplied l1 = lsApplied l"
    using assms by (simp_all add: l1_def startDrain_def)
  then have l2: "lsPc l2 = Draining" "lsQueue l2 = []" "persistenceFile (lsStore l2) \<noteq> ''''"
      "lsApplied l2 = lsApplied l @ [(wr, sortedOrder)]"
    by (simp_all add: l2_def drainWrite_def)
  have "internal_step env l l1"
    using loop_step.drain [OF assms(1,2)] by (simp add: internal_step_def l1_def startDrain_def)
  moreover have "internal_step env l1 l2"
    using loop_step.drain_write [OF l1(1,2), of env sortedOrder] by (simp add: internal_step_def l2_def drainWrite_def)
  moreover have "internal_step env l2 l3"
    using loop_step.drain_encode [OF l2(1-3)] by (simp add: internal_step_def l3_def)
  moreover have "internal_step env l3 l4"
    using loop_step.drain_rename [of l3 "metricGroups (lsStore l2)" env] by (simp add: internal_step_def l3_def l4_def)
  ultimately have "(internal_step env)\<^sup>*\<^sup>* l l4" by (meson rtranclp.rtrancl_into_rtrancl rtranclp.rtrancl_refl)
  then show ?thesis using l2(4) by (intro exI [of _ l4]) (simp add: l3_def l4_def)
qed

lemma reach_waiting:
  assumes "pushRequest (peHandlers env) replace True b64 t 0 r = Inr wr"
  shows "\<exists>p. (process_step env)\<^sup>*\<^sup>* (initProcess dms t disk) p \<and> psMain p = Serving \<and>
    fmlookup (psHandlers p) 0 = Some (Waiting wr) \<and> fmdom' (psHandlers p) = {0} \<and>
    psLoop p = SubmitWriteRequest wr (initLoop dms t disk)"
proof -
  have done_wr: "wrDone wr = Some 0" using assms by (auto simp: pushRequest_def split: sum.splits)
  define p0 where "p0 = initProcess dms t disk"
  define p1 where "p1 = startPush (peHandlers env) replace True b64 r 0 p0"
  define p2 where "p2 = submitHandler 0 wr p1"
  have p0: "psMain p0 = Serving" "psHandlers p0 = fmempty" "psLoop p0 = initLoop dms t disk" "lsNow (psLoop p0) = t"
    by (simp_all add: p0_def initProcess_def) (simp add: initLoop_def)
  have p1: "psMain p1 = Serving" "fmlookup (psHandlers p1) 0 = Some (Submitting wr)" "psLoop p1 = initLoop dms t disk"
    using assms p0 by (simp_all add: p1_def startPush_def)
  have p2: "psMain p2 = Serving" "fmlookup (psHandlers p2) 0 = Some (Waiting wr)"
      "psLoop p2 = SubmitWriteRequest wr (initLoop dms t disk)" "fmdom' (psHandlers p2) = {0}"
    using p0(2) p1 done_wr by (simp_all add: p2_def p1_def submitHandler_def startPush_def)
  have "process_step env p0 p1" unfolding p1_def using p0 by (intro process_step.push_arrives) simp_all
  moreover have "process_step env p1 p2"
    unfolding p2_def using p1 by (intro process_step.submit) (simp_all add: initLoop_def writeQueueCapacity_def)
  ultimately have "(process_step env)\<^sup>*\<^sup>* p0 p2" by (meson rtranclp.rtrancl_into_rtrancl rtranclp.rtrancl_refl)
  then show ?thesis using p2 unfolding p0_def by blast
qed

lemma reach_stopping:
  assumes "psMain p = Serving"
  shows "(process_step env)\<^sup>*\<^sup>* p (p\<lparr>psSignalled := True, psMain := StoreStopping, psLoop := Shutdown (psLoop p)\<rparr>)"
proof -
  let ?p1 = "p\<lparr>psSignalled := True\<rparr>"
  let ?p2 = "?p1\<lparr>psMain := ServerStopped\<rparr>"
  let ?p3 = "?p2\<lparr>psLoop := Shutdown (psLoop ?p2), psMain := StoreStopping\<rparr>"
  have "process_step env p ?p1" by (rule process_step.signal) (simp add: assms)
  moreover have "process_step env ?p1 ?p2" by (rule process_step.server_stops) (simp_all add: assms)
  moreover have "process_step env ?p2 ?p3" by (rule process_step.store_shutdown) simp
  moreover have "?p3 = p\<lparr>psSignalled := True, psMain := StoreStopping, psLoop := Shutdown (psLoop p)\<rparr>" by simp
  ultimately show ?thesis by (metis (no_types, lifting) rtranclp.rtrancl_into_rtrancl rtranclp.rtrancl_refl)
qed

lemma reach_exit:
  assumes "psMain p = Serving" "lsPc (psLoop p) = AtSelect" "lsQueue (psLoop p) = [wr]"
    and "persistenceFile (lsStore (psLoop p)) \<noteq> ''''"
  shows "\<exists>q. (process_step env)\<^sup>*\<^sup>* p q \<and> psMain q = Exited \<and> lsPc (psLoop q) = Finished True \<and> psHandlers q = psHandlers p \<and>
    lsApplied (psLoop q) = lsApplied (psLoop p) @ [(wr, sortedOrder)] \<and> lsDisk (psLoop q) = Some (metricGroups (lsStore (psLoop q)))"
proof -
  let ?p = "p\<lparr>psSignalled := True, psMain := StoreStopping, psLoop := Shutdown (psLoop p)\<rparr>"
  have "lsPc (psLoop ?p) = AtSelect" "lsDrain (psLoop ?p)" "lsQueue (psLoop ?p) = [wr]"
    "persistenceFile (lsStore (psLoop ?p)) \<noteq> ''''" "lsApplied (psLoop ?p) = lsApplied (psLoop p)"
    using assms(2-4) by (simp_all add: Shutdown_def)
  then obtain l where l: "(internal_step (peLoop env))\<^sup>*\<^sup>* (psLoop ?p) l" "lsPc l = Finished True"
    "lsApplied l = lsApplied (psLoop p) @ [(wr, sortedOrder)]" "lsDisk l = Some (metricGroups (lsStore l))"
    using drain_one [of "psLoop ?p" wr "peLoop env"] by auto
  let ?q = "?p\<lparr>psLoop := l\<rparr>\<lparr>psMain := Exited\<rparr>"
  have "(process_step env)\<^sup>*\<^sup>* ?p (?p\<lparr>psLoop := l\<rparr>)" using l(1) by (intro internal_run) simp_all
  moreover have "process_step env (?p\<lparr>psLoop := l\<rparr>) ?q" by (rule process_step.exit) (use l(2) in simp_all)
  ultimately have "(process_step env)\<^sup>*\<^sup>* p ?q"
    using reach_stopping [OF assms(1), of env] by (meson rtranclp.rtrancl_into_rtrancl rtranclp_trans)
  then show ?thesis using l by (intro exI [of _ ?q]) simp
qed

lemma abandoned_push:
  assumes "pushRequest (peHandlers env) replace True b64 t 0 r = Inr wr" "persistenceFile dms \<noteq> ''''"
  shows "\<exists>p. (process_step env)\<^sup>*\<^sup>* (initProcess dms t disk) p \<and> psMain p = Exited \<and>
    (\<forall>p'. \<not> process_step env p p') \<and>
    fmlookup (psHandlers p) 0 = Some (Waiting wr) \<and>
    map fst (lsApplied (psLoop p)) = [wr] \<and> lsDisk (psLoop p) = Some (metricGroups (lsStore (psLoop p)))"
proof -
  obtain p0 where p0: "(process_step env)\<^sup>*\<^sup>* (initProcess dms t disk) p0" "psMain p0 = Serving"
    "fmlookup (psHandlers p0) 0 = Some (Waiting wr)" "psLoop p0 = SubmitWriteRequest wr (initLoop dms t disk)"
    using reach_waiting [OF assms(1), of dms disk] by blast
  have "lsPc (psLoop p0) = AtSelect" "lsQueue (psLoop p0) = [wr]" "lsApplied (psLoop p0) = []"
    "persistenceFile (lsStore (psLoop p0)) \<noteq> ''''"
    using assms(2) by (simp_all add: p0(4) SubmitWriteRequest_def initLoop_def)
  then obtain q where "(process_step env)\<^sup>*\<^sup>* p0 q" "psMain q = Exited" "psHandlers q = psHandlers p0"
    "lsApplied (psLoop q) = [(wr, sortedOrder)]" "lsDisk (psLoop q) = Some (metricGroups (lsStore (psLoop q)))"
    using reach_exit [OF p0(2), of wr env] by auto
  then show ?thesis using p0(1,3) exited_final [of q env] by (intro exI [of _ q]) auto
qed

text \<open>The store handles what is queued and the request itself; then the handler can answer.\<close>

lemma reach_answer:
  assumes "process_inv env dms p" "fmlookup (psHandlers p) h = Some (Waiting wr)"
    and "\<not> draining (lsPc (psLoop p))" "psMain p \<noteq> Exited"
  shows "\<exists>p' rep. (process_step env)\<^sup>*\<^sup>* p p' \<and> psHandlers p' = fmupd h (Replied (Some wr) rep) (psHandlers p) \<and>
    psMain p' = psMain p \<and> lsPc (psLoop p') = AtSelect \<and> lsQueue (psLoop p') = [] \<and>
    lsSubmitted (psLoop p') = lsSubmitted (psLoop p)"
proof -
  obtain l where l: "(internal_step (peLoop env))\<^sup>*\<^sup>* (psLoop p) l" "lsPc l = AtSelect" "lsQueue l = []"
    using reach_idle [OF assms(3), of "peLoop env"] by blast
  let ?p = "p\<lparr>psLoop := l\<rparr>"
  have run: "(process_step env)\<^sup>*\<^sup>* p ?p" by (rule internal_run [OF l(1) assms(4)])
  have inv: "process_inv env dms ?p" using assms(1) run by (rule processes.inv_run)
  have w: "wrDone wr = Some h" "wr \<in> set (lsSubmitted l)" using process_invD(4) [OF inv, of h "Waiting wr"] assms(2) by simp_all
  have "lsSubmitted l = map fst (lsApplied l)" "lsClosed l = concat (map (doneOf \<circ> fst) (lsApplied l))"
    using process_invD(1) [OF inv] l(2,3) by (simp_all add: answer_inv_def fifo_inv_def closed_inv_def)
  then have "h \<in> set (lsClosed l)" using w by (force simp: doneOf_def)
  then have "process_step env ?p (answerHandler h wr h ?p)"
    using assms(2,4) w(1) by (intro process_step.answer) simp_all
  with run have "(process_step env)\<^sup>*\<^sup>* p (answerHandler h wr h ?p)" by (rule rtranclp.rtrancl_into_rtrancl)
  then show ?thesis using l(2,3) internal_run_keeps [OF l(1)]
    by (intro exI [of _ "answerHandler h wr h ?p"]) (auto simp: answerHandler_def)
qed

text \<open>Concrete inputs.\<close>

definition sample_process_env :: proc_env where
  "sample_process_env = \<lparr>peLoop = sample_env, peHandlers = sample_handlers\<rparr>"

lemma sample_waiting:
  "\<exists>p. (process_step sample_process_env)\<^sup>*\<^sup>* (initProcess sample_store 5 None) p \<and> psMain p = Serving \<and>
    fmlookup (psHandlers p) 0 = Some (Waiting sample_push) \<and> \<not> draining (lsPc (psLoop p)) \<and>
    fmdom' (psHandlers p) = {0}"
proof -
  have "pushRequest (peHandlers sample_process_env) True True False 5 0 sample_request = Inr sample_push"
    using sample_pushRequest by (simp add: sample_process_env_def sample_push_def)
  from reach_waiting [OF this, of sample_store None] show ?thesis
    by (auto simp: SubmitWriteRequest_def initLoop_def)
qed

section \<open>Properties\<close>

text \<open>
  C5. An answered push was handled, with just the outcome it was told: the request of every answered checked push is
  among those the store has applied, and the answer is 200 if handling it in the store of that
  moment gave no error, and 400 if it did.
\<close>

theorem answered_push_was_handled:
  assumes "zeroTime \<le> t" "(process_step env)\<^sup>*\<^sup>* (initProcess dms t disk) p"
    and "fmlookup (psHandlers p) h = Some (Replied (Some wr) rep)" "wrDone wr \<noteq> None"
  shows "\<exists>k < length (lsApplied (psLoop p)). fst (lsApplied (psLoop p) ! k) = wr \<and>
    (case handleWrite (envConsts (peLoop env)) (envGather (peLoop env)) (snd (lsApplied (psLoop p) ! k))
            (runWrites (peLoop env) (take k (lsApplied (psLoop p))) dms) wr of
       (d', err) \<Rightarrow> statusCode rep = (if err = None then 200 else 400) \<and>
         runWrites (peLoop env) (take (Suc k) (lsApplied (psLoop p))) dms = d')"
proof -
  let ?ws = "lsApplied (psLoop p)"
  have "answered (peLoop env) dms ?ws wr rep"
    using process_invD(4) [OF reachable_process_inv [OF assms(1,2)] assms(3)] assms(4) by simp
  then obtain k where k: "k < length ?ws" "fst (?ws ! k) = wr"
      "rep = pushReply True (case outcome (peLoop env) dms ?ws k of None \<Rightarrow> [] | Some e \<Rightarrow> [e])"
    unfolding answered_def by blast
  have "statusCode rep = (if outcome (peLoop env) dms ?ws k = None then 200 else 400)"
    by (simp add: k(3) pushReply_def split: option.split)
  moreover have "runWrites (peLoop env) (take (Suc k) ?ws) dms =
      fst (handleWrite (envConsts (peLoop env)) (envGather (peLoop env)) (snd (?ws ! k)) (runWrites (peLoop env) (take k ?ws) dms) wr)"
    using runWrites_snoc [of "peLoop env" "take k ?ws" wr "snd (?ws ! k)" dms] k(1,2)
    by (metis prod.collapse take_Suc_conv_app_nth)
  ultimately show ?thesis using k(1,2)
    by (intro exI [of _ k]) (simp add: outcome_def case_prod_unfold)
qed

theorem answered_push_was_handled_witness:
  "\<exists>p. (process_step sample_process_env)\<^sup>*\<^sup>* (initProcess sample_store 5 None) p \<and>
     (\<exists>k < length (lsApplied (psLoop p)). fst (lsApplied (psLoop p) ! k) = sample_push)"
proof -
  obtain p where p: "(process_step sample_process_env)\<^sup>*\<^sup>* (initProcess sample_store 5 None) p" "psMain p = Serving"
    "fmlookup (psHandlers p) 0 = Some (Waiting sample_push)" "\<not> draining (lsPc (psLoop p))"
    using sample_waiting by blast
  have z: "zeroTime \<le> 5" by (simp add: zeroTime_def)
  from p(2) have "psMain p \<noteq> Exited" by simp
  from reach_answer [OF reachable_process_inv [OF z p(1)] p(3,4) this]
  obtain q rep where q: "(process_step sample_process_env)\<^sup>*\<^sup>* p q" "fmlookup (psHandlers q) 0 = Some (Replied (Some sample_push) rep)"
    by auto
  have run: "(process_step sample_process_env)\<^sup>*\<^sup>* (initProcess sample_store 5 None) q" using p(1) q(1) by (rule rtranclp_trans)
  have "wrDone sample_push \<noteq> None" by (simp add: sample_push_def)
  from answered_push_was_handled [OF z run q(2) this] run show ?thesis by blast
qed

text \<open>
  A waiting push can always be answered, until the store drains: the store needs only its own steps to handle
  what is queued before it and the request itself, and then the answer is there.
\<close>

lemma waiting_push_can_be_answered:
  assumes "zeroTime \<le> t" "(process_step env)\<^sup>*\<^sup>* (initProcess dms t disk) p"
    and "fmlookup (psHandlers p) h = Some (Waiting wr)" "\<not> draining (lsPc (psLoop p))" "psMain p \<noteq> Exited"
  shows "\<exists>p' rep. (process_step env)\<^sup>*\<^sup>* p p' \<and> fmlookup (psHandlers p') h = Some (Replied (Some wr) rep)"
  using reach_answer [OF reachable_process_inv [OF assms(1,2)] assms(3-5)] by auto

text \<open>
  C28. \<open>main\<close> does not wait for running handlers: a checked push that the serving process has taken on can be
  applied and persisted while the store drains, and the process exits without ever answering it.
\<close>

theorem shutdown_abandons_push:
  assumes "pushRequest (peHandlers env) replace True b64 t 0 r = Inr wr" "persistenceFile dms \<noteq> ''''"
  shows "\<exists>p. (process_step env)\<^sup>*\<^sup>* (initProcess dms t disk) p \<and> psMain p = Exited \<and>
    (\<forall>p'. \<not> process_step env p p') \<and>
    fmlookup (psHandlers p) 0 = Some (Waiting wr) \<and>
    map fst (lsApplied (psLoop p)) = [wr] \<and> lsDisk (psLoop p) = Some (metricGroups (lsStore (psLoop p)))"
  by (rule abandoned_push [OF assms])

theorem shutdown_abandons_push_witness:
  "\<exists>p. (process_step sample_process_env)\<^sup>*\<^sup>* (initProcess sample_store 5 None) p \<and> psMain p = Exited \<and>
     fmlookup (psHandlers p) 0 = Some (Waiting sample_push)"
proof -
  have "pushRequest (peHandlers sample_process_env) True True False 5 0 sample_request = Inr sample_push"
    using sample_pushRequest by (simp add: sample_process_env_def sample_push_def)
  from shutdown_abandons_push [OF this sample_file, of None] show ?thesis by blast
qed

end
