(* ===== verification/Fairness.thy ===== *)
theory Fairness
  imports ProcessProps
begin

text \<open>
  What a fair scheduler guarantees.  A run is an infinite sequence of states, each equal to the one before or one
  step further.  The goroutine \<open>loop\<close> is scheduled again and again while it has something to do; a
  select that can receive a request again and again does receive one again and again; a handler that
  can submit again and again submits; a handler that can answer from some point on does answer.
\<close>

section \<open>Fairness of an action\<close>

definition infinitelyOften :: "(nat \<Rightarrow> bool) \<Rightarrow> bool" where
  "infinitelyOften P \<longleftrightarrow> (\<forall>i. \<exists>j \<ge> i. P j)"

definition weaklyFair :: "('s \<Rightarrow> bool) \<Rightarrow> ('s \<Rightarrow> 's \<Rightarrow> bool) \<Rightarrow> (nat \<Rightarrow> 's) \<Rightarrow> bool" where
  "weaklyFair enabled taken r \<longleftrightarrow> infinitelyOften (\<lambda>i. \<not> enabled (r i) \<or> taken (r i) (r (Suc i)))"

definition stronglyFair :: "('s \<Rightarrow> bool) \<Rightarrow> ('s \<Rightarrow> 's \<Rightarrow> bool) \<Rightarrow> (nat \<Rightarrow> 's) \<Rightarrow> bool" where
  "stronglyFair enabled taken r \<longleftrightarrow>
     (infinitelyOften (\<lambda>i. enabled (r i)) \<longrightarrow> infinitelyOften (\<lambda>i. taken (r i) (r (Suc i))))"

text \<open>A run that comes to rest where nothing is enabled is fair.\<close>

lemma fair_at_rest:
  assumes "\<And>i. n \<le> i \<Longrightarrow> r i = q" "\<not> enabled q"
  shows "weaklyFair enabled taken r" "stronglyFair enabled taken r"
proof -
  show "weaklyFair enabled taken r"
    unfolding weaklyFair_def infinitelyOften_def using assms by (metis nat_le_linear)
  have "\<not> infinitelyOften (\<lambda>i. enabled (r i))"
    unfolding infinitelyOften_def using assms by blast
  then show "stronglyFair enabled taken r" by (simp add: stronglyFair_def)
qed

definition isRun :: "('s \<Rightarrow> 's \<Rightarrow> bool) \<Rightarrow> (nat \<Rightarrow> 's) \<Rightarrow> bool" where
  "isRun step r \<longleftrightarrow> (\<forall>i. r (Suc i) = r i \<or> step (r i) (r (Suc i)))"

lemma run_step: "isRun step r \<Longrightarrow> r (Suc i) = r i \<or> step (r i) (r (Suc i))"
  by (simp add: isRun_def)

lemma run_from:
  assumes "isRun step r" "P (r i)" "\<And>j. i \<le> j \<Longrightarrow> P (r j) \<Longrightarrow> step (r j) (r (Suc j)) \<Longrightarrow> P (r (Suc j))" "i \<le> j"
  shows "P (r j)"
  using assms(4)
proof (induction rule: dec_induct)
  case (step m)
  then show ?case using assms(3) [of m] run_step [OF assms(1), of m] by auto
qed (rule assms(2))

lemma run_reaches: "isRun step r \<Longrightarrow> i \<le> j \<Longrightarrow> step\<^sup>*\<^sup>* (r i) (r j)"
  by (rule run_from [of step r "\<lambda>s. step\<^sup>*\<^sup>* (r i) s" i]) (auto intro: rtranclp.rtrancl_into_rtrancl)

text \<open>What stays enabled until it is taken, or is enabled again and again until then, is taken.\<close>

lemma stays_untaken:
  assumes "isRun step r" "Q (r i)" "\<And>s s'. Q s \<Longrightarrow> step s s' \<Longrightarrow> \<not> taken s s' \<Longrightarrow> Q s'"
    and "\<nexists>k. i \<le> k \<and> Q (r k) \<and> taken (r k) (r (Suc k))" "i \<le> j"
  shows "Q (r j)"
  using assms(1,2) _ assms(5)
proof (rule run_from)
  fix k assume k: "i \<le> k" "Q (r k)" "step (r k) (r (Suc k))"
  show "Q (r (Suc k))" by (rule assms(3) [OF k(2,3)]) (use assms(4) k in blast)
qed

lemma weaklyFair_taken:
  assumes "isRun step r" "weaklyFair enabled taken r" "Q (r i)" "\<And>s s'. Q s \<Longrightarrow> step s s' \<Longrightarrow> \<not> taken s s' \<Longrightarrow> Q s'"
    and "\<And>j. i \<le> j \<Longrightarrow> Q (r j) \<Longrightarrow> enabled (r j)"
  shows "\<exists>j. i \<le> j \<and> Q (r j) \<and> taken (r j) (r (Suc j))"
proof (rule ccontr)
  assume none: "\<not> ?thesis"
  have "Q (r j)" if "i \<le> j" for j by (rule stays_untaken [OF assms(1,3,4) none that])
  then show False using none assms(2,5) unfolding weaklyFair_def infinitelyOften_def by blast
qed

lemma stronglyFair_taken:
  assumes "isRun step r" "stronglyFair enabled taken r" "Q (r i)" "\<And>s s'. Q s \<Longrightarrow> step s s' \<Longrightarrow> \<not> taken s s' \<Longrightarrow> Q s'"
    and "\<And>k. i \<le> k \<Longrightarrow> \<forall>j \<ge> i. Q (r j) \<Longrightarrow> \<exists>j \<ge> k. enabled (r j)"
  shows "\<exists>j. i \<le> j \<and> Q (r j) \<and> taken (r j) (r (Suc j))"
proof (rule ccontr)
  assume none: "\<not> ?thesis"
  have Q: "Q (r j)" if "i \<le> j" for j by (rule stays_untaken [OF assms(1,3,4) none that])
  have "\<exists>j \<ge> k. enabled (r j)" for k using assms(5) [of "max i k"] Q by auto
  then obtain j where "i \<le> j" "taken (r j) (r (Suc j))"
    using assms(2) by (auto simp: stronglyFair_def infinitelyOften_def)
  then show False using none Q by blast
qed

section \<open>The write loop\<close>

definition loop_moves :: "loop_state \<Rightarrow> loop_state \<Rightarrow> bool" where
  "loop_moves s s' \<longleftrightarrow> lsPc s' \<noteq> lsPc s \<or> lsApplied s' \<noteq> lsApplied s"

definition loop_busy :: "loop_state \<Rightarrow> bool" where
  "loop_busy s \<longleftrightarrow> (case lsPc s of AtSelect \<Rightarrow> False | Finished b \<Rightarrow> False | _ \<Rightarrow> True)"

definition can_receive :: "loop_state \<Rightarrow> bool" where
  "can_receive s \<longleftrightarrow> lsPc s = AtSelect \<and> lsQueue s \<noteq> []"

definition receives :: "loop_state \<Rightarrow> loop_state \<Rightarrow> bool" where
  "receives s s' \<longleftrightarrow> lsPc s = AtSelect \<and> (\<exists>wr. lsQueue s = wr # lsQueue s' \<and> lsPc s' = Processing wr)"

definition loop_fair :: "(nat \<Rightarrow> loop_state) \<Rightarrow> bool" where
  "loop_fair r \<longleftrightarrow> weaklyFair loop_busy loop_moves r \<and> stronglyFair can_receive receives r"

definition pastDrain :: "loop_pc \<Rightarrow> bool" where
  "pastDrain pc = (case pc of FinalEncoded g \<Rightarrow> True | Finished b \<Rightarrow> True | _ \<Rightarrow> False)"

lemma pastDrain_simps [simp]:
  "\<not> pastDrain AtSelect" "\<not> pastDrain (Processing wr)" "\<not> pastDrain CheckingPersist" "\<not> pastDrain Draining"
  "pastDrain (FinalEncoded g)" "pastDrain (Finished b)"
  by (simp_all add: pastDrain_def)

lemma loop_busy_simps [simp]:
  "lsPc s = AtSelect \<Longrightarrow> \<not> loop_busy s" "lsPc s = Processing wr \<Longrightarrow> loop_busy s" "lsPc s = CheckingPersist \<Longrightarrow> loop_busy s"
  "lsPc s = Draining \<Longrightarrow> loop_busy s"
  by (simp_all add: loop_busy_def)

text \<open>The next step of the loop from each of its positions.\<close>

lemma moves_processing:
  "loop_step env s s' \<Longrightarrow> lsPc s = Processing wr \<Longrightarrow> loop_moves s s' \<Longrightarrow>
   lsPc s' = CheckingPersist \<and> length (lsApplied s') = Suc (length (lsApplied s))"
  by (erule loop_stepE) (auto simp: loop_moves_def loop_ops split: if_splits)

lemma moves_checking: "loop_step env s s' \<Longrightarrow> lsPc s = CheckingPersist \<Longrightarrow> loop_moves s s' \<Longrightarrow> lsPc s' = AtSelect"
  by (erule loop_stepE) (auto simp: loop_moves_def loop_ops split: if_splits)

lemma moves_draining:
  "loop_step env s s' \<Longrightarrow> lsPc s = Draining \<Longrightarrow> lsQueue s \<noteq> [] \<Longrightarrow> loop_moves s s' \<Longrightarrow>
   length (lsApplied s') = Suc (length (lsApplied s))"
  by (erule loop_stepE) (auto simp: loop_moves_def loop_ops)

lemma past_only_when_empty:
  "loop_step env s s' \<Longrightarrow> \<not> pastDrain (lsPc s) \<Longrightarrow> pastDrain (lsPc s') \<Longrightarrow> lsPc s = Draining \<and> lsQueue s = []"
  by (erule loop_stepE) (auto simp: loop_ops)

lemma applied_by_one:
  "loop_step env s s' \<Longrightarrow> lsApplied s' \<noteq> lsApplied s \<Longrightarrow>
   length (lsApplied s') = Suc (length (lsApplied s)) \<and> \<not> pastDrain (lsPc s')"
  by (erule loop_stepE) (auto simp: loop_ops split: if_splits)

lemma submitted_stays: "loop_step env s s' \<Longrightarrow> \<exists>vs. lsSubmitted s' = lsSubmitted s @ vs"
  by (erule loop_stepE) (auto simp: loop_ops)

lemma run_moves:
  assumes "isRun (loop_step env) r" "loop_fair r" "loop_busy (r i)"
  obtains j where "i \<le> j" "lsPc (r j) = lsPc (r i)" "lsApplied (r j) = lsApplied (r i)"
    "loop_step env (r j) (r (Suc j))" "loop_moves (r j) (r (Suc j))"
proof -
  let ?Q = "\<lambda>s. lsPc s = lsPc (r i) \<and> lsApplied s = lsApplied (r i)"
  have weak: "weaklyFair loop_busy loop_moves r" using assms(2) by (simp add: loop_fair_def)
  have busy: "loop_busy s" if "?Q s" for s using that assms(3) by (simp add: loop_busy_def)
  have stays: "?Q s'" if "?Q s" "\<not> loop_moves s s'" for s s' using that by (simp add: loop_moves_def)
  obtain j where j: "i \<le> j" "?Q (r j)" "loop_moves (r j) (r (Suc j))"
    using weaklyFair_taken [OF assms(1) weak, of ?Q i] busy stays by blast
  then have "r (Suc j) \<noteq> r j" by (auto simp: loop_moves_def)
  then have "loop_step env (r j) (r (Suc j))" using run_step [OF assms(1), of j] by blast
  then show ?thesis using j by (intro that) simp_all
qed

lemma run_selects:
  assumes "isRun (loop_step env) r" "loop_fair r" "\<And>j. i \<le> j \<Longrightarrow> \<not> draining (lsPc (r j))"
  shows "\<exists>j \<ge> i. lsPc (r j) = AtSelect"
proof -
  have check: "\<exists>j \<ge> k. lsPc (r j) = AtSelect" if "lsPc (r k) = CheckingPersist" for k
  proof -
    have "loop_busy (r k)" using that by simp
    from run_moves [OF assms(1,2) this]
    obtain j where j: "k \<le> j" "lsPc (r j) = lsPc (r k)" "loop_step env (r j) (r (Suc j))" "loop_moves (r j) (r (Suc j))"
      by blast
    then show ?thesis using moves_checking [OF j(3) _ j(4)] that by (metis le_SucI)
  qed
  show ?thesis
  proof (cases "lsPc (r i)")
    case (Processing wr)
    have "loop_busy (r i)" using Processing by simp
    from run_moves [OF assms(1,2) this]
    obtain j where j: "i \<le> j" "lsPc (r j) = lsPc (r i)" "loop_step env (r j) (r (Suc j))" "loop_moves (r j) (r (Suc j))"
      by blast
    then have "lsPc (r (Suc j)) = CheckingPersist" using moves_processing Processing by metis
    from check [OF this] j(1) show ?thesis by (meson Suc_leD le_trans)
  qed (use check assms(3) [of i] in auto)
qed

lemma run_applied_prefix:
  assumes "isRun (loop_step env) r" "i \<le> j"
  shows "\<exists>vs. lsApplied (r j) = lsApplied (r i) @ vs"
  using assms(1) _ _ assms(2)
proof (rule run_from)
  fix k assume "\<exists>vs. lsApplied (r k) = lsApplied (r i) @ vs" "loop_step env (r k) (r (Suc k))"
  then show "\<exists>vs. lsApplied (r (Suc k)) = lsApplied (r i) @ vs" using applied_grows by fastforce
qed simp

lemma run_submitted_prefix:
  assumes "isRun (loop_step env) r" "i \<le> j"
  shows "\<exists>vs. lsSubmitted (r j) = lsSubmitted (r i) @ vs"
  using assms(1) _ _ assms(2)
proof (rule run_from)
  fix k assume "\<exists>vs. lsSubmitted (r k) = lsSubmitted (r i) @ vs" "loop_step env (r k) (r (Suc k))"
  then show "\<exists>vs. lsSubmitted (r (Suc k)) = lsSubmitted (r i) @ vs" using submitted_stays by fastforce
qed simp

lemma run_fifo:
  assumes "isRun (loop_step env) r" "fifo_inv env dms (r i)" "i \<le> j"
  shows "fifo_inv env dms (r j)"
  by (rule fifo.inv_run [OF assms(2) run_reaches [OF assms(1,3)]])

text \<open>A run in which nothing more is applied although a request waits: the loop would have to stay at its select.\<close>

lemma stuck_pending:
  assumes "isRun (loop_step env) r" "fifo_inv env dms (r i)" "length (lsApplied (r i)) < length (lsSubmitted (r i))"
    and "i \<le> j" "lsApplied (r j) = lsApplied (r i)"
  shows "inFlight (lsPc (r j)) @ lsQueue (r j) \<noteq> []"
proof
  assume "inFlight (lsPc (r j)) @ lsQueue (r j) = []"
  then have "length (lsSubmitted (r j)) = length (lsApplied (r i))"
    using run_fifo [OF assms(1,2,4)] assms(5) by (simp add: fifo_inv_def)
  moreover have "length (lsSubmitted (r i)) \<le> length (lsSubmitted (r j))"
    using run_submitted_prefix [OF assms(1,4)] by auto
  ultimately show False using assms(3) by simp
qed

lemma stuck_positions:
  assumes "isRun (loop_step env) r" "loop_fair r" "\<not> pastDrain (lsPc (r i))" "i \<le> j"
    and const: "\<And>k. i \<le> k \<Longrightarrow> lsApplied (r k) = lsApplied (r i)"
    and pending: "\<And>k. i \<le> k \<Longrightarrow> inFlight (lsPc (r k)) @ lsQueue (r k) \<noteq> []"
  shows "lsPc (r j) \<in> {AtSelect, CheckingPersist}"
proof -
  have not_past: "\<not> pastDrain (lsPc (r j))"
    using assms(1,3) _ assms(4)
  proof (rule run_from)
    fix k assume k: "i \<le> k" "\<not> pastDrain (lsPc (r k))" "loop_step env (r k) (r (Suc k))"
    show "\<not> pastDrain (lsPc (r (Suc k)))"
      using past_only_when_empty [OF k(3,2)] pending [OF k(1)] by auto
  qed
  have no_move: False
    if "loop_busy (r j)" "\<And>s s'. loop_step env s s' \<Longrightarrow> lsPc s = lsPc (r j) \<Longrightarrow> inFlight (lsPc s) @ lsQueue s \<noteq> [] \<Longrightarrow>
        loop_moves s s' \<Longrightarrow> length (lsApplied s') = Suc (length (lsApplied s))"
  proof -
    from run_moves [OF assms(1,2) that(1)]
    obtain k where k: "j \<le> k" "lsPc (r k) = lsPc (r j)" "loop_step env (r k) (r (Suc k))" "loop_moves (r k) (r (Suc k))" by blast
    have ik: "i \<le> k" "i \<le> Suc k" using k(1) assms(4) by simp_all
    then have "length (lsApplied (r (Suc k))) = Suc (length (lsApplied (r k)))"
      by (intro that(2) [OF k(3,2) pending k(4)])
    then show False using const [OF ik(1)] const [OF ik(2)] by simp
  qed
  show ?thesis
  proof (cases "lsPc (r j)")
    case (Processing wr)
    then show ?thesis using no_move moves_processing by auto
  next
    case Draining
    then show ?thesis using no_move moves_draining by auto
  qed (use not_past in auto)
qed

text \<open>
  So a request that waits makes the loop apply one more request, unless the loop is past its drain: a fair select
  does not stay away from a queue that is never empty.
\<close>

lemma run_progress:
  assumes "isRun (loop_step env) r" "loop_fair r" "fifo_inv env dms (r i)" "\<not> pastDrain (lsPc (r i))"
    and "length (lsApplied (r i)) < length (lsSubmitted (r i))"
  shows "\<exists>j \<ge> i. lsApplied (r j) \<noteq> lsApplied (r i)"
proof (rule ccontr)
  assume "\<not> ?thesis"
  then have const: "lsApplied (r j) = lsApplied (r i)" if "i \<le> j" for j using that by blast
  note pending = stuck_pending [OF assms(1,3,5) _ const]
  have pos: "lsPc (r j) \<in> {AtSelect, CheckingPersist}" if "i \<le> j" for j
    by (rule stuck_positions [OF assms(1,2,4) that const pending])
  have "infinitelyOften (\<lambda>j. can_receive (r j))"
    unfolding infinitelyOften_def
  proof
    fix k
    have "\<not> draining (lsPc (r j))" if "max i k \<le> j" for j using pos [of j] that by auto
    then have "\<exists>j \<ge> max i k. lsPc (r j) = AtSelect" by (rule run_selects [OF assms(1,2)])
    then obtain j where j: "i \<le> j" "k \<le> j" "lsPc (r j) = AtSelect" by auto
    then show "\<exists>j \<ge> k. can_receive (r j)" using pending [OF j(1) j(1)] by (auto simp: can_receive_def)
  qed
  then obtain j where "i \<le> j" "receives (r j) (r (Suc j))"
    using assms(2) by (auto simp: loop_fair_def stronglyFair_def infinitelyOften_def)
  then show False using pos [of "Suc j"] by (auto simp: receives_def)
qed

lemma run_progress_by_one:
  assumes "isRun (loop_step env) r" "loop_fair r" "fifo_inv env dms (r i)" "\<not> pastDrain (lsPc (r i))"
    and "length (lsApplied (r i)) < length (lsSubmitted (r i))"
  obtains j where "i \<le> j" "length (lsApplied (r j)) = Suc (length (lsApplied (r i)))" "\<not> pastDrain (lsPc (r j))"
proof -
  let ?P = "\<lambda>j. i \<le> j \<and> lsApplied (r j) \<noteq> lsApplied (r i)"
  have "\<exists>j. ?P j" using run_progress [OF assms] by blast
  then have P: "?P (LEAST j. ?P j)" by (rule LeastI_ex)
  define j where "j = (LEAST j. ?P j)"
  have least: "\<not> ?P k" if "k < j" for k using that unfolding j_def by (rule not_less_Least)
  have j: "i \<le> j" "lsApplied (r j) \<noteq> lsApplied (r i)" using P by (simp_all add: j_def)
  then have "i < j" by (cases "i = j") simp_all
  then obtain k where k: "j = Suc k" "i \<le> k" by (cases j) simp_all
  then have same: "lsApplied (r k) = lsApplied (r i)" using least [of k] by simp
  then have "r (Suc k) \<noteq> r k" using j(2) k(1) by auto
  then have step: "loop_step env (r k) (r (Suc k))" using run_step [OF assms(1), of k] by blast
  have "lsApplied (r (Suc k)) \<noteq> lsApplied (r k)" using j(2) k(1) same by simp
  from applied_by_one [OF step this] same show ?thesis by (intro that [of "Suc k"]) (use k in simp_all)
qed

text \<open>Under a fair scheduler every request that is submitted before the loop is past its drain is applied, at its turn.\<close>

lemma submitted_is_applied:
  assumes "isRun (loop_step env) r" "loop_fair r" "fifo_inv env dms (r i)" "\<not> pastDrain (lsPc (r i))"
    and "k < length (lsSubmitted (r i))"
  shows "\<exists>j \<ge> i. k < length (lsApplied (r j)) \<and> fst (lsApplied (r j) ! k) = lsSubmitted (r i) ! k"
  using assms(3-5)
proof (induction "Suc k - length (lsApplied (r i))" arbitrary: i)
  case 0
  then have "k < length (lsApplied (r i))" by simp
  moreover from this have "fst (lsApplied (r i) ! k) = lsSubmitted (r i) ! k"
    using 0(2) by (simp add: fifo_inv_def nth_append)
  ultimately show ?case by blast
next
  case (Suc n)
  have "length (lsApplied (r i)) < length (lsSubmitted (r i))" using Suc.hyps(2) Suc.prems(3) by simp
  from run_progress_by_one [OF assms(1,2) Suc.prems(1,2) this]
  obtain j where j: "i \<le> j" "length (lsApplied (r j)) = Suc (length (lsApplied (r i)))" "\<not> pastDrain (lsPc (r j))" by blast
  obtain vs where vs: "lsSubmitted (r j) = lsSubmitted (r i) @ vs" using run_submitted_prefix [OF assms(1) j(1)] by blast
  have "n = Suc k - length (lsApplied (r j))" "k < length (lsSubmitted (r j))" using Suc.hyps(2) j(2) vs Suc.prems(3) by simp_all
  from Suc.hyps(1) [OF this(1) run_fifo [OF assms(1) Suc.prems(1) j(1)] j(3) this(2)]
  obtain j' where j': "j \<le> j'" "k < length (lsApplied (r j'))" "fst (lsApplied (r j') ! k) = lsSubmitted (r j) ! k" by blast
  then show ?case using j(1) vs Suc.prems(3) by (intro exI [of _ j']) (simp add: nth_append)
qed

lemma submissions_applied:
  assumes "isRun (loop_step env) r" "loop_fair r" "fifo_inv env dms (r i)" "\<not> pastDrain (lsPc (r i))"
  obtains j where "i \<le> j" "\<And>k. j \<le> k \<Longrightarrow> length (lsSubmitted (r i)) \<le> length (lsApplied (r k))"
proof -
  have "\<exists>j \<ge> i. length (lsSubmitted (r i)) \<le> length (lsApplied (r j))"
  proof (cases "length (lsSubmitted (r i))")
    case (Suc m)
    then obtain j where "i \<le> j" "m < length (lsApplied (r j))" using submitted_is_applied [OF assms, of m] by auto
    then show ?thesis using Suc by (intro exI [of _ j]) simp
  qed auto
  then obtain j where j: "i \<le> j" "length (lsSubmitted (r i)) \<le> length (lsApplied (r j))" by blast
  have "length (lsSubmitted (r i)) \<le> length (lsApplied (r k))" if "j \<le> k" for k
    using run_applied_prefix [OF assms(1) that] j(2) by auto
  then show ?thesis using that j(1) by blast
qed

end
