(* ===== verification/Liveness.thy ===== *)
theory Liveness
  imports Fairness
begin

text \<open>
  Liveness of the process: with fair scheduling every push and every deletion that has arrived is answered, as
  long as \<open>main\<close> has not yet shut the store down.
\<close>

section \<open>Fair runs of the process\<close>

definition can_submit :: "nat \<Rightarrow> process \<Rightarrow> bool" where
  "can_submit h p \<longleftrightarrow> psMain p \<noteq> Exited \<and> (\<exists>wr. fmlookup (psHandlers p) h = Some (Submitting wr)) \<and>
     length (lsQueue (psLoop p)) < writeQueueCapacity"

definition takes_submit :: "nat \<Rightarrow> process \<Rightarrow> process \<Rightarrow> bool" where
  "takes_submit h p p' \<longleftrightarrow> (\<exists>wr. fmlookup (psHandlers p) h = Some (Submitting wr) \<and> p' = submitHandler h wr p)"

definition can_answer :: "nat \<Rightarrow> process \<Rightarrow> bool" where
  "can_answer h p \<longleftrightarrow> psMain p \<noteq> Exited \<and>
     (\<exists>wr ch. fmlookup (psHandlers p) h = Some (Waiting wr) \<and> wrDone wr = Some ch \<and> ch \<in> set (lsClosed (psLoop p)))"

definition gives_answer :: "nat \<Rightarrow> process \<Rightarrow> process \<Rightarrow> bool" where
  "gives_answer h p p' \<longleftrightarrow>
     (\<exists>wr ch. fmlookup (psHandlers p) h = Some (Waiting wr) \<and> wrDone wr = Some ch \<and> p' = answerHandler h wr ch p)"

text \<open>A wipe takes its turns, and submits like any other handler.\<close>

definition can_turn :: "nat \<Rightarrow> process \<Rightarrow> bool" where
  "can_turn h p \<longleftrightarrow> psMain p \<noteq> Exited \<and> (\<exists>ls. fmlookup (psHandlers p) h = Some (Wiping ls))"

definition takes_turn :: "nat \<Rightarrow> process \<Rightarrow> process \<Rightarrow> bool" where
  "takes_turn h p p' \<longleftrightarrow> (\<exists>ls. fmlookup (psHandlers p) h = Some (Wiping ls) \<and> p' = nextWipe h ls p)"

definition can_wipe :: "nat \<Rightarrow> process \<Rightarrow> bool" where
  "can_wipe h p \<longleftrightarrow> psMain p \<noteq> Exited \<and> (\<exists>wr rest. fmlookup (psHandlers p) h = Some (WipeSubmitting wr rest)) \<and>
     length (lsQueue (psLoop p)) < writeQueueCapacity"

definition takes_wipe :: "nat \<Rightarrow> process \<Rightarrow> process \<Rightarrow> bool" where
  "takes_wipe h p p' \<longleftrightarrow> (\<exists>wr rest. fmlookup (psHandlers p) h = Some (WipeSubmitting wr rest) \<and> p' = submitWipe h wr rest p)"

definition process_fair :: "(nat \<Rightarrow> process) \<Rightarrow> bool" where
  "process_fair r \<longleftrightarrow> loop_fair (psLoop \<circ> r) \<and>
     (\<forall>h. stronglyFair (can_submit h) (takes_submit h) r \<and> weaklyFair (can_answer h) (gives_answer h) r) \<and>
     (\<forall>h. weaklyFair (can_turn h) (takes_turn h) r \<and> stronglyFair (can_wipe h) (takes_wipe h) r)"

text \<open>The phases of a handler, forward from where it submits.\<close>

lemma submitting_step:
  "process_step env p p' \<Longrightarrow> fmlookup (psHandlers p) h = Some (Submitting wr) \<Longrightarrow>
   fmlookup (psHandlers p') h = Some (Submitting wr) \<or> takes_submit h p p'"
  by (erule process_stepE)
    (auto simp: takes_submit_def handler_ops fmdom'_iff_not_None)

lemma waiting_step:
  "process_step env p p' \<Longrightarrow> fmlookup (psHandlers p) h = Some (Waiting wr) \<Longrightarrow>
   fmlookup (psHandlers p') h = Some (Waiting wr) \<or> gives_answer h p p'"
  by (erule process_stepE)
    (auto simp: gives_answer_def handler_ops fmdom'_iff_not_None)

lemma not_serving_again: "process_step env p p' \<Longrightarrow> psMain p \<noteq> Serving \<Longrightarrow> psMain p' \<noteq> Serving"
  by (erule process_stepE) (auto simp: handler_ops)

section \<open>A run before the shutdown of the store\<close>

lemma run_inv:
  assumes "zeroTime \<le> t" "r 0 = initProcess dms t disk" "isRun (process_step env) r"
  shows "process_inv env dms (r i)"
  using reachable_process_inv [OF assms(1)] run_reaches [OF assms(3), of 0 i] assms(2) by simp

lemma run_loop:
  assumes "zeroTime \<le> t" "r 0 = initProcess dms t disk" "isRun (process_step env) r"
  shows "isRun (loop_step (peLoop env)) (psLoop \<circ> r)"
  unfolding isRun_def
proof
  fix i
  have "process_inv env dms (r i)" by (rule run_inv [OF assms])
  then have "\<not> lsDrain (psLoop (r i)) \<or> psMain (r i) \<noteq> ServerStopped" by (auto simp: process_inv_def)
  then show "(psLoop \<circ> r) (Suc i) = (psLoop \<circ> r) i \<or> loop_step (peLoop env) ((psLoop \<circ> r) i) ((psLoop \<circ> r) (Suc i))"
    using run_step [OF assms(3), of i] process_loop_step by fastforce
qed

lemma not_draining:
  "process_inv env dms p \<Longrightarrow> psMain p \<in> {Serving, ServerStopped} \<Longrightarrow> \<not> draining (lsPc (psLoop p))"
  by (auto simp: process_inv_def answer_inv_def)

lemma run_has_room:
  assumes "isRun (loop_step env) l" "loop_fair l" "fifo_inv env dms (l i)" "\<And>j. i \<le> j \<Longrightarrow> \<not> draining (lsPc (l j))"
  shows "\<exists>j \<ge> i. length (lsQueue (l j)) < writeQueueCapacity"
proof (rule ccontr)
  assume "\<not> ?thesis"
  then have full: "writeQueueCapacity \<le> length (lsQueue (l j))" if "i \<le> j" for j using that by (simp add: not_less)
  have "infinitelyOften (\<lambda>j. can_receive (l j))"
    unfolding infinitelyOften_def
  proof
    fix k
    have "\<exists>j \<ge> max i k. lsPc (l j) = AtSelect" by (rule run_selects [OF assms(1,2)]) (use assms(4) in simp)
    then obtain j where j: "i \<le> j" "k \<le> j" "lsPc (l j) = AtSelect" by auto
    then show "\<exists>j \<ge> k. can_receive (l j)" using full [OF j(1)] by (auto simp: can_receive_def writeQueueCapacity_def)
  qed
  then obtain j where j: "i \<le> j" "receives (l j) (l (Suc j))"
    using assms(2) by (auto simp: loop_fair_def stronglyFair_def infinitelyOften_def)
  have "length (lsQueue (l j)) \<le> writeQueueCapacity"
    using run_fifo [OF assms(1,3) j(1)] by (simp add: fifo_inv_def)
  moreover have "length (lsQueue (l j)) = Suc (length (lsQueue (l (Suc j))))" using j(2) by (auto simp: receives_def)
  ultimately show False using full [of "Suc j"] j(1) by simp
qed

text \<open>A run of which all states lie before the shutdown of the store.\<close>

definition serving_run :: "proc_env \<Rightarrow> DiskMetricStore \<Rightarrow> (nat \<Rightarrow> process) \<Rightarrow> bool" where
  "serving_run env dms r \<longleftrightarrow> isRun (process_step env) r \<and> process_fair r \<and>
     isRun (loop_step (peLoop env)) (psLoop \<circ> r) \<and>
     (\<forall>i. process_inv env dms (r i) \<and> \<not> draining (lsPc (psLoop (r i))) \<and> psMain (r i) \<noteq> Exited)"

lemma serving_runD:
  assumes "serving_run env dms r"
  shows "isRun (process_step env) r" "loop_fair (psLoop \<circ> r)" "stronglyFair (can_submit h) (takes_submit h) r"
    "weaklyFair (can_answer h) (gives_answer h) r" "isRun (loop_step (peLoop env)) (psLoop \<circ> r)"
    "process_inv env dms (r i)" "\<not> draining (lsPc (psLoop (r i)))" "psMain (r i) \<noteq> Exited"
    "fifo_inv (peLoop env) dms ((psLoop \<circ> r) i)" "closed_inv (psLoop (r i))"
    "weaklyFair (can_turn h) (takes_turn h) r" "stronglyFair (can_wipe h) (takes_wipe h) r"
proof -
  show inv: "process_inv env dms (r i)" using assms by (simp add: serving_run_def)
  then show "fifo_inv (peLoop env) dms ((psLoop \<circ> r) i)" "closed_inv (psLoop (r i))"
    by (simp_all add: process_inv_def answer_inv_def)
qed (use assms in \<open>simp_all add: serving_run_def process_fair_def\<close>)

lemma submitting_submits:
  assumes "serving_run env dms r" "fmlookup (psHandlers (r i)) h = Some (Submitting wr)"
  obtains j where "i \<le> j" "r (Suc j) = submitHandler h wr (r j)"
proof -
  let ?Q = "\<lambda>p. fmlookup (psHandlers p) h = Some (Submitting wr)"
  note run = serving_runD [OF assms(1)]
  have stays: "?Q p'" if "?Q p" "process_step env p p'" "\<not> takes_submit h p p'" for p p'
    using submitting_step that by blast
  have enabled: "\<exists>j \<ge> k. can_submit h (r j)" if k: "i \<le> k" "\<forall>j \<ge> i. ?Q (r j)" for k
  proof -
    obtain j where j: "k \<le> j" "length (lsQueue (psLoop (r j))) < writeQueueCapacity"
      using run_has_room [OF run(5,2,9), of k] run(7) by auto
    then have "can_submit h (r j)" using k run(8) by (simp add: can_submit_def)
    then show ?thesis using j(1) by blast
  qed
  have "\<exists>j. i \<le> j \<and> ?Q (r j) \<and> takes_submit h (r j) (r (Suc j))"
    by (rule stronglyFair_taken [OF run(1,3), of ?Q i h, OF assms(2)]) (use stays enabled in blast)+
  then show ?thesis using that by (auto simp: takes_submit_def)
qed

lemma waiting_gets_closed:
  assumes "serving_run env dms r" "fmlookup (psHandlers (r i)) h = Some (Waiting wr)"
  shows "\<exists>j \<ge> i. \<forall>k \<ge> j. h \<in> set (lsClosed (psLoop (r k)))"
proof -
  note run = serving_runD [OF assms(1)]
  have wr: "wrDone wr = Some h" "wr \<in> set (lsSubmitted (psLoop (r i)))"
    using process_invD(4) [OF run(6) assms(2)] by simp_all
  then obtain n where n: "n < length (lsSubmitted (psLoop (r i)))" "lsSubmitted (psLoop (r i)) ! n = wr"
    by (auto simp: in_set_conv_nth)
  have "\<not> pastDrain (lsPc ((psLoop \<circ> r) i))" using run(7) [of i] by (cases "lsPc (psLoop (r i))") simp_all
  from submitted_is_applied [OF run(5,2,9) this, of n] n
  obtain j where j: "i \<le> j" "n < length (lsApplied (psLoop (r j)))" "fst (lsApplied (psLoop (r j)) ! n) = wr" by auto
  have "h \<in> set (lsClosed (psLoop (r k)))" if jk: "j \<le> k" for k
  proof -
    obtain vs where "lsApplied (psLoop (r k)) = lsApplied (psLoop (r j)) @ vs"
      using run_applied_prefix [OF run(5) jk] by auto
    then have "wr \<in> fst ` set (lsApplied (psLoop (r k)))" using j(2,3) by force
    moreover have "lsClosed (psLoop (r k)) = concat (map (doneOf \<circ> fst) (lsApplied (psLoop (r k))))"
      using run(10,7) [of k] by (simp add: closed_inv_def)
    ultimately show ?thesis using wr(1) by (force simp: doneOf_def)
  qed
  then show ?thesis using j(1) by blast
qed

lemma waiting_is_answered:
  assumes "serving_run env dms r" "fmlookup (psHandlers (r i)) h = Some (Waiting wr)"
  shows "\<exists>j \<ge> i. \<exists>rep. fmlookup (psHandlers (r j)) h = Some (Replied (Some wr) rep)"
proof -
  note run = serving_runD [OF assms(1)]
  obtain n where n: "i \<le> n" "\<forall>k \<ge> n. h \<in> set (lsClosed (psLoop (r k)))"
    using waiting_gets_closed [OF assms] by blast
  have done_wr: "wrDone wr = Some h" using process_invD(4) [OF run(6) assms(2)] by simp
  have answer: "\<exists>rep. fmlookup (psHandlers p') h = Some (Replied (Some wr) rep)"
    if "fmlookup (psHandlers p) h = Some (Waiting wr)" "gives_answer h p p'" for p p'
    using that by (auto simp: gives_answer_def answerHandler_def)
  show ?thesis
  proof (cases "\<exists>j \<ge> i. gives_answer h (r j) (r (Suc j)) \<and> fmlookup (psHandlers (r j)) h = Some (Waiting wr)")
    case True
    then show ?thesis using answer by (meson le_SucI)
  next
    case False
    have waiting: "fmlookup (psHandlers (r j)) h = Some (Waiting wr)" if "i \<le> j" for j
      using run(1) assms(2) _ that
    proof (rule run_from)
      fix k assume "i \<le> k" "fmlookup (psHandlers (r k)) h = Some (Waiting wr)" "process_step env (r k) (r (Suc k))"
      then show "fmlookup (psHandlers (r (Suc k))) h = Some (Waiting wr)" using waiting_step False by blast
    qed
    have "can_answer h (r j)" if "n \<le> j" for j
      using waiting [of j] run(8) [of j] n that done_wr by (simp add: can_answer_def)
    then obtain j where "n \<le> j" "gives_answer h (r j) (r (Suc j))"
      using run(4) [of h] unfolding weaklyFair_def infinitelyOften_def by blast
    then show ?thesis using False waiting n(1) by (meson le_trans)
  qed
qed

text \<open>A fair run in which \<open>main\<close> has not shut the store down is a serving run.\<close>

lemma serving_runI:
  assumes "zeroTime \<le> t" "r 0 = initProcess dms t disk" "isRun (process_step env) r" "process_fair r"
    and "\<forall>k. psMain (r k) \<in> {Serving, ServerStopped}"
  shows "serving_run env dms r"
  unfolding serving_run_def
proof (intro conjI allI)
  fix k
  show inv: "process_inv env dms (r k)" by (rule run_inv [OF assms(1-3)])
  show "\<not> draining (lsPc (psLoop (r k)))" using not_draining [OF inv] assms(5) by blast
  show "psMain (r k) \<noteq> Exited" using assms(5) by (metis insertE main_pc.distinct singletonD)
qed (use assms(3,4) run_loop [OF assms(1-3)] in blast)+

section \<open>Properties\<close>

text \<open>
  C23. Every push and every deletion that has arrived is answered, as long as \<open>main\<close> has not shut the store down: in
  every fair run, a handler that is about to submit its request or waits for its outcome replies after
  finitely many steps.
\<close>

theorem push_is_answered:
  assumes "zeroTime \<le> t" "r 0 = initProcess dms t disk" "isRun (process_step env) r" "process_fair r"
    and "\<forall>k. psMain (r k) \<in> {Serving, ServerStopped}"
    and "fmlookup (psHandlers (r i)) h \<in> {Some (Submitting wr), Some (Waiting wr)}"
  shows "\<exists>j \<ge> i. \<exists>rep. fmlookup (psHandlers (r j)) h = Some (Replied (Some wr) rep)"
proof -
  have run: "serving_run env dms r" by (rule serving_runI [OF assms(1-5)])
  show ?thesis
  proof (cases "fmlookup (psHandlers (r i)) h = Some (Waiting wr)")
    case False
    then have "fmlookup (psHandlers (r i)) h = Some (Submitting wr)" using assms(6) by simp
    from submitting_submits [OF run this] obtain j where j: "i \<le> j" "r (Suc j) = submitHandler h wr (r j)" by blast
    show ?thesis
    proof (cases "wrDone wr")
      case None
      then show ?thesis using j by (intro exI [of _ "Suc j"]) (simp add: submitHandler_def)
    next
      case (Some ch)
      then have "fmlookup (psHandlers (r (Suc j))) h = Some (Waiting wr)" using j(2) by (simp add: submitHandler_def)
      from waiting_is_answered [OF run this] show ?thesis using j(1) by (meson Suc_leD le_trans)
    qed
  qed (rule waiting_is_answered [OF run])
qed

text \<open>A fair run for a concrete input: a push arrives, is handled and answered, and then nothing happens any more.\<close>

lemma run_of_path:
  assumes "step\<^sup>*\<^sup>* p q"
  shows "\<exists>r n. isRun step r \<and> r 0 = p \<and> (\<forall>i \<ge> n. r i = q)"
  using assms
proof (induction rule: rtranclp_induct)
  case base
  show ?case by (intro exI [of _ "\<lambda>i. p"] exI [of _ 0]) (simp add: isRun_def)
next
  case (step q q')
  then obtain r n where r: "isRun step r" "r 0 = p" "\<forall>i \<ge> n. r i = q" by blast
  let ?r = "\<lambda>i. if i \<le> n then r i else q'"
  have "isRun step ?r" using r(1,3) step.hyps(2) by (auto simp: isRun_def le_Suc_eq not_le less_Suc_eq)
  then show ?case using r(2) by (intro exI [of _ ?r] exI [of _ "Suc n"]) simp
qed

lemma run_of_paths:
  assumes "step\<^sup>*\<^sup>* p q" "step\<^sup>*\<^sup>* q q'"
  shows "\<exists>r n k. isRun step r \<and> r 0 = p \<and> r k = q \<and> (\<forall>i \<ge> n. r i = q')"
proof -
  obtain r1 n1 where r1: "isRun step r1" "r1 0 = p" "\<forall>i \<ge> n1. r1 i = q" using run_of_path [OF assms(1)] by blast
  obtain r2 n2 where r2: "isRun step r2" "r2 0 = q" "\<forall>i \<ge> n2. r2 i = q'" using run_of_path [OF assms(2)] by blast
  define r where "r i = (if i \<le> n1 then r1 i else r2 (i - n1))" for i
  have late: "r i = r2 (i - n1)" if "n1 \<le> i" for i using that r1(3) r2(2) by (simp add: r_def)
  have "r (Suc i) = r i \<or> step (r i) (r (Suc i))" for i
  proof (cases "i < n1")
    case True
    then show ?thesis using run_step [OF r1(1), of i] by (simp add: r_def)
  next
    case False
    then have "Suc i - n1 = Suc (i - n1)" by simp
    then show ?thesis using False run_step [OF r2(1), of "i - n1"] by (simp add: late)
  qed
  then have "isRun step r" by (simp add: isRun_def)
  moreover have "r 0 = p" "r n1 = q" using r1 by (simp_all add: r_def)
  moreover have "\<forall>i \<ge> n1 + n2. r i = q'" using r2(3) by (simp add: late)
  ultimately show ?thesis by blast
qed

lemma rest_is_fair:
  assumes "\<forall>i \<ge> n. r i = q" "lsPc (psLoop q) = AtSelect" "lsQueue (psLoop q) = []"
    and "\<And>h ph. fmlookup (psHandlers q) h = Some ph \<Longrightarrow> \<exists>wr rep. ph = Replied wr rep"
  shows "process_fair r"
proof -
  have "\<not> loop_busy (psLoop q)" "\<not> can_receive (psLoop q)" using assms(2,3) by (simp_all add: can_receive_def)
  then have "loop_fair (psLoop \<circ> r)"
    unfolding loop_fair_def using assms(1)
    by (intro conjI fair_at_rest [of n _ "psLoop q"]) simp_all
  moreover have "\<not> can_submit h q" "\<not> can_answer h q" "\<not> can_turn h q" "\<not> can_wipe h q" for h
    using assms(4) [of h] by (auto simp: can_submit_def can_answer_def can_turn_def can_wipe_def)
  then have "stronglyFair (can_submit h) (takes_submit h) r" "weaklyFair (can_answer h) (gives_answer h) r"
    "weaklyFair (can_turn h) (takes_turn h) r" "stronglyFair (can_wipe h) (takes_wipe h) r" for h
    using assms(1) by (intro fair_at_rest [of n _ q]; simp)+
  ultimately show ?thesis by (simp add: process_fair_def)
qed

lemma serving_before:
  assumes "isRun (process_step env) r" "psMain (r j) = Serving" "i \<le> j"
  shows "psMain (r i) = Serving"
proof (rule ccontr)
  assume "psMain (r i) \<noteq> Serving"
  then have "psMain (r j) \<noteq> Serving"
    using not_serving_again by (rule run_from [OF assms(1) _ _ assms(3)])
  then show False using assms(2) by simp
qed

theorem push_is_answered_witness:
  "\<exists>r i j rep. isRun (process_step sample_process_env) r \<and> r 0 = initProcess sample_store 5 None \<and> process_fair r \<and>
     fmlookup (psHandlers (r i)) 0 = Some (Waiting sample_push) \<and> i \<le> j \<and>
     fmlookup (psHandlers (r j)) 0 = Some (Replied (Some sample_push) rep)"
proof -
  let ?p0 = "initProcess sample_store 5 None"
  have z: "zeroTime \<le> 5" by (simp add: zeroTime_def)
  obtain p where p: "(process_step sample_process_env)\<^sup>*\<^sup>* ?p0 p" "psMain p = Serving"
    "fmlookup (psHandlers p) 0 = Some (Waiting sample_push)" "\<not> draining (lsPc (psLoop p))" "fmdom' (psHandlers p) = {0}"
    using sample_waiting by blast
  from p(2) have "psMain p \<noteq> Exited" by simp
  from reach_answer [OF reachable_process_inv [OF z p(1)] p(3,4) this]
  obtain q rep where q: "(process_step sample_process_env)\<^sup>*\<^sup>* p q"
    "psHandlers q = fmupd 0 (Replied (Some sample_push) rep) (psHandlers p)" "psMain q = psMain p"
    "lsPc (psLoop q) = AtSelect" "lsQueue (psLoop q) = []" by blast
  obtain r n k where r: "isRun (process_step sample_process_env) r" "r 0 = ?p0" "r k = p" "\<forall>i \<ge> n. r i = q"
    using run_of_paths [OF p(1) q(1)] by blast
  have fair: "process_fair r"
  proof (rule rest_is_fair [OF r(4) q(4,5)])
    fix h ph assume "fmlookup (psHandlers q) h = Some ph"
    moreover have "fmlookup (psHandlers p) h = None" if "h \<noteq> 0"
      by (rule fmdom'_notD) (simp add: p(5) that)
    ultimately show "\<exists>wr rep. ph = Replied wr rep" using q(2) by (auto split: if_splits)
  qed
  have "psMain (r i) = Serving" for i
    by (rule serving_before [OF r(1), of "max i n"]) (use r(4) q(3) p(2) in simp_all)
  then have "\<forall>i. psMain (r i) \<in> {Serving, ServerStopped}" by simp
  from push_is_answered [OF z r(2,1) fair this, of k 0 sample_push] p(3) r(3)
  obtain j rep where "k \<le> j" "fmlookup (psHandlers (r j)) 0 = Some (Replied (Some sample_push) rep)" by auto
  then show ?thesis using r fair p(3) by blast
qed

end
