(* ===== verification/ShutdownProps.thy ===== *)
theory ShutdownProps
  imports Liveness Draining
begin

text \<open>
  Liveness of the shutdown: a process that was asked to quit exits, and by then has applied all that it had taken on
  before, when requests stop arriving; a handler that is still running submits only finitely often.
\<close>

section \<open>What decreases\<close>

lemma run_decreases:
  fixes f :: "nat \<Rightarrow> nat"
  assumes "\<And>k. m \<le> k \<Longrightarrow> \<not> P k \<Longrightarrow> \<exists>j \<ge> k. f j < f k"
  shows "\<exists>j \<ge> m. P j"
proof -
  have "\<exists>j \<ge> k. P j" if "m \<le> k" for k
    using that
  proof (induction "f k" arbitrary: k rule: less_induct)
    case less
    show ?case
    proof (cases "P k")
      case False
      then obtain j where "k \<le> j" "f j < f k" using assms less.prems by blast
      then show ?thesis using less.hyps [of j] less.prems by (meson le_trans)
    qed blast
  qed
  then show ?thesis by blast
qed

lemma antimono_settles:
  fixes f :: "nat \<Rightarrow> nat"
  assumes "\<And>k. n \<le> k \<Longrightarrow> f (Suc k) \<le> f k"
  obtains m where "n \<le> m" "\<And>k. m \<le> k \<Longrightarrow> f k = f m"
proof -
  obtain m where m: "n \<le> m" "\<And>k. n \<le> k \<Longrightarrow> f m \<le> f k"
    using ex_has_least_nat [of "\<lambda>k. n \<le> k" n f] by auto
  have "f k \<le> f m" if "m \<le> k" for k
    using that
  proof (induction rule: dec_induct)
    case (step k)
    then show ?case using assms [of k] m(1) by simp
  qed simp
  then show ?thesis using m that [of m] by (meson le_antisym le_trans)
qed

section \<open>The handlers that are running\<close>

text \<open>The submissions that a handler can still make, and those of all handlers.\<close>

definition phaseWork :: "handler_phase \<Rightarrow> nat" where
  "phaseWork ph =
     (case ph of Submitting wr \<Rightarrow> 1 | Wiping ls \<Rightarrow> length ls | WipeSubmitting wr rest \<Rightarrow> Suc (length rest) | _ \<Rightarrow> 0)"

definition handlersWork :: "(nat, handler_phase) fmap \<Rightarrow> nat" where
  "handlersWork m = (\<Sum>h \<in> fmdom' m. phaseWork (the (fmlookup m h)))"

lemma phaseWork_simps [simp]:
  "phaseWork (Submitting wr) = 1" "phaseWork (Waiting wr) = 0" "phaseWork (Wiping ls) = length ls"
  "phaseWork (WipeSubmitting wr rest) = Suc (length rest)" "phaseWork (Replied w r) = 0"
  by (simp_all add: phaseWork_def)

lemma handlersWork_upd:
  assumes "fmlookup m h = Some ph"
  shows "handlersWork (fmupd h ph' m) = handlersWork m - phaseWork ph + phaseWork ph'" "phaseWork ph \<le> handlersWork m"
proof -
  let ?rest = "\<Sum>h \<in> fmdom' m - {h}. phaseWork (the (fmlookup m h))"
  have h: "h \<in> fmdom' m" using assms by (auto simp: fmdom'_iff_not_None)
  then have dom: "fmdom' (fmupd h ph' m) = fmdom' m" by auto
  have old: "handlersWork m = phaseWork ph + ?rest"
    using h assms by (simp add: handlersWork_def sum.remove [of _ h])
  have "(\<Sum>x \<in> fmdom' m - {h}. phaseWork (the (fmlookup (fmupd h ph' m) x))) = ?rest"
    by (rule sum.cong) auto
  then have "handlersWork (fmupd h ph' m) = phaseWork ph' + ?rest"
    using h unfolding handlersWork_def dom by (simp add: sum.remove [of _ h])
  then show "handlersWork (fmupd h ph' m) = handlersWork m - phaseWork ph + phaseWork ph'" "phaseWork ph \<le> handlersWork m"
    using old by simp_all
qed

text \<open>Unless a request arrives, a step leaves the work as it is or makes it less, and every submission does the latter.\<close>

lemma handlers_work_step:
  assumes "process_step env p p'" "fmdom' (psHandlers p') = fmdom' (psHandlers p)"
  shows "handlersWork (psHandlers p') \<le> handlersWork (psHandlers p) \<and>
    (lsSubmitted (psLoop p') = lsSubmitted (psLoop p) \<or> handlersWork (psHandlers p') < handlersWork (psHandlers p))"
  using assms(1)
proof (cases rule: process_step.cases)
  case (submit h wr)
  then show ?thesis
    using handlersWork_upd [OF submit(3)] by (auto simp: submitHandler_def split: option.split)
next
  case (answer h wr ch)
  then show ?thesis using handlersWork_upd [OF answer(3)] by (auto simp: answerHandler_def)
next
  case (wipe_turn h ls)
  then show ?thesis
    using handlersWork_upd [OF wipe_turn(3)] by (auto simp: nextWipe_def split: list.split)
next
  case (wipe_submit h wr rest)
  then show ?thesis using handlersWork_upd [OF wipe_submit(3)] by (auto simp: submitWipe_def)
qed (use assms(2) in \<open>auto simp: handler_ops internal_step_def Shutdown_def\<close>)

lemma submissions_end:
  assumes "isRun (process_step env) r" "\<And>k. n \<le> k \<Longrightarrow> fmdom' (psHandlers (r k)) = fmdom' (psHandlers (r n))"
  obtains m where "n \<le> m" "\<And>k. m \<le> k \<Longrightarrow> lsSubmitted (psLoop (r k)) = lsSubmitted (psLoop (r m))"
proof -
  let ?work = "\<lambda>k. handlersWork (psHandlers (r k))"
  have moves: "r (Suc k) = r k \<or> process_step env (r k) (r (Suc k)) \<and> fmdom' (psHandlers (r (Suc k))) = fmdom' (psHandlers (r k))"
    if "n \<le> k" for k
    using run_step [OF assms(1), of k] assms(2) [of k] assms(2) [of "Suc k"] that by auto
  then have "?work (Suc k) \<le> ?work k" if "n \<le> k" for k
    using that handlers_work_step by (metis order_refl)
  then obtain m where m: "n \<le> m" "\<And>k. m \<le> k \<Longrightarrow> ?work k = ?work m" using antimono_settles [of n ?work] by blast
  have "lsSubmitted (psLoop (r k)) = lsSubmitted (psLoop (r m))" if "m \<le> k" for k
    using that
  proof (induction rule: dec_induct)
    case (step k)
    have "?work (Suc k) = ?work k" using m(2) [of k] m(2) [of "Suc k"] step.hyps by simp
    then have "lsSubmitted (psLoop (r (Suc k))) = lsSubmitted (psLoop (r k))"
      using moves [of k] handlers_work_step [of env "r k" "r (Suc k)"] m(1) step.hyps
      by fastforce
    then show ?case using step.IH by simp
  qed simp
  then show ?thesis using that m(1) by blast
qed

section \<open>The end of the loop\<close>

text \<open>A \<open>select\<close> that finds the drain channel closed again and again takes that case in the end.\<close>

definition can_drain :: "loop_state \<Rightarrow> bool" where
  "can_drain s \<longleftrightarrow> lsPc s = AtSelect \<and> lsDrain s"

definition drains :: "loop_state \<Rightarrow> loop_state \<Rightarrow> bool" where
  "drains s s' \<longleftrightarrow> lsPc s = AtSelect \<and> lsPc s' = Draining"

lemma drain_stays: "loop_step env s s' \<Longrightarrow> lsDrain s \<Longrightarrow> lsDrain s'"
  by (erule loop_stepE) (auto simp: loop_ops)

lemma draining_stays: "loop_step env s s' \<Longrightarrow> draining (lsPc s) \<Longrightarrow> draining (lsPc s')"
  by (erule loop_stepE) (auto simp: loop_ops)

lemma finished_stays: "loop_step env s s' \<Longrightarrow> lsPc s = Finished ok \<Longrightarrow> lsPc s' = Finished ok"
  by (erule loop_stepE) (auto simp: loop_ops)

lemma moves_own: "loop_step env s s' \<Longrightarrow> draining (lsPc s) \<Longrightarrow> loop_moves s s' \<Longrightarrow> own_step s s'"
  by (erule loop_stepE) (auto simp: loop_moves_def own_step_def loop_ops)

lemma drain_begins:
  assumes "isRun (loop_step env) l" "loop_fair l" "stronglyFair can_drain drains l" "lsDrain (l i)"
  shows "\<exists>j \<ge> i. draining (lsPc (l j))"
proof (rule ccontr)
  assume "\<not> ?thesis"
  then have none: "\<not> draining (lsPc (l j))" if "i \<le> j" for j using that by blast
  have "lsDrain (l j)" if "i \<le> j" for j
    using assms(1,4) drain_stays that by (rule run_from)
  then have "infinitelyOften (\<lambda>j. can_drain (l j))"
    unfolding infinitelyOften_def can_drain_def
    using run_selects [OF assms(1,2), of "max i k" for k] none by (meson max.bounded_iff)
  then obtain j where "i \<le> j" "drains (l j) (l (Suc j))"
    using assms(3) by (auto simp: stronglyFair_def infinitelyOften_def)
  then show False using none [of "Suc j"] by (simp add: drains_def)
qed

text \<open>A loop that drains finishes when nothing more is submitted.\<close>

lemma drain_work_decreases:
  assumes "isRun (loop_step env) l" "loop_fair l" "draining (lsPc (l k))" "\<nexists>ok. lsPc (l k) = Finished ok"
    and "\<And>j. k \<le> j \<Longrightarrow> lsSubmitted (l j) = lsSubmitted (l k)"
  shows "\<exists>j \<ge> k. drainWork (l j) < drainWork (l k)"
proof -
  have "loop_busy (l k)" using assms(3,4) by (cases "lsPc (l k)") (auto simp: loop_busy_def)
  from run_moves [OF assms(1,2) this]
  obtain j where j: "k \<le> j" "lsPc (l j) = lsPc (l k)" "loop_step env (l j) (l (Suc j))" "loop_moves (l j) (l (Suc j))" by blast
  let ?P = "\<lambda>s. draining (lsPc s) \<and> lsSubmitted s = lsSubmitted (l k) \<and> drainWork s \<le> drainWork (l k)"
  have "?P (l j)"
  proof (rule run_from [OF assms(1), of ?P k])
    fix i assume i: "k \<le> i" "?P (l i)" "loop_step env (l i) (l (Suc i))"
    then show "?P (l (Suc i))" using drainWork_step [OF i(3)] assms(5) [of "Suc i"] by auto
  qed (use assms(3) j(1) in simp_all)
  moreover have "lsSubmitted (l (Suc j)) = lsSubmitted (l j)" using assms(5) [of j] assms(5) [of "Suc j"] j(1) by simp
  ultimately show ?thesis
    using drainWork_step [OF j(3)] moves_own [OF j(3) _ j(4)] j(1) by (intro exI [of _ "Suc j"]) auto
qed

lemma loop_finishes:
  assumes "isRun (loop_step env) l" "loop_fair l" "stronglyFair can_drain drains l" "lsDrain (l i)"
    and "\<And>k. m \<le> k \<Longrightarrow> lsSubmitted (l k) = lsSubmitted (l m)"
  shows "\<exists>j \<ge> i. \<exists>ok. lsPc (l j) = Finished ok"
proof -
  obtain d where d: "i \<le> d" "draining (lsPc (l d))" using drain_begins [OF assms(1-4)] by blast
  have draining: "draining (lsPc (l k))" if "d \<le> k" for k
    using assms(1) d(2) draining_stays that by (rule run_from)
  have "\<exists>j \<ge> max d m. \<exists>ok. lsPc (l j) = Finished ok"
  proof (rule run_decreases)
    fix k assume k: "max d m \<le> k" "\<nexists>ok. lsPc (l k) = Finished ok"
    show "\<exists>j \<ge> k. drainWork (l j) < drainWork (l k)"
    proof (rule drain_work_decreases [OF assms(1,2) draining k(2)])
      fix j assume "k \<le> j"
      then show "lsSubmitted (l j) = lsSubmitted (l k)" using assms(5) [of j] assms(5) [of k] k(1) by simp
    qed (use k(1) in simp)
  qed
  then show ?thesis using d(1) by (meson le_trans max.cobounded1)
qed

section \<open>The end of the process\<close>

text \<open>The function \<open>main\<close> moves on when it can: the scheduler and the server do not keep it waiting.\<close>

definition main_can :: "process \<Rightarrow> bool" where
  "main_can p \<longleftrightarrow>
     (case psMain p of
        Serving \<Rightarrow> quitRequested p
      | ServerStopped \<Rightarrow> True
      | StoreStopping \<Rightarrow> (case lsPc (psLoop p) of Finished ok \<Rightarrow> True | _ \<Rightarrow> False)
      | Exited \<Rightarrow> False)"

definition main_moves :: "process \<Rightarrow> process \<Rightarrow> bool" where
  "main_moves p p' \<longleftrightarrow> psMain p' \<noteq> psMain p"

definition shutdown_fair :: "(nat \<Rightarrow> process) \<Rightarrow> bool" where
  "shutdown_fair r \<longleftrightarrow> loop_fair (psLoop \<circ> r) \<and> stronglyFair can_drain drains (psLoop \<circ> r) \<and>
     weaklyFair main_can main_moves r"

lemma quit_stays: "process_step env p p' \<Longrightarrow> quitRequested p \<Longrightarrow> quitRequested p'"
  by (erule process_stepE) (auto simp: handler_ops quitHandler_def split: if_splits)

lemma next_main:
  assumes "process_step env p p'" "psMain p' \<noteq> psMain p"
  shows "psMain p = Serving \<Longrightarrow> psMain p' = ServerStopped"
    and "psMain p = ServerStopped \<Longrightarrow> psMain p' = StoreStopping \<and> lsDrain (psLoop p')"
    and "psMain p = StoreStopping \<Longrightarrow> psMain p' = Exited"
  using assms by (auto elim!: process_stepE simp: handler_ops Shutdown_def)

lemma main_taken:
  assumes "isRun (process_step env) r" "shutdown_fair r" "psMain (r i) = pc" "Q (r i)"
    and "\<And>p p'. Q p \<Longrightarrow> psMain p = pc \<Longrightarrow> process_step env p p' \<Longrightarrow> Q p'" "\<And>p. Q p \<Longrightarrow> psMain p = pc \<Longrightarrow> main_can p"
  obtains j where "i \<le> j" "psMain (r j) = pc" "psMain (r (Suc j)) \<noteq> pc" "process_step env (r j) (r (Suc j))"
proof -
  have fair: "weaklyFair main_can main_moves r" using assms(2) by (simp add: shutdown_fair_def)
  have "\<exists>j. i \<le> j \<and> (psMain (r j) = pc \<and> Q (r j)) \<and> main_moves (r j) (r (Suc j))"
    by (rule weaklyFair_taken [OF assms(1) fair, of "\<lambda>p. psMain p = pc \<and> Q p" i])
      (use assms(3-6) in \<open>auto simp: main_moves_def\<close>)
  then obtain j where j: "i \<le> j" "psMain (r j) = pc" "psMain (r (Suc j)) \<noteq> pc" by (auto simp: main_moves_def)
  then have "process_step env (r j) (r (Suc j))" using run_step [OF assms(1), of j] by auto
  then show ?thesis using that j by blast
qed

lemma exited_stays: "process_step env p p' \<Longrightarrow> psMain p = Exited \<Longrightarrow> psMain p' = Exited"
  using exited_final by blast

lemma stopping_stays:
  "process_step env p p' \<Longrightarrow> psMain p \<in> {StoreStopping, Exited} \<Longrightarrow> psMain p' \<in> {StoreStopping, Exited}"
  using next_main(3) [of env p p'] exited_stays [of env p p'] by auto

lemma store_gets_shut_down:
  assumes "isRun (process_step env) r" "shutdown_fair r" "psMain (r i) = Serving" "quitRequested (r i)"
  obtains j where "i \<le> j" "psMain (r j) = StoreStopping" "lsDrain (psLoop (r j))"
proof -
  have can: "main_can p" if "quitRequested p" "psMain p = Serving" for p using that by (simp add: main_can_def)
  obtain a where a: "i \<le> a" "psMain (r a) = Serving" "psMain (r (Suc a)) \<noteq> Serving" "process_step env (r a) (r (Suc a))"
    by (rule main_taken [of env r i Serving quitRequested, OF assms(1-4) quit_stays can])
  then have "psMain (r (Suc a)) = ServerStopped" using next_main(1) [OF a(4)] by simp
  from main_taken [OF assms(1,2) this, of "\<lambda>p. True"]
  obtain b where b: "Suc a \<le> b" "psMain (r b) = ServerStopped" "psMain (r (Suc b)) \<noteq> ServerStopped"
    "process_step env (r b) (r (Suc b))" by (auto simp: main_can_def)
  then show ?thesis using next_main(2) [OF b(4)] a(1) by (intro that [of "Suc b"]) simp_all
qed

lemma process_ends:
  assumes "isRun (process_step env) r" "shutdown_fair r" "isRun (loop_step (peLoop env)) (psLoop \<circ> r)"
    and "psMain (r i) = StoreStopping" "lsDrain (psLoop (r i))"
    and "\<And>k. m \<le> k \<Longrightarrow> lsSubmitted (psLoop (r k)) = lsSubmitted (psLoop (r m))"
  shows "\<exists>j \<ge> i. psMain (r j) = Exited"
proof -
  obtain j ok where j: "i \<le> j" "lsPc (psLoop (r j)) = Finished ok"
  proof -
    have fair: "loop_fair (psLoop \<circ> r)" "stronglyFair can_drain drains (psLoop \<circ> r)" "lsDrain ((psLoop \<circ> r) i)"
      using assms(2,5) by (simp_all add: shutdown_fair_def)
    have "\<exists>j \<ge> i. \<exists>ok. lsPc ((psLoop \<circ> r) j) = Finished ok"
      by (rule loop_finishes [OF assms(3) fair, of m]) (unfold comp_apply, rule assms(6))
    then show ?thesis using that by auto
  qed
  have "psMain (r i) \<in> {StoreStopping, Exited}" using assms(4) by simp
  then have "psMain (r j) \<in> {StoreStopping, Exited}"
    using stopping_stays by (rule run_from [OF assms(1) _ _ j(1)])
  then consider "psMain (r j) = Exited" | "psMain (r j) = StoreStopping" by blast
  then show ?thesis
  proof cases
    case 2
    have stays: "lsPc (psLoop p') = Finished ok"
      if "lsPc (psLoop p) = Finished ok" "psMain p = StoreStopping" "process_step env p p'" for p p'
      using process_loop_step [OF that(3)] finished_stays that(1,2) by fastforce
    have can: "main_can p" if "lsPc (psLoop p) = Finished ok" "psMain p = StoreStopping" for p
      using that by (simp add: main_can_def)
    obtain b where b: "j \<le> b" "psMain (r b) = StoreStopping" "psMain (r (Suc b)) \<noteq> StoreStopping"
      "process_step env (r b) (r (Suc b))"
      by (rule main_taken [OF assms(1,2) 2, of "\<lambda>p. lsPc (psLoop p) = Finished ok", OF j(2) stays can])
    then show ?thesis using next_main(3) [OF b(4)] j(1) by (intro exI [of _ "Suc b"]) simp
  qed (use j(1) in blast)
qed

section \<open>Properties\<close>

text \<open>
  C19. A process that is asked to quit exits, and all the requests that it had taken on by then are
  applied in their order: in every run in which \<open>main\<close> and the loop are scheduled fairly and, from some point on, no
  further request arrives, whatever the handlers that are running still submit.
\<close>

theorem quit_ends_process:
  assumes "zeroTime \<le> t" "r 0 = initProcess dms t disk" "isRun (process_step env) r" "shutdown_fair r"
    and "psMain (r i) = Serving" "quitRequested (r i)"
    and "\<forall>k \<ge> n. fmdom' (psHandlers (r k)) = fmdom' (psHandlers (r n))"
  shows "\<exists>j \<ge> i. \<forall>k \<ge> j. psMain (r k) = Exited \<and>
    (\<exists>vs. map fst (lsApplied (psLoop (r k))) = lsSubmitted (psLoop (r i)) @ vs)"
proof -
  let ?l = "psLoop \<circ> r"
  have loop: "isRun (loop_step (peLoop env)) ?l" "loop_fair ?l"
    using run_loop [OF assms(1-3)] assms(4) by (simp_all add: shutdown_fair_def)
  have inv: "process_inv env dms (r k)" for k by (rule run_inv [OF assms(1-3)])
  then have fifo: "fifo_inv (peLoop env) dms (?l k)" for k by (simp add: process_inv_def answer_inv_def)
  have "\<not> draining (lsPc (psLoop (r i)))" using not_draining [OF inv] assms(5) by simp
  then have "\<not> pastDrain (lsPc (?l i))" by (cases "lsPc (psLoop (r i))") simp_all
  from submissions_applied [OF loop fifo this] obtain a where
    a: "i \<le> a" "\<And>k. a \<le> k \<Longrightarrow> length (lsSubmitted (psLoop (r i))) \<le> length (lsApplied (psLoop (r k)))"
    unfolding comp_apply by blast
  have dom: "fmdom' (psHandlers (r k)) = fmdom' (psHandlers (r n))" if "n \<le> k" for k using assms(7) that by blast
  obtain m where m: "n \<le> m" "\<And>k. m \<le> k \<Longrightarrow> lsSubmitted (psLoop (r k)) = lsSubmitted (psLoop (r m))"
    using submissions_end [OF assms(3) dom] by blast
  obtain b where b: "i \<le> b" "psMain (r b) = StoreStopping" "lsDrain (psLoop (r b))"
    using store_gets_shut_down [OF assms(3-6)] by blast
  obtain e where e: "b \<le> e" "psMain (r e) = Exited" using process_ends [OF assms(3,4) loop(1) b(2,3) m(2)] by blast
  have "psMain (r k) = Exited \<and> (\<exists>vs. map fst (lsApplied (psLoop (r k))) = lsSubmitted (psLoop (r i)) @ vs)"
    if k: "max a e \<le> k" for k
  proof
    show "psMain (r k) = Exited" by (rule run_from [of _ r "\<lambda>p. psMain p = Exited" e, OF assms(3) e(2) exited_stays]) (use k in simp_all)
    obtain vs where "lsSubmitted (psLoop (r k)) = lsSubmitted (psLoop (r i)) @ vs"
      using run_submitted_prefix [OF loop(1), of i k] a(1) k by auto
    moreover have "lsSubmitted (psLoop (r k)) =
        map fst (lsApplied (psLoop (r k))) @ inFlight (lsPc (psLoop (r k))) @ lsQueue (psLoop (r k))"
      using fifo [of k] by (simp add: fifo_inv_def)
    moreover have "length (lsSubmitted (psLoop (r i))) \<le> length (map fst (lsApplied (psLoop (r k))))"
      using a(2) [of k] k by simp
    ultimately have "take (length (lsSubmitted (psLoop (r i)))) (map fst (lsApplied (psLoop (r k)))) = lsSubmitted (psLoop (r i))"
      by (metis append_eq_append_conv_if append_eq_conv_conj)
    then show "\<exists>vs. map fst (lsApplied (psLoop (r k))) = lsSubmitted (psLoop (r i)) @ vs" by (metis append_take_drop_id)
  qed
  then show ?thesis using b(1) e(1) by (intro exI [of _ "max a e"]) auto
qed

text \<open>A fair run for a concrete input: a push is taken on, a signal arrives, and the process ends.\<close>

lemma end_is_fair:
  assumes "\<forall>i \<ge> n. r i = q" "psMain q = Exited" "lsPc (psLoop q) = Finished ok"
  shows "shutdown_fair r"
proof -
  have "\<not> loop_busy (psLoop q)" "\<not> can_receive (psLoop q)" "\<not> can_drain (psLoop q)"
    using assms(3) by (simp_all add: loop_busy_def can_receive_def can_drain_def)
  then have "loop_fair (psLoop \<circ> r)" "stronglyFair can_drain drains (psLoop \<circ> r)"
    unfolding loop_fair_def using assms(1)
    by (intro conjI fair_at_rest [of n _ "psLoop q"]; simp)+
  moreover have "weaklyFair main_can main_moves r"
    by (rule fair_at_rest [of n r q]) (use assms in \<open>simp_all add: main_can_def\<close>)
  ultimately show ?thesis by (simp add: shutdown_fair_def)
qed

theorem quit_ends_process_witness:
  "\<exists>r i j. isRun (process_step sample_process_env) r \<and> r 0 = initProcess sample_store 5 None \<and> shutdown_fair r \<and>
     psMain (r i) = Serving \<and> quitRequested (r i) \<and> lsSubmitted (psLoop (r i)) = [sample_push] \<and>
     psMain (r j) = Exited \<and> sample_push \<in> fst ` set (lsApplied (psLoop (r j)))"
proof -
  let ?p0 = "initProcess sample_store 5 None"
  have z: "zeroTime \<le> 5" by (simp add: zeroTime_def)
  have "pushRequest (peHandlers sample_process_env) True True False 5 0 sample_request = Inr sample_push"
    using sample_pushRequest by (simp add: sample_process_env_def sample_push_def)
  from reach_waiting [OF this, of sample_store None]
  obtain p where p: "(process_step sample_process_env)\<^sup>*\<^sup>* ?p0 p" "psMain p = Serving"
    "psLoop p = SubmitWriteRequest sample_push (initLoop sample_store 5 None)" by blast
  define p1 where "p1 = p\<lparr>psSignalled := True\<rparr>"
  have p1: "psMain p1 = Serving" "quitRequested p1" "lsPc (psLoop p1) = AtSelect" "lsQueue (psLoop p1) = [sample_push]"
    "persistenceFile (lsStore (psLoop p1)) \<noteq> ''''" "lsSubmitted (psLoop p1) = [sample_push]"
    by (simp_all add: p1_def p SubmitWriteRequest_def initLoop_def sample_file)
  have "process_step sample_process_env p p1" unfolding p1_def by (rule process_step.signal) (simp add: p(2))
  with p(1) have path: "(process_step sample_process_env)\<^sup>*\<^sup>* ?p0 p1" by (rule rtranclp.rtrancl_into_rtrancl)
  obtain q where q: "(process_step sample_process_env)\<^sup>*\<^sup>* p1 q" "psMain q = Exited" "lsPc (psLoop q) = Finished True"
    using reach_exit [OF p1(1,3-5), of sample_process_env] by blast
  obtain r n k where r: "isRun (process_step sample_process_env) r" "r 0 = ?p0" "r k = p1" "\<forall>i \<ge> n. r i = q"
    using run_of_paths [OF path q(1)] by blast
  have fair: "shutdown_fair r" by (rule end_is_fair [OF r(4) q(2,3)])
  have "\<forall>k \<ge> n. fmdom' (psHandlers (r k)) = fmdom' (psHandlers (r n))" using r(4) by simp
  from quit_ends_process [OF z r(2,1) fair _ _ this, of k] p1(1,2) r(3)
  obtain j vs where "psMain (r j) = Exited" "map fst (lsApplied (psLoop (r j))) = sample_push # vs"
    by (auto simp: p1(6) simp del: quitRequested_def)
  then have "sample_push \<in> set (map fst (lsApplied (psLoop (r j))))" "psMain (r j) = Exited" by simp_all
  then show ?thesis using r p1 fair by (intro exI [of _ r] exI [of _ k] exI [of _ j]) simp
qed

end
