(* ===== verification/WipeProps.thy ===== *)
theory WipeProps
  imports Liveness
begin

text \<open>
  The wipe handler inside the running process: it submits its deletions one by one, among the requests of all the other
  handlers, while the store processes them.  It ends, and the groups that it met are gone once its
  deletions have been applied, unless they have been pushed to again in the meantime.
\<close>

section \<open>The store behind the wipe\<close>

lemma handleWrite_frame:
  "k \<noteq> keyOf mc wr \<Longrightarrow>
   fmlookup (metricGroups (fst (handleWrite mc gather order dms wr))) k = fmlookup (metricGroups dms) k"
  by (auto simp: handleWrite_store sanitizedUpdate_def groups_frame split: option.split)

text \<open>A group stays away when it is only deleted.\<close>

lemma runWrites_gone:
  assumes "\<forall>wr \<in> fst ` set ws. keyOf (envConsts env) wr = k \<longrightarrow> wrMetricFamilies wr = None"
    and "fmlookup (metricGroups dms) k = None \<or> (\<exists>wr \<in> fst ` set ws. keyOf (envConsts env) wr = k)"
  shows "fmlookup (metricGroups (runWrites env ws dms)) k = None"
  using assms
proof (induction ws rule: rev_induct)
  case Nil
  then show ?case by (simp add: runWrites_def)
next
  case (snoc w ws)
  obtain wr order where w: "w = (wr, order)" by (cases w)
  show ?case
  proof (cases "keyOf (envConsts env) wr = k")
    case True
    then have "wrMetricFamilies wr = None" using snoc.prems(1) w by simp
    then show ?thesis using True by (simp add: w runWrites_snoc handleWrite_delete)
  next
    case False
    then have "fmlookup (metricGroups (runWrites env ws dms)) k = None"
      using snoc by (auto simp: w)
    then show ?thesis using False by (simp add: w runWrites_snoc handleWrite_frame)
  qed
qed

lemma runWrites_wf: "store_wf (envConsts env) dms \<Longrightarrow> store_wf (envConsts env) (runWrites env ws dms)"
  by (induction ws rule: rev_induct) (auto simp: runWrites_snoc handleWrite_wf, simp add: runWrites_def)

section \<open>The deletions of a wipe\<close>

text \<open>What is left of a wipe, and that the rest of it has been submitted after position \<open>n\<close>.\<close>

definition wipe_rest :: "handler_phase \<Rightarrow> labels set option" where
  "wipe_rest ph =
     (case ph of
        Wiping ls \<Rightarrow> Some (set ls)
      | WipeSubmitting wr rest \<Rightarrow> Some (insert (wrLabels wr) (set rest))
      | Replied None r \<Rightarrow> Some {}
      | _ \<Rightarrow> None)"

definition wipe_progress :: "labels set \<Rightarrow> nat \<Rightarrow> nat \<Rightarrow> process \<Rightarrow> bool" where
  "wipe_progress ls n h p \<longleftrightarrow>
     (\<exists>ph rest. fmlookup (psHandlers p) h = Some ph \<and> wipe_rest ph = Some rest \<and>
       (\<forall>l \<in> ls - rest. \<exists>wr \<in> set (drop n (lsSubmitted (psLoop p))). wrLabels wr = l \<and> wrMetricFamilies wr = None))"

lemma wipe_rest_simps [simp]:
  "wipe_rest (Wiping ls) = Some (set ls)" "wipe_rest (WipeSubmitting wr rest) = Some (insert (wrLabels wr) (set rest))"
  "wipe_rest (Replied None r) = Some {}" "wipe_rest (Replied (Some wr) r) = None"
  "wipe_rest (Submitting wr) = None" "wipe_rest (Waiting wr) = None"
  by (simp_all add: wipe_rest_def)

text \<open>The steps of a wipe.\<close>

lemma wipe_handler_step:
  assumes "process_step env p p'" "fmlookup (psHandlers p) h = Some ph" "wipe_rest ph = Some rest"
  shows "fmlookup (psHandlers p') h = Some ph \<or> (\<exists>ls. ph = Wiping ls \<and> p' = nextWipe h ls p) \<or>
    (\<exists>wr ls. ph = WipeSubmitting wr ls \<and> p' = submitWipe h wr ls p)"
  using assms by (elim process_stepE) (auto simp: handler_ops fmdom'_iff_not_None)

lemma process_submitted_grows:
  assumes "process_step env p p'"
  shows "\<exists>vs. lsSubmitted (psLoop p') = lsSubmitted (psLoop p) @ vs"
  using assms by (cases rule: process_step.cases) (auto simp: handler_ops SubmitWriteRequest_def Shutdown_def internal_step_def)

lemma wipe_progress_step:
  assumes "process_step env p p'" "wipe_progress ls n h p" "n \<le> length (lsSubmitted (psLoop p))"
    and "process_inv env dms p"
  shows "wipe_progress ls n h p'"
proof -
  let ?new = "\<lambda>p l. \<exists>wr \<in> set (drop n (lsSubmitted (psLoop p))). wrLabels wr = l \<and> wrMetricFamilies wr = None"
  obtain ph rest where ph: "fmlookup (psHandlers p) h = Some ph" "wipe_rest ph = Some rest" "\<forall>l \<in> ls - rest. ?new p l"
    using assms(2) by (auto simp: wipe_progress_def)
  obtain vs where "lsSubmitted (psLoop p') = lsSubmitted (psLoop p) @ vs" using process_submitted_grows [OF assms(1)] by blast
  then have keep: "?new p' l" if "?new p l" for l using that assms(3) by auto
  from wipe_handler_step [OF assms(1) ph(1,2)]
  consider (stays) "fmlookup (psHandlers p') h = Some ph"
    | (turn) todo where "ph = Wiping todo" "p' = nextWipe h todo p"
    | (submits) wr todo where "ph = WipeSubmitting wr todo" "p' = submitWipe h wr todo p"
    by blast
  then show ?thesis
  proof cases
    case stays
    then show ?thesis using ph keep by (auto simp: wipe_progress_def)
  next
    case (turn todo)
    then show ?thesis using ph keep
      by (cases todo) (auto simp: wipe_progress_def nextWipe_def deleteRequest_def)
  next
    case (submits wr todo)
    then have "wrMetricFamilies wr = None" using process_invD(4) [OF assms(4) ph(1)] by simp
    then have "?new p' (wrLabels wr)"
      using submits(2) assms(3) by (auto simp: submitWipe_def SubmitWriteRequest_def)
    then show ?thesis using ph keep submits by (auto simp: wipe_progress_def submitWipe_def)
  qed
qed

section \<open>The end of a wipe\<close>

lemma wipe_turn_taken:
  assumes "serving_run env dms r" "fmlookup (psHandlers (r i)) h = Some (Wiping ls)"
  obtains j where "i \<le> j" "r (Suc j) = nextWipe h ls (r j)"
proof -
  note run = serving_runD [OF assms(1)]
  have stays: "fmlookup (psHandlers p') h = Some (Wiping ls)"
    if "fmlookup (psHandlers p) h = Some (Wiping ls)" "process_step env p p'" "\<not> takes_turn h p p'" for p p'
    using wipe_handler_step [OF that(2,1)] that(1,3) by (auto simp: takes_turn_def)
  have "\<exists>j. i \<le> j \<and> fmlookup (psHandlers (r j)) h = Some (Wiping ls) \<and> takes_turn h (r j) (r (Suc j))"
    by (rule weaklyFair_taken [OF run(1,11), of "\<lambda>p. fmlookup (psHandlers p) h = Some (Wiping ls)" i h, OF assms(2)])
      (use stays run(8) in \<open>auto simp: can_turn_def\<close>)
  then show ?thesis using that by (auto simp: takes_turn_def)
qed

lemma wipe_submit_taken:
  assumes "serving_run env dms r" "fmlookup (psHandlers (r i)) h = Some (WipeSubmitting wr ls)"
  obtains j where "i \<le> j" "r (Suc j) = submitWipe h wr ls (r j)"
proof -
  let ?Q = "\<lambda>p. fmlookup (psHandlers p) h = Some (WipeSubmitting wr ls)"
  note run = serving_runD [OF assms(1)]
  have stays: "?Q p'" if "?Q p" "process_step env p p'" "\<not> takes_wipe h p p'" for p p'
    using wipe_handler_step [OF that(2,1)] that(1,3) by (auto simp: takes_wipe_def)
  have enabled: "\<exists>j \<ge> k. can_wipe h (r j)" if k: "i \<le> k" "\<forall>j \<ge> i. ?Q (r j)" for k
  proof -
    obtain j where j: "k \<le> j" "length (lsQueue (psLoop (r j))) < writeQueueCapacity"
      using run_has_room [OF run(5,2,9), of k] run(7) by auto
    then have "can_wipe h (r j)" using k run(8) by (simp add: can_wipe_def)
    then show ?thesis using j(1) by blast
  qed
  have "\<exists>j. i \<le> j \<and> ?Q (r j) \<and> takes_wipe h (r j) (r (Suc j))"
    by (rule stronglyFair_taken [OF run(1,12), of ?Q i h, OF assms(2)]) (use stays enabled in blast)+
  then show ?thesis using that by (auto simp: takes_wipe_def)
qed

lemma wipe_ends:
  assumes "serving_run env dms r" "fmlookup (psHandlers (r i)) h = Some (Wiping ls)"
  shows "\<exists>j \<ge> i. fmlookup (psHandlers (r j)) h = Some (Replied None StatusAccepted)"
  using assms(2)
proof (induction ls arbitrary: i)
  case Nil
  obtain j where "i \<le> j" "r (Suc j) = nextWipe h [] (r j)" by (rule wipe_turn_taken [OF assms(1) Nil])
  then show ?case by (intro exI [of _ "Suc j"]) (simp add: nextWipe_def)
next
  case (Cons l ls)
  obtain j where j: "i \<le> j" "r (Suc j) = nextWipe h (l # ls) (r j)" by (rule wipe_turn_taken [OF assms(1) Cons.prems])
  then obtain wr where "fmlookup (psHandlers (r (Suc j))) h = Some (WipeSubmitting wr ls)" by (simp add: nextWipe_def)
  from wipe_submit_taken [OF assms(1) this] obtain k where k: "Suc j \<le> k" "r (Suc k) = submitWipe h wr ls (r k)" .
  then have "fmlookup (psHandlers (r (Suc k))) h = Some (Wiping ls)" by (simp add: submitWipe_def)
  from Cons.IH [OF this] show ?case using j(1) k(1) by (meson Suc_leD le_trans)
qed

text \<open>All that has been submitted is applied in the end.\<close>

lemma all_applied:
  assumes "serving_run env dms r"
  obtains j where "i \<le> j" "\<And>k. j \<le> k \<Longrightarrow> length (lsSubmitted (psLoop (r i))) \<le> length (lsApplied (psLoop (r k)))"
proof -
  note run = serving_runD [OF assms]
  have "\<not> pastDrain (lsPc ((psLoop \<circ> r) i))" using run(7) [of i] by (cases "lsPc (psLoop (r i))") simp_all
  from submissions_applied [OF run(5,2,9) this] show ?thesis using that by auto
qed

text \<open>When the wipe has ended, a deletion of every group that it met has been submitted.\<close>

lemma wipe_submitted:
  assumes "serving_run env dms r" "r (Suc i) = startWipe keys h (r i)" "Suc i \<le> j"
    and "fmlookup (psHandlers (r j)) h = Some (Replied None StatusAccepted)"
    and "key \<in> set keys" "fmlookup (metricGroups (lsStore (psLoop (r i)))) key = Some g"
  shows "\<exists>wr \<in> set (drop (length (lsSubmitted (psLoop (r i)))) (lsSubmitted (psLoop (r j)))).
    wrLabels wr = mgLabels g \<and> wrMetricFamilies wr = None"
proof -
  note run = serving_runD [OF assms(1)]
  let ?n = "length (lsSubmitted (psLoop (r i)))"
  let ?groups = "metricGroups (lsStore (psLoop (r i)))"
  let ?ls = "map wrLabels (WipeMetricStore ?groups (map (\<lambda>k. (k, lsNow (psLoop (r i)))) keys))"
  let ?P = "\<lambda>p. wipe_progress (set ?ls) ?n h p \<and> ?n \<le> length (lsSubmitted (psLoop p))"
  have "?P (r (Suc i))" by (simp add: assms(2) startWipe_def wipe_progress_def GetMetricFamiliesMap_def)
  then have "?P (r j)" using _ assms(3)
  proof (rule run_from [OF run(1)])
    fix k assume P: "?P (r k)" and step: "process_step env (r k) (r (Suc k))"
    show "?P (r (Suc k))"
      using wipe_progress_step [OF step conjunct1 [OF P] conjunct2 [OF P] run(6)] process_submitted_grows [OF step] P by auto
  qed
  moreover have "mgLabels g \<in> set ?ls"
    using assms(5,6) by (force simp: WipeMetricStore_def deleteRequest_def split: option.splits)
  ultimately show ?thesis using assms(4) by (auto simp: wipe_progress_def)
qed

section \<open>Properties\<close>

text \<open>
  C17. A wipe of the running process ends, and from some point on a group that the store had when the wipe
  began is there only if it has been pushed to again since: in every fair run before the shutdown of the store, whatever
  the other handlers submit meanwhile.
\<close>

theorem wipe_clears_groups:
  assumes "zeroTime \<le> t" "r 0 = initProcess dms t disk" "isRun (process_step env) r" "process_fair r"
    and "\<forall>k. psMain (r k) \<in> {Serving, ServerStopped}" "store_wf (envConsts (peLoop env)) dms"
    and "set keys = fmdom' (metricGroups (lsStore (psLoop (r i))))" "r (Suc i) = startWipe keys h (r i)"
  shows "\<exists>j \<ge> i. fmlookup (psHandlers (r j)) h = Some (Replied None StatusAccepted) \<and>
    (\<exists>m \<ge> j. \<forall>k \<ge> m. \<forall>key \<in> set keys. fmlookup (metricGroups (lsStore (psLoop (r k)))) key \<noteq> None \<longrightarrow>
      (\<exists>wr \<in> set (drop (length (lsSubmitted (psLoop (r i)))) (lsSubmitted (psLoop (r k)))).
         groupingKeyFor (envConsts (peLoop env)) (wrLabels wr) = key \<and> wrMetricFamilies wr \<noteq> None))"
proof -
  have serving: "serving_run env dms r" by (rule serving_runI [OF assms(1-5)])
  note run = serving_runD [OF serving]
  let ?mc = "envConsts (peLoop env)" and ?n = "length (lsSubmitted (psLoop (r i)))"
  obtain ls where "fmlookup (psHandlers (r (Suc i))) h = Some (Wiping ls)" by (simp add: assms(8) startWipe_def)
  from wipe_ends [OF serving this]
  obtain j where j: "Suc i \<le> j" "fmlookup (psHandlers (r j)) h = Some (Replied None StatusAccepted)" by blast
  obtain m where m: "j \<le> m" "\<And>k. m \<le> k \<Longrightarrow> length (lsSubmitted (psLoop (r j))) \<le> length (lsApplied (psLoop (r k)))"
    using all_applied [OF serving, of j] by blast
  have "\<exists>wr \<in> set (drop ?n (lsSubmitted (psLoop (r k)))). keyOf ?mc wr = key \<and> wrMetricFamilies wr \<noteq> None"
    if k: "m \<le> k" "key \<in> set keys" "fmlookup (metricGroups (lsStore (psLoop (r k)))) key \<noteq> None" for k key
  proof (rule ccontr)
    assume none: "\<not> ?thesis"
    let ?ws = "lsApplied (psLoop (r k))"
    have inv: "lsSubmitted (psLoop (r k)) = map fst ?ws @ inFlight (lsPc (psLoop (r k))) @ lsQueue (psLoop (r k))"
      "lsStore (psLoop (r k)) = runWrites (peLoop env) ?ws dms"
      using run(9) [of k] by (simp_all add: fifo_inv_def)
    obtain g where g: "fmlookup (metricGroups (lsStore (psLoop (r i)))) key = Some g"
      using k(2) assms(7) by (auto simp: fmdom'_iff_Some)
    have "store_wf ?mc (lsStore (psLoop (r i)))"
      using run(9) [of i] runWrites_wf [OF assms(6)] by (simp add: fifo_inv_def)
    then have key: "groupingKeyFor ?mc (mgLabels g) = key" using store_wf_filed g by blast
    obtain vs where vs: "lsSubmitted (psLoop (r k)) = lsSubmitted (psLoop (r j)) @ vs"
      using run_submitted_prefix [OF run(5), of j k] m(1) k(1) by auto
    obtain wr where wr: "wr \<in> set (drop ?n (lsSubmitted (psLoop (r j))))" "wrLabels wr = mgLabels g"
      using wipe_submitted [OF serving assms(8) j k(2) g] by blast
    have sub: "map fst (drop ?n ?ws) = drop ?n (take (length ?ws) (lsSubmitted (psLoop (r k))))"
      by (simp add: inv(1) drop_map)
    have "fmlookup (metricGroups (runWrites (peLoop env) (drop ?n ?ws) (runWrites (peLoop env) (take ?n ?ws) dms))) key = None"
    proof (rule runWrites_gone)
      have "set (map fst (drop ?n ?ws)) \<subseteq> set (drop ?n (lsSubmitted (psLoop (r k))))"
        unfolding sub drop_take by (rule set_take_subset)
      then show "\<forall>wr \<in> fst ` set (drop ?n ?ws). keyOf ?mc wr = key \<longrightarrow> wrMetricFamilies wr = None"
        using none by auto
      have "set (drop ?n (lsSubmitted (psLoop (r j)))) \<subseteq> set (map fst (drop ?n ?ws))"
        using m(2) [OF k(1)] unfolding sub vs by auto
      then have "wr \<in> fst ` set (drop ?n ?ws)" using wr(1) by auto
      then show "fmlookup (metricGroups (runWrites (peLoop env) (take ?n ?ws) dms)) key = None \<or>
          (\<exists>wr \<in> fst ` set (drop ?n ?ws). keyOf ?mc wr = key)"
        using wr(2) key by (intro disjI2 bexI [of _ wr]) (simp_all add: keyOf_def)
    qed
    then show False using k(3) by (simp add: inv(2) runWrites_append [symmetric])
  qed
  then show ?thesis using j m(1) by (intro exI [of _ j]) (auto simp: keyOf_def)
qed

text \<open>A fair run for a concrete input: a wipe of a store with one group, and then nothing happens any more.\<close>

lemma wipe_path:
  assumes "fmlookup (psHandlers p) h = Some (Wiping ls)" "psMain p \<noteq> Exited" "\<not> draining (lsPc (psLoop p))"
  shows "\<exists>q. (process_step env)\<^sup>*\<^sup>* p q \<and> psMain q = psMain p \<and>
    psHandlers q = fmupd h (Replied None StatusAccepted) (psHandlers p) \<and> lsPc (psLoop q) = AtSelect \<and> lsQueue (psLoop q) = []"
  using assms
proof (induction ls arbitrary: p)
  case Nil
  obtain l where l: "(internal_step (peLoop env))\<^sup>*\<^sup>* (psLoop p) l" "lsPc l = AtSelect" "lsQueue l = []"
    using reach_idle [OF Nil(3), of "peLoop env"] by blast
  let ?p = "p\<lparr>psLoop := l\<rparr>"
  have "(process_step env)\<^sup>*\<^sup>* p ?p" by (rule internal_run [OF l(1) Nil(2)])
  moreover have "process_step env ?p (nextWipe h [] ?p)" by (rule process_step.wipe_turn) (simp_all add: Nil)
  ultimately have "(process_step env)\<^sup>*\<^sup>* p (nextWipe h [] ?p)" by (rule rtranclp.rtrancl_into_rtrancl)
  then show ?case using l by (intro exI [of _ "nextWipe h [] ?p"]) (simp add: nextWipe_def)
next
  case (Cons x ls)
  obtain l where l: "(internal_step (peLoop env))\<^sup>*\<^sup>* (psLoop p) l" "lsPc l = AtSelect" "lsQueue l = []"
    using reach_idle [OF Cons.prems(3), of "peLoop env"] by blast
  let ?p = "p\<lparr>psLoop := l\<rparr>" and ?wr = "deleteRequest x (lsNow l)"
  let ?p1 = "nextWipe h (x # ls) ?p"
  let ?p2 = "submitWipe h ?wr ls ?p1"
  have "(process_step env)\<^sup>*\<^sup>* p ?p" by (rule internal_run [OF l(1) Cons.prems(2)])
  moreover have "process_step env ?p ?p1" by (rule process_step.wipe_turn) (simp_all add: Cons.prems)
  moreover have "process_step env ?p1 ?p2"
    by (rule process_step.wipe_submit) (simp_all add: Cons.prems nextWipe_def l writeQueueCapacity_def)
  ultimately have run: "(process_step env)\<^sup>*\<^sup>* p ?p2" by (meson rtranclp.rtrancl_into_rtrancl)
  have "fmlookup (psHandlers ?p2) h = Some (Wiping ls)" "psMain ?p2 \<noteq> Exited" "\<not> draining (lsPc (psLoop ?p2))"
    using Cons.prems l by (simp_all add: submitWipe_def nextWipe_def SubmitWriteRequest_def)
  from Cons.IH [OF this] obtain q where q: "(process_step env)\<^sup>*\<^sup>* ?p2 q" "psMain q = psMain ?p2"
    "psHandlers q = fmupd h (Replied None StatusAccepted) (psHandlers ?p2)" "lsPc (psLoop q) = AtSelect" "lsQueue (psLoop q) = []"
    by blast
  have "psHandlers q = fmupd h (Replied None StatusAccepted) (psHandlers p)"
    unfolding q(3) by (rule fmap_ext) (simp add: submitWipe_def nextWipe_def)
  then show ?case using rtranclp_trans [OF run q(1)] q by (intro exI [of _ q]) (simp add: submitWipe_def nextWipe_def)
qed

definition wiped_store :: DiskMetricStore where
  "wiped_store = fst (processWriteRequest prom_consts empty_store (push_of ''j'' 5 fmempty True))"

theorem wipe_clears_groups_witness:
  "\<exists>r m. isRun (process_step sample_process_env) r \<and> r 0 = initProcess wiped_store 5 None \<and> process_fair r \<and>
     r 1 = startWipe [groupingKeyFor prom_consts (job_labels ''j'')] 0 (r 0) \<and>
     (\<forall>k \<ge> m. fmlookup (metricGroups (lsStore (psLoop (r k)))) (groupingKeyFor prom_consts (job_labels ''j'')) \<noteq> None \<longrightarrow>
        (\<exists>wr \<in> set (lsSubmitted (psLoop (r k))). wrMetricFamilies wr \<noteq> None))"
proof -
  let ?key = "groupingKeyFor prom_consts (job_labels ''j'')"
  let ?p0 = "initProcess wiped_store 5 None"
  let ?p1 = "startWipe [?key] 0 ?p0"
  have z: "zeroTime \<le> 5" by (simp add: zeroTime_def)
  have init: "psMain ?p0 = Serving" "psHandlers ?p0 = fmempty" "lsStore (psLoop ?p0) = wiped_store" "lsPc (psLoop ?p0) = AtSelect"
    by (simp_all add: initProcess_def initLoop_def)
  have dom: "set [?key] = fmdom' (metricGroups (lsStore (psLoop ?p0)))"
    unfolding init(3) by (simp add: wiped_store_def store_simps keyOf_def empty_store_def)
  have step: "process_step sample_process_env ?p0 ?p1"
    by (rule process_step.wipe_arrives) (use dom in \<open>simp_all add: init\<close>)
  obtain ls where "fmlookup (psHandlers ?p1) 0 = Some (Wiping ls)" by (simp add: startWipe_def)
  moreover have "psMain ?p1 \<noteq> Exited" "\<not> draining (lsPc (psLoop ?p1))" by (simp_all add: startWipe_def init)
  ultimately obtain q where q: "(process_step sample_process_env)\<^sup>*\<^sup>* ?p1 q" "psMain q = psMain ?p1"
    "psHandlers q = fmupd 0 (Replied None StatusAccepted) (psHandlers ?p1)" "lsPc (psLoop q) = AtSelect" "lsQueue (psLoop q) = []"
    using wipe_path [of ?p1 0 ls sample_process_env] by blast
  obtain r' n where r': "isRun (process_step sample_process_env) r'" "r' 0 = ?p1" "\<forall>i \<ge> n. r' i = q"
    using run_of_path [OF q(1)] by blast
  define r where "r i = (case i of 0 \<Rightarrow> ?p0 | Suc k \<Rightarrow> r' k)" for i
  have r: "r 0 = ?p0" "r (Suc 0) = ?p1" "\<forall>i \<ge> Suc n. r i = q"
    using r'(2,3) by (auto simp: r_def split: nat.split)
  have run: "isRun (process_step sample_process_env) r"
    using r'(1) step unfolding isRun_def r_def by (auto simp: r'(2) split: nat.split)
  have fair: "process_fair r"
  proof (rule rest_is_fair [OF r(3) q(4,5)])
    fix h ph assume "fmlookup (psHandlers q) h = Some ph"
    then show "\<exists>wr rep. ph = Replied wr rep" by (auto simp: q(3) startWipe_def init split: if_splits)
  qed
  have "psMain (r i) = Serving" for i
    by (rule serving_before [OF run, of "max i (Suc n)"]) (use r(3) q(2) in \<open>simp_all add: startWipe_def init\<close>)
  then have serving: "\<forall>k. psMain (r k) \<in> {Serving, ServerStopped}" by simp
  have wf: "store_wf (envConsts (peLoop sample_process_env)) wiped_store"
    unfolding wiped_store_def by (simp add: sample_process_env_def sample_env_def process_wf [OF store_wf_empty])
  have dom': "set [?key] = fmdom' (metricGroups (lsStore (psLoop (r 0))))" using dom r(1) by simp
  have start: "r (Suc 0) = startWipe [?key] 0 (r 0)" by (simp only: r(1,2))
  have "lsSubmitted (psLoop (r 0)) = []" by (simp add: r(1) initProcess_def initLoop_def)
  then have "\<exists>m. \<forall>k \<ge> m. fmlookup (metricGroups (lsStore (psLoop (r k)))) ?key \<noteq> None \<longrightarrow>
      (\<exists>wr \<in> set (lsSubmitted (psLoop (r k))). wrMetricFamilies wr \<noteq> None)"
    using wipe_clears_groups [OF z r(1) run fair serving wf dom' start] by fastforce
  then show ?thesis using run r(1) fair start by (intro exI [of _ r]) simp
qed

end
