(* ===== verification/ReadProps.thy ===== *)
theory ReadProps
  imports WipeProps
begin

text \<open>
  What the readers of a running process see of the pushes that it has answered.  A scrape, a request to the
  API and the status page each read the store in one critical section, so that what they see is the
  store at one moment between the steps of the loop.
\<close>

section \<open>A push that was answered with 200\<close>

lemma runWrites_frame:
  "\<forall>wr \<in> fst ` set ws. keyOf (envConsts env) wr \<noteq> k \<Longrightarrow>
   fmlookup (metricGroups (runWrites env ws dms)) k = fmlookup (metricGroups dms) k"
proof (induction ws rule: rev_induct)
  case (snoc w ws)
  then show ?case by (cases w) (auto simp: runWrites_snoc handleWrite_frame [OF not_sym])
qed (simp add: runWrites_Nil)

lemma accepted_is_stored:
  assumes "wrMetricFamilies wr = Some families" "wrDone wr \<noteq> None" "snd (handleWrite mc gather order dms wr) = None"
    and "fmlookup families name = Some mf" "\<not> isPushMetric name"
  shows "stored (fst (handleWrite mc gather order dms wr)) (keyOf mc wr) name =
    Some (stamp (wrTimestamp wr) (sanitizeLabels mc mf (wrLabels wr)))"
proof -
  have "accepted mc gather order dms wr" using assms(2,3) by (simp add: handleWrite_error)
  then have "fst (handleWrite mc gather order dms wr) = sanitizedUpdate mc dms wr families"
    using assms(1) by (simp add: handleWrite_store)
  then show ?thesis
    using assms(4,5) stored_update [of "sanitizeRequest mc wr families" _ mc dms name]
    by (auto simp: sanitizedUpdate_def sanitizeRequest_def keyOf_def updatedGroup_lookup augmented_lookup)
qed

text \<open>What is stored is part of what a scrape returns, in whatever order it meets the groups.\<close>

lemma entry_in_named: "(n, Some mf) \<in> set es \<Longrightarrow> mf \<in> set (familiesNamed n es)"
  by (induction n es rule: familiesNamed.induct) auto

lemma stored_is_scraped:
  assumes "range_order_of (metricGroups dms) order" "stored dms key name = Some (stamp t mf)"
  shows "\<exists>f \<in> set (GetMetricFamilies predefined (metricGroups dms) order). set (mfMetric mf) \<subseteq> set (mfMetric f)"
proof -
  let ?es = "ranged (metricGroups dms) order"
  obtain g where g: "fmlookup (metricGroups dms) key = Some g" "fmlookup (mgMetrics g) name = Some (stamp t mf)"
    using assms(2) by (auto simp: stored_def split: option.splits)
  then have "(key, name) \<in> allKeys (metricGroups dms)" by (auto simp: allKeys_def fmdom'_iff_Some)
  then have "entryAt (metricGroups dms) (key, name) \<in> set ?es"
    using valid_order_visited(2) [OF assms(1)] by (simp add: ranged_visited)
  then have entry: "(name, Some mf) \<in> set ?es" using g by (simp add: entryAt_def familyOf_def stamp_def)
  then have "name \<in> set (presentNames ?es)" by (force simp: presentNames_def)
  moreover have "set (mfMetric mf) \<subseteq> set (mfMetric (mergedFamily predefined ?es name))"
    using entry_in_named [OF entry] by (auto simp: mergedFamily_def)
  ultimately show ?thesis by (auto simp: GetMetricFamilies_merged mergedFamilies_def)
qed

lemma answered_ok_is_stored:
  assumes "zeroTime \<le> t" "(process_step env)\<^sup>*\<^sup>* (initProcess dms t disk) p"
    and "fmlookup (psHandlers p) h = Some (Replied (Some wr) rep)" "statusCode rep = 200" "wrDone wr \<noteq> None"
  obtains k where "k < length (lsApplied (psLoop p))" "fst (lsApplied (psLoop p) ! k) = wr"
    "\<And>families name mf. wrMetricFamilies wr = Some families \<Longrightarrow> fmlookup families name = Some mf \<Longrightarrow> \<not> isPushMetric name \<Longrightarrow>
       \<forall>later \<in> set (drop (Suc k) (lsApplied (psLoop p))). keyOf (envConsts (peLoop env)) (fst later) \<noteq> keyOf (envConsts (peLoop env)) wr \<Longrightarrow>
       stored (lsStore (psLoop p)) (keyOf (envConsts (peLoop env)) wr) name =
         Some (stamp (wrTimestamp wr) (sanitizeLabels (envConsts (peLoop env)) mf (wrLabels wr)))"
proof -
  let ?ws = "lsApplied (psLoop p)" and ?mc = "envConsts (peLoop env)"
  note inv = reachable_process_inv [OF assms(1,2)]
  have "answered (peLoop env) dms ?ws wr rep" using process_invD(4) [OF inv assms(3)] assms(5) by simp
  then obtain k where k: "k < length ?ws" "fst (?ws ! k) = wr"
      "rep = pushReply True (case outcome (peLoop env) dms ?ws k of None \<Rightarrow> [] | Some e \<Rightarrow> [e])"
    unfolding answered_def by blast
  let ?d = "runWrites (peLoop env) (take k ?ws) dms" and ?order = "snd (?ws ! k)"
  have ok: "snd (handleWrite ?mc (envGather (peLoop env)) ?order ?d wr) = None"
    using assms(4) k by (simp add: outcome_def pushReply_def split: option.splits)
  have ws: "?ws = take k ?ws @ (wr, ?order) # drop (Suc k) ?ws"
    using id_take_nth_drop [OF k(1)] k(2) by (metis prod.collapse)
  have store: "lsStore (psLoop p) = runWrites (peLoop env) (drop (Suc k) ?ws)
      (fst (handleWrite ?mc (envGather (peLoop env)) ?order ?d wr))"
  proof -
    have "lsStore (psLoop p) = runWrites (peLoop env) ?ws dms"
      using process_invD(1) [OF inv] by (simp add: answer_inv_def fifo_inv_def)
    also have "\<dots> = runWrites (peLoop env) (take k ?ws @ (wr, ?order) # drop (Suc k) ?ws) dms" using ws by simp
    finally show ?thesis by (simp add: runWrites_def)
  qed
  show ?thesis
  proof (rule that [OF k(1,2)])
    fix families name mf
    assume a: "wrMetricFamilies wr = Some families" "fmlookup families name = Some mf" "\<not> isPushMetric name"
      and later: "\<forall>later \<in> set (drop (Suc k) ?ws). keyOf ?mc (fst later) \<noteq> keyOf ?mc wr"
    have "fmlookup (metricGroups (lsStore (psLoop p))) (keyOf ?mc wr) =
        fmlookup (metricGroups (fst (handleWrite ?mc (envGather (peLoop env)) ?order ?d wr))) (keyOf ?mc wr)"
      unfolding store by (rule runWrites_frame) (use later in auto)
    then show "stored (lsStore (psLoop p)) (keyOf ?mc wr) name =
        Some (stamp (wrTimestamp wr) (sanitizeLabels ?mc mf (wrLabels wr)))"
      using accepted_is_stored [OF a(1) assms(5) ok a(2,3)] by (simp add: stored_def)
  qed
qed

section \<open>Properties\<close>

text \<open>
  C6. Readers see what was pushed: in every state of a process that is reached after a checked push was answered with 200, unless
  another request for the same group has been applied since, the copy of the groups that the API and the status page
  take holds every pushed family as sanitised, under the group of the push, and every scrape returns
  all its metrics.  Families with one of the two reserved names \<open>push_time_seconds\<close> and
  \<open>push_failure_time_seconds\<close> are excepted: the store overrides them.
\<close>

theorem answered_push_is_read:
  assumes "zeroTime \<le> t" "(process_step env)\<^sup>*\<^sup>* (initProcess dms t disk) p"
    and "fmlookup (psHandlers p) h = Some (Replied (Some wr) rep)" "statusCode rep = 200" "wrDone wr \<noteq> None"
    and "wrMetricFamilies wr = Some families" "fmlookup families name = Some mf" "\<not> isPushMetric name"
    and "range_order_of (metricGroups (lsStore (psLoop p))) order"
  shows "\<exists>k < length (lsApplied (psLoop p)). fst (lsApplied (psLoop p) ! k) = wr \<and>
    ((\<exists>later \<in> set (drop (Suc k) (lsApplied (psLoop p))).
        groupingKeyFor (envConsts (peLoop env)) (wrLabels (fst later)) = groupingKeyFor (envConsts (peLoop env)) (wrLabels wr)) \<or>
     (\<exists>g. fmlookup (GetMetricFamiliesMap (lsStore (psLoop p))) (groupingKeyFor (envConsts (peLoop env)) (wrLabels wr)) = Some g \<and>
        fmlookup (mgMetrics g) name = Some (stamp (wrTimestamp wr) (sanitizeLabels (envConsts (peLoop env)) mf (wrLabels wr)))) \<and>
     (\<exists>f \<in> set (GetMetricFamilies (predefinedHelp (lsStore (psLoop p))) (metricGroups (lsStore (psLoop p))) order).
        set (mfMetric (sanitizeLabels (envConsts (peLoop env)) mf (wrLabels wr))) \<subseteq> set (mfMetric f)))"
proof -
  let ?mc = "envConsts (peLoop env)" and ?store = "lsStore (psLoop p)"
  obtain k where k: "k < length (lsApplied (psLoop p))" "fst (lsApplied (psLoop p) ! k) = wr"
    and stored: "\<forall>later \<in> set (drop (Suc k) (lsApplied (psLoop p))). keyOf ?mc (fst later) \<noteq> keyOf ?mc wr \<Longrightarrow>
      stored ?store (keyOf ?mc wr) name = Some (stamp (wrTimestamp wr) (sanitizeLabels ?mc mf (wrLabels wr)))"
    using answered_ok_is_stored [OF assms(1-5)] assms(6-8) by metis
  show ?thesis
  proof (cases "\<exists>later \<in> set (drop (Suc k) (lsApplied (psLoop p))). keyOf ?mc (fst later) = keyOf ?mc wr")
    case False
    then have s: "stored ?store (keyOf ?mc wr) name = Some (stamp (wrTimestamp wr) (sanitizeLabels ?mc mf (wrLabels wr)))"
      using stored by blast
    then have "\<exists>g. fmlookup (GetMetricFamiliesMap ?store) (groupingKeyFor ?mc (wrLabels wr)) = Some g \<and>
        fmlookup (mgMetrics g) name = Some (stamp (wrTimestamp wr) (sanitizeLabels ?mc mf (wrLabels wr)))"
      by (auto simp: stored_def keyOf_def GetMetricFamiliesMap_def split: option.splits)
    then show ?thesis using k stored_is_scraped [OF assms(9) s] by blast
  qed (use k in \<open>auto simp: keyOf_def\<close>)
qed

text \<open>A concrete input: a push of one gauge, its answer, and a scrape.\<close>

definition gauge_env :: proc_env where
  "gauge_env = \<lparr>peLoop = sample_env,
     peHandlers = sample_handlers\<lparr>TextToMetricFamilies := (\<lambda>b. Inr (fmupd ''m'' (gaugeFamily ''m'') fmempty))\<rparr>\<rparr>"

definition gauge_push :: WriteRequest where
  "gauge_push = push_of ''j'' 5 (fmupd ''m'' (gaugeFamily ''m'') fmempty) True"

lemma gauge_push_sel [simp]:
  "wrDone gauge_push = Some 0" "wrMetricFamilies gauge_push = Some (fmupd ''m'' (gaugeFamily ''m'') fmempty)"
  "wrTimestamp gauge_push = 5" "wrLabels gauge_push = job_labels ''j''"
  by (simp_all add: gauge_push_def push_of_def)

lemma gauge_pushRequest: "pushRequest (peHandlers gauge_env) True True False 5 0 sample_request = Inr gauge_push"
  by (simp add: pushRequest_def targetLabels_def gauge_env_def sample_handlers_def sample_request_def splitLabels_def
      parseBody_def isDelimitedProto_def gauge_push_def push_of_def job_labels_def)

lemma gauge_accepted: "snd (handleWrite prom_consts (\<lambda>mfs. None) order dms gauge_push) = None"
proof -
  have "\<not> timestampsPresent (fmupd ''m'' (gaugeFamily ''m'') fmempty)"
    by (auto simp: timestampsPresent_iff gaugeFamily_def sampleMetric_def split: if_splits)
  then show ?thesis by (simp add: handleWrite_error accepted_iff gatherStore_def)
qed

lemma gauge_answered:
  "\<exists>p rep. (process_step gauge_env)\<^sup>*\<^sup>* (initProcess sample_store 5 None) p \<and>
     fmlookup (psHandlers p) 0 = Some (Replied (Some gauge_push) rep) \<and> statusCode rep = 200 \<and> length (lsApplied (psLoop p)) = 1"
proof -
  let ?p0 = "initProcess sample_store 5 None"
  have z: "zeroTime \<le> 5" by (simp add: zeroTime_def)
  have env: "envConsts (peLoop gauge_env) = prom_consts" "envGather (peLoop gauge_env) = (\<lambda>mfs. None)"
    by (simp_all add: gauge_env_def sample_env_def)
  from reach_waiting [OF gauge_pushRequest, of sample_store None]
  obtain p where p: "(process_step gauge_env)\<^sup>*\<^sup>* ?p0 p" "psMain p = Serving" "fmlookup (psHandlers p) 0 = Some (Waiting gauge_push)"
    "psLoop p = SubmitWriteRequest gauge_push (initLoop sample_store 5 None)" by blast
  have "\<not> draining (lsPc (psLoop p))" "psMain p \<noteq> Exited" "lsSubmitted (psLoop p) = [gauge_push]"
    by (simp_all add: p(2,4) SubmitWriteRequest_def initLoop_def)
  with reach_answer [OF reachable_process_inv [OF z p(1)] p(3)]
  obtain q rep where q: "(process_step gauge_env)\<^sup>*\<^sup>* p q" "psHandlers q = fmupd 0 (Replied (Some gauge_push) rep) (psHandlers p)"
    "lsPc (psLoop q) = AtSelect" "lsQueue (psLoop q) = []" "lsSubmitted (psLoop q) = [gauge_push]" by auto
  have run: "(process_step gauge_env)\<^sup>*\<^sup>* ?p0 q" using p(1) q(1) by (rule rtranclp_trans)
  note inv = reachable_process_inv [OF z run]
  have rep: "fmlookup (psHandlers q) 0 = Some (Replied (Some gauge_push) rep)" by (simp add: q(2))
  have "map fst (lsApplied (psLoop q)) = [gauge_push]"
    using process_invD(1) [OF inv] q(3-5) by (simp add: answer_inv_def fifo_inv_def)
  then have "length (map fst (lsApplied (psLoop q))) = 1" by simp
  moreover have "answered (peLoop gauge_env) sample_store (lsApplied (psLoop q)) gauge_push rep"
    using process_invD(4) [OF inv rep] by simp
  then have "statusCode rep = 200"
    by (auto simp: answered_def outcome_def env gauge_accepted pushReply_def)
  ultimately show ?thesis using run rep by (metis length_map)
qed

theorem answered_push_is_read_witness:
  "\<exists>p rep. (process_step gauge_env)\<^sup>*\<^sup>* (initProcess sample_store 5 None) p \<and>
     fmlookup (psHandlers p) 0 = Some (Replied (Some gauge_push) rep) \<and> statusCode rep = 200 \<and>
     (\<exists>f \<in> set (GetMetricFamilies (predefinedHelp (lsStore (psLoop p))) (metricGroups (lsStore (psLoop p)))
          (sortedOrder (metricGroups (lsStore (psLoop p))))).
        set (mfMetric (sanitizeLabels prom_consts (gaugeFamily ''m'') (job_labels ''j''))) \<subseteq> set (mfMetric f))"
proof -
  obtain p rep where p: "(process_step gauge_env)\<^sup>*\<^sup>* (initProcess sample_store 5 None) p"
    "fmlookup (psHandlers p) 0 = Some (Replied (Some gauge_push) rep)" "statusCode rep = 200" "length (lsApplied (psLoop p)) = 1"
    using gauge_answered by blast
  have z: "zeroTime \<le> 5" by (simp add: zeroTime_def)
  have env: "envConsts (peLoop gauge_env) = prom_consts" by (simp add: gauge_env_def sample_env_def)
  have m: "\<not> isPushMetric ''m''" by (simp add: pushMetricName_def pushFailedMetricName_def)
  from answered_push_is_read [OF z p(1-3) _ _ _ m sortedOrder_valid, of "fmupd ''m'' (gaugeFamily ''m'') fmempty" "gaugeFamily ''m''"]
  show ?thesis using p by (auto simp: env)
qed

end
