(* ===== verification/Restart.thy ===== *)
theory Restart
  imports ProcessProps "HOL-Library.Sublist"
begin

text \<open>
  One life of the process after the other.  A life ends anywhere, by an exit or by a crash; the next one begins
  with the store that \<open>NewDiskMetricStore\<close> makes of the file.  The write loop sees the file as the groups
  it holds; \<open>holdsGroups\<close> says when a file system holds them, and \<open>persist\<close> on the file system
  refines what the loop does.
\<close>

section \<open>The file behind the loop\<close>

definition holdsGroups ::
  "(string \<Rightarrow> GroupingKeyToMetricGroup \<times> string option) \<Rightarrow> string \<Rightarrow> GroupingKeyToMetricGroup option \<Rightarrow> files \<Rightarrow> bool" where
  "holdsGroups decode path disk files \<longleftrightarrow>
     (case disk of
        None \<Rightarrow> fmlookup files path = None
      | Some groups \<Rightarrow> (\<exists>bytes. fmlookup files path = Some bytes \<and> decode bytes = (groups, None)))"

lemma holdsGroups_cong: "fmlookup f path = fmlookup f' path \<Longrightarrow> holdsGroups decode path disk f = holdsGroups decode path disk f'"
  by (simp add: holdsGroups_def split: option.split)

text \<open>In every intermediate state the file holds the old groups or the new ones, and so it does after a crash.\<close>

lemma persist_refines_disk:
  assumes "holdsGroups decode (persistenceFile dms) disk files"
    and "decode (encode (metricGroups dms)) = (metricGroups dms, None)"
    and "persistenceFile dms \<noteq> ''''" "\<And>tmp. ioCreateTemp io = Inr tmp \<Longrightarrow> tmp \<noteq> persistenceFile dms"
    and "persist encode io dms files = (states, err)"
  shows "f \<in> set states \<Longrightarrow> holdsGroups decode (persistenceFile dms) disk f \<or>
      holdsGroups decode (persistenceFile dms) (Some (metricGroups dms)) f"
    and "holdsGroups decode (persistenceFile dms) (if err = None then Some (metricGroups dms) else disk) (last (files # states))"
proof -
  note states = persist_states [OF assms(3-5)]
  have old: "holdsGroups decode (persistenceFile dms) disk f"
    if "fmlookup f (persistenceFile dms) = fmlookup files (persistenceFile dms)" for f
    using assms(1) holdsGroups_cong [OF that] by simp
  have new: "holdsGroups decode (persistenceFile dms) (Some (metricGroups dms)) f"
    if "fmlookup f (persistenceFile dms) = Some (encode (metricGroups dms))" for f
    using that assms(2) by (simp add: holdsGroups_def)
  show "f \<in> set states \<Longrightarrow> holdsGroups decode (persistenceFile dms) disk f \<or>
      holdsGroups decode (persistenceFile dms) (Some (metricGroups dms)) f"
    using states(1) old new by blast
  show "holdsGroups decode (persistenceFile dms) (if err = None then Some (metricGroups dms) else disk) (last (files # states))"
    using states(2) old new by (cases err) (simp_all del: last.simps)
qed

section \<open>The new store\<close>

definition diskGroups :: "GroupingKeyToMetricGroup option \<Rightarrow> GroupingKeyToMetricGroup" where
  "diskGroups disk = (case disk of None \<Rightarrow> fmempty | Some groups \<Rightarrow> groups)"

definition helpFrom :: "(string + MetricFamily list) option \<Rightarrow> (string, string) fmap" where
  "helpFrom gathered = (case extractPredefinedHelpStrings gathered of Inl err \<Rightarrow> fmempty | Inr h \<Rightarrow> h)"

lemma NewDiskMetricStore_holds:
  assumes "holdsGroups decode path disk files" "path \<noteq> ''''"
  shows "fst (NewDiskMetricStore decode None gathered path files) =
    \<lparr>metricGroups = diskGroups disk, persistenceFile = path, predefinedHelp = helpFrom gathered\<rparr>"
  using assms
  by (auto simp: NewDiskMetricStore_def restore_def holdsGroups_def diskGroups_def helpFrom_def Let_def
      split: option.splits sum.split)

section \<open>Lives\<close>

text \<open>
  The lives of the process, each given by the requests that were applied in it.  The first begins with no
  file, the others with what the file holds when the one before ended.
\<close>

inductive lives ::
  "proc_env \<Rightarrow> (string \<Rightarrow> GroupingKeyToMetricGroup \<times> string option) \<Rightarrow> (string + MetricFamily list) option \<Rightarrow> string \<Rightarrow>
   (WriteRequest \<times> order_choice) list list \<Rightarrow> DiskMetricStore \<Rightarrow> GroupingKeyToMetricGroup option \<Rightarrow> bool"
  for env decode gathered path where
  first_life: "fmlookup files path = None \<Longrightarrow>
    lives env decode gathered path [] (fst (NewDiskMetricStore decode None gathered path files)) None"
| next_life: "lives env decode gathered path wss dms disk \<Longrightarrow> zeroTime \<le> t \<Longrightarrow>
    (process_step env)\<^sup>*\<^sup>* (initProcess dms t disk) p \<Longrightarrow>
    holdsGroups decode path (lsDisk (psLoop p)) files \<Longrightarrow>
    lives env decode gathered path (wss @ [lsApplied (psLoop p)])
      (fst (NewDiskMetricStore decode None gathered path files)) (lsDisk (psLoop p))"

lemma runWrites_help: "predefinedHelp (runWrites env ws dms) = predefinedHelp dms"
proof (induction ws rule: rev_induct)
  case (snoc w ws)
  then show ?case by (cases w) (simp add: runWrites_snoc handleWrite_def split: prod.split)
qed (simp add: runWrites_Nil)

text \<open>What the file holds at the end of a life, as a prefix of the requests applied in it.\<close>

lemma disk_of_life:
  assumes "zeroTime \<le> t" "(process_step env)\<^sup>*\<^sup>* (initProcess dms t disk) p" "diskGroups disk = metricGroups dms"
  shows "\<exists>k \<le> length (lsApplied (psLoop p)).
    diskGroups (lsDisk (psLoop p)) = metricGroups (runWrites (peLoop env) (take k (lsApplied (psLoop p))) dms)"
proof -
  consider "lsDisk (psLoop p) = disk"
    | k where "k \<le> length (lsApplied (psLoop p))"
        "lsDisk (psLoop p) = Some (metricGroups (runWrites (peLoop env) (take k (lsApplied (psLoop p))) dms))"
    using disk_is_a_past_store [OF assms(1) process_refines_loop [OF assms(1,2)]] by blast
  then show ?thesis
  proof cases
    case 1
    then show ?thesis using assms(3) by (intro exI [of _ 0]) (simp add: runWrites_Nil)
  next
    case 2
    then show ?thesis by (intro exI [of _ k]) (simp add: diskGroups_def)
  qed
qed

definition emptyStore :: "(string + MetricFamily list) option \<Rightarrow> string \<Rightarrow> DiskMetricStore" where
  "emptyStore gathered path = \<lparr>metricGroups = fmempty, persistenceFile = path, predefinedHelp = helpFrom gathered\<rparr>"

lemma lives_prefixes:
  assumes "lives env decode gathered path wss dms disk" "path \<noteq> ''''"
  shows "diskGroups disk = metricGroups dms \<and>
    (\<exists>kept. list_all2 prefix kept wss \<and> dms = runWrites (peLoop env) (concat kept) (emptyStore gathered path))"
  using assms(1)
proof (induction rule: lives.induct)
  case (first_life files)
  have "holdsGroups decode path None files" using first_life by (simp add: holdsGroups_def)
  from NewDiskMetricStore_holds [OF this assms(2)] show ?case
    by (simp add: diskGroups_def emptyStore_def runWrites_Nil)
next
  case (next_life wss dms disk t p files)
  let ?new = "fst (NewDiskMetricStore decode None gathered path files)"
  let ?ws = "lsApplied (psLoop p)"
  have new: "?new = \<lparr>metricGroups = diskGroups (lsDisk (psLoop p)), persistenceFile = path, predefinedHelp = helpFrom gathered\<rparr>"
    by (rule NewDiskMetricStore_holds [OF next_life(4) assms(2)])
  obtain kept where kept: "list_all2 prefix kept wss" "dms = runWrites (peLoop env) (concat kept) (emptyStore gathered path)"
    using next_life.IH by blast
  obtain k where k: "diskGroups (lsDisk (psLoop p)) = metricGroups (runWrites (peLoop env) (take k ?ws) dms)"
    using disk_of_life [OF next_life(2,3)] next_life.IH by blast
  let ?r = "runWrites (peLoop env) (concat (kept @ [take k ?ws])) (emptyStore gathered path)"
  have r: "?r = runWrites (peLoop env) (take k ?ws) dms" by (simp add: runWrites_append kept(2))
  have "metricGroups ?new = metricGroups ?r" by (simp only: new k r) simp
  moreover have "persistenceFile ?new = persistenceFile ?r" "predefinedHelp ?new = predefinedHelp ?r"
    by (simp_all add: new runWrites_help) (simp_all add: emptyStore_def)
  ultimately have "?new = ?r" by (intro store_eqI)
  moreover have "list_all2 prefix (kept @ [take k ?ws]) (wss @ [?ws])"
    using kept(1) by (intro list_all2_appendI) (simp_all add: take_is_prefix)
  moreover have "diskGroups (lsDisk (psLoop p)) = metricGroups ?new" by (simp add: new)
  ultimately show ?case by metis
qed

section \<open>Properties\<close>

text \<open>
  C14. However often the process stops or crashes, and wherever, a new process begins with a store in which of every life
  an initial part of the requests applied in it has been handled, in order, and nothing else: a crash
  loses the latest requests of a life, never earlier ones, and invents or mixes nothing.
\<close>

theorem restart_recovers_prefixes:
  assumes "lives env decode gathered path wss dms disk" "path \<noteq> ''''"
  shows "\<exists>kept. list_all2 prefix kept wss \<and>
    metricGroups dms = metricGroups (runWrites (peLoop env) (concat kept) (emptyStore gathered path))"
  using lives_prefixes [OF assms] by blast

theorem restart_recovers_prefixes_witness:
  "\<exists>decode wss dms disk. lives sample_process_env decode None ''f'' wss dms disk \<and> map (map fst) wss = [[sample_push]] \<and>
     disk \<noteq> None \<and> (\<exists>kept. list_all2 prefix kept wss \<and>
       metricGroups dms = metricGroups (runWrites sample_env (concat kept) (emptyStore None ''f'')))"
proof -
  have start: "fst (NewDiskMetricStore decode None None ''f'' fmempty) = sample_store" for decode
    by (simp add: NewDiskMetricStore_def restore_def extractPredefinedHelpStrings_def sample_store_def)
  have "pushRequest (peHandlers sample_process_env) True True False 5 0 sample_request = Inr sample_push"
    using sample_pushRequest by (simp add: sample_process_env_def sample_push_def)
  from abandoned_push [OF this sample_file, of None]
  obtain p where p': "(process_step sample_process_env)\<^sup>*\<^sup>* (initProcess sample_store 5 None) p \<and> psMain p = Exited \<and>
    (\<forall>p'. \<not> process_step sample_process_env p p') \<and> fmlookup (psHandlers p) 0 = Some (Waiting sample_push) \<and>
    map fst (lsApplied (psLoop p)) = [sample_push] \<and> lsDisk (psLoop p) = Some (metricGroups (lsStore (psLoop p)))" ..
  then have p: "(process_step sample_process_env)\<^sup>*\<^sup>* (initProcess sample_store 5 None) p"
    "map fst (lsApplied (psLoop p)) = [sample_push]" "lsDisk (psLoop p) = Some (metricGroups (lsStore (psLoop p)))"
    by simp_all
  let ?decode = "\<lambda>b :: string. (metricGroups (lsStore (psLoop p)), None :: string option)"
  let ?files = "fmupd ''f'' ''bytes'' fmempty :: files"
  have "lives sample_process_env ?decode None ''f'' [] sample_store None"
    using lives.first_life [of fmempty "''f''" sample_process_env ?decode None] start by simp
  moreover have "zeroTime \<le> 5" by (simp add: zeroTime_def)
  moreover note p(1)
  moreover have "holdsGroups ?decode ''f'' (lsDisk (psLoop p)) ?files" by (simp add: p(3) holdsGroups_def)
  ultimately have lives: "lives sample_process_env ?decode None ''f'' ([] @ [lsApplied (psLoop p)])
      (fst (NewDiskMetricStore ?decode None None ''f'' ?files)) (lsDisk (psLoop p))"
    by (rule lives.next_life)
  then have "\<exists>kept. list_all2 prefix kept ([] @ [lsApplied (psLoop p)]) \<and>
      metricGroups (fst (NewDiskMetricStore ?decode None None ''f'' ?files)) =
        metricGroups (runWrites (peLoop sample_process_env) (concat kept) (emptyStore None ''f''))"
    by (rule restart_recovers_prefixes) simp
  moreover have "peLoop sample_process_env = sample_env" by (simp add: sample_process_env_def)
  moreover have "map (map fst) ([] @ [lsApplied (psLoop p)]) = [[sample_push]]" "lsDisk (psLoop p) \<noteq> None"
    using p(2,3) by simp_all
  ultimately show ?thesis using lives by metis
qed

end
