(* ===== verification/AssetFile.thy ===== *)
theory AssetFile
  imports GoStrings GoNum
begin

text \<open>
  The opened files of the embedded file system (asset/assets\_vfsdata.go): a gzip-compressed file with
  its two positions, an uncompressed one, and what a client of either may rely on, as a locale.  The
  decompressor is library code: \<open>gunzip\<close> gives the content or the error of \<open>gzip.NewReader\<close>, \<open>gzChunk\<close>
  how many bytes one call of \<open>Read\<close> delivers and whether it reports the end.
\<close>

section \<open>The decompressor\<close>

datatype io_err = EOF | IOErr string

record gz_lib =
  gunzip :: "string \<Rightarrow> string + string"
  gzChunk :: "string \<Rightarrow> nat \<Rightarrow> nat \<times> bool"

text \<open>The contract of \<open>io.Reader\<close>, which gzip keeps on well-formed input; a call for no bytes may deliver none.\<close>

definition gz_ok :: "gz_lib \<Rightarrow> bool" where
  "gz_ok lib \<longleftrightarrow> (\<forall>rest k. case gzChunk lib rest k of (n, eof) \<Rightarrow>
     n \<le> k \<and> n \<le> length rest \<and> (eof \<longrightarrow> n = length rest) \<and> (n = 0 \<longrightarrow> k = 0 \<or> eof))"

text \<open>\<open>io.CopyN\<close> into \<open>io.Discard\<close>: what is left, and whether all bytes were there.\<close>

definition CopyN :: "int \<Rightarrow> string \<Rightarrow> string \<times> bool" where
  "CopyN n rest = (if n \<le> int (length rest) then (drop (nat n) rest, True) else ('''', False))"

section \<open>Compressed files\<close>

record CompressedFileInfo =
  cName :: string
  cModTime :: gotime
  compressedContent :: string
  uncompressedSize :: int

record CompressedFile =
  cfInfo :: CompressedFileInfo
  cfRest :: string
  grPos :: int
  seekPos :: int

text \<open>One buffer of length \<open>k\<close>: the file afterwards, the bytes, and the error.\<close>

definition CompressedRead :: "gz_lib \<Rightarrow> nat \<Rightarrow> CompressedFile \<Rightarrow> CompressedFile \<times> string \<times> io_err option" where
  "CompressedRead lib k f =
     (case (if grPos f > seekPos f
            then (case gunzip lib (compressedContent (cfInfo f)) of
                    Inl err \<Rightarrow> (f, Some (IOErr err))
                  | Inr plain \<Rightarrow> (f\<lparr>cfRest := plain, grPos := 0\<rparr>, None))
            else (f, None)) of
        (f1, Some err) \<Rightarrow> (f1, '''', Some err)
      | (f1, None) \<Rightarrow>
          (case (if grPos f1 < seekPos f1
                 then (case CopyN (wrap64 (seekPos f1 - grPos f1)) (cfRest f1) of
                         (rest, ok) \<Rightarrow>
                           if ok then (f1\<lparr>cfRest := rest, grPos := seekPos f1\<rparr>, None)
                           else (f1\<lparr>cfRest := rest\<rparr>, Some EOF))
                 else (f1, None)) of
             (f2, Some err) \<Rightarrow> (f2, '''', Some err)
           | (f2, None) \<Rightarrow>
               (case gzChunk lib (cfRest f2) k of
                  (n, eof) \<Rightarrow>
                    let p = wrap64 (grPos f2 + int n) in
                    (f2\<lparr>cfRest := drop n (cfRest f2), grPos := p, seekPos := p\<rparr>,
                     take n (cfRest f2), if eof then Some EOF else None))))"

text \<open>\<open>None\<close> is the panic on an unknown \<open>whence\<close>; there is no other error.\<close>

definition CompressedSeek :: "int \<Rightarrow> int \<Rightarrow> CompressedFile \<Rightarrow> (CompressedFile \<times> int) option" where
  "CompressedSeek offset whence f =
     (if whence = 0 then Some (f\<lparr>seekPos := wrap64 (0 + offset)\<rparr>, wrap64 (0 + offset))
      else if whence = 1 then Some (f\<lparr>seekPos := wrap64 (seekPos f + offset)\<rparr>, wrap64 (seekPos f + offset))
      else if whence = 2
      then Some (f\<lparr>seekPos := wrap64 (uncompressedSize (cfInfo f) + offset)\<rparr>,
                 wrap64 (uncompressedSize (cfInfo f) + offset))
      else None)"

definition openCompressed :: "CompressedFileInfo \<Rightarrow> string \<Rightarrow> CompressedFile" where
  "openCompressed i plain = \<lparr>cfInfo = i, cfRest = plain, grPos = 0, seekPos = 0\<rparr>"

section \<open>Uncompressed files\<close>

text \<open>\<open>bytes.Reader\<close> of the standard library.  A seek to a negative position or with an unknown \<open>whence\<close> is an error.\<close>

record BytesReader =
  brContent :: string
  brPos :: int

definition BytesRead :: "nat \<Rightarrow> BytesReader \<Rightarrow> BytesReader \<times> string \<times> io_err option" where
  "BytesRead k r =
     (if brPos r \<ge> int (length (brContent r)) then (r, '''', Some EOF)
      else let b = take k (drop (nat (brPos r)) (brContent r)) in
           (r\<lparr>brPos := brPos r + int (length b)\<rparr>, b, None))"

definition BytesSeek :: "int \<Rightarrow> int \<Rightarrow> BytesReader \<Rightarrow> (BytesReader \<times> int) option" where
  "BytesSeek offset whence r =
     (let abs = (if whence = 0 then Some (wrap64 offset) else if whence = 1 then Some (wrap64 (brPos r + offset))
                 else if whence = 2 then Some (wrap64 (int (length (brContent r)) + offset)) else None) in
      case abs of None \<Rightarrow> None | Some p \<Rightarrow> if p < 0 then None else Some (r\<lparr>brPos := p\<rparr>, p))"

section \<open>What a client of an opened file does\<close>

datatype file_op = OpSeek int int | OpRead nat

datatype file_out = OutSeek int | OutRead string "io_err option"

text \<open>A run of operations with what each returned; it stops where a seek is refused.\<close>

fun runOps ::
  "(nat \<Rightarrow> 'f \<Rightarrow> 'f \<times> string \<times> io_err option) \<Rightarrow> (int \<Rightarrow> int \<Rightarrow> 'f \<Rightarrow> ('f \<times> int) option) \<Rightarrow>
   file_op list \<Rightarrow> 'f \<Rightarrow> ('f \<times> file_out list) option" where
  "runOps rd sk [] f = Some (f, [])"
| "runOps rd sk (OpSeek offset whence # ops) f =
     (case sk offset whence f of
        None \<Rightarrow> None
      | Some (f', p) \<Rightarrow> map_option (\<lambda>(g, outs). (g, OutSeek p # outs)) (runOps rd sk ops f'))"
| "runOps rd sk (OpRead k # ops) f =
     (case rd k f of
        (f', b, err) \<Rightarrow> map_option (\<lambda>(g, outs). (g, OutRead b err # outs)) (runOps rd sk ops f'))"

text \<open>
  \<open>io.ReadAll\<close>, the buffer lengths of its successive calls given: \<open>None\<close> when the list is used up
  before the end of the file.
\<close>

fun ReadAll :: "(nat \<Rightarrow> 'f \<Rightarrow> 'f \<times> string \<times> io_err option) \<Rightarrow> nat list \<Rightarrow> 'f \<Rightarrow> (string + string) option" where
  "ReadAll rd [] f = None"
| "ReadAll rd (k # ks) f =
     (case rd k f of
        (f', b, None) \<Rightarrow> map_option (\<lambda>r. case r of Inl e \<Rightarrow> Inl e | Inr s \<Rightarrow> Inr (b @ s)) (ReadAll rd ks f')
      | (f', b, Some EOF) \<Rightarrow> Some (Inr b)
      | (f', b, Some (IOErr e)) \<Rightarrow> Some (Inl e))"

section \<open>The contract of an opened file\<close>

text \<open>The abstract file: a content and a position in it.  It states which results a run of operations may have.\<close>

definition seekTarget :: "string \<Rightarrow> int \<Rightarrow> int \<Rightarrow> int \<Rightarrow> int" where
  "seekTarget content pos offset whence =
     (if whence = 0 then offset else if whence = 1 then pos + offset else int (length content) + offset)"

definition readOk :: "string \<Rightarrow> int \<Rightarrow> nat \<Rightarrow> string \<Rightarrow> io_err option \<Rightarrow> bool" where
  "readOk content pos k b err \<longleftrightarrow>
     length b \<le> k \<and> b = take (length b) (drop (nat pos) content) \<and>
     (err = None \<or> err = Some EOF \<and> pos + int (length b) = int (length content)) \<and>
     (b = [] \<longrightarrow> k = 0 \<or> err = Some EOF)"

fun specRun :: "string \<Rightarrow> int \<Rightarrow> file_op list \<Rightarrow> file_out list \<Rightarrow> int option" where
  "specRun content pos [] [] = Some pos"
| "specRun content pos (OpSeek offset whence # ops) (OutSeek p # outs) =
     (if p = seekTarget content pos offset whence then specRun content p ops outs else None)"
| "specRun content pos (OpRead k # ops) (OutRead b err # outs) =
     (if readOk content pos k b err then specRun content (pos + int (length b)) ops outs else None)"
| "specRun content pos ops outs = None"

definition inRange :: "string \<Rightarrow> int \<Rightarrow> bool" where
  "inRange content p \<longleftrightarrow> 0 \<le> p \<and> p \<le> int (length content)"

text \<open>Offsets are 64-bit integers, and no content is as long as their range.\<close>

definition int64 :: "int \<Rightarrow> bool" where
  "int64 n \<longleftrightarrow> - 9223372036854775808 \<le> n \<and> n < 9223372036854775808"

definition seeks_int64 :: "file_op list \<Rightarrow> bool" where
  "seeks_int64 ops \<longleftrightarrow> list_all (\<lambda>op. case op of OpSeek offset whence \<Rightarrow> int64 offset | OpRead k \<Rightarrow> True) ops"

lemma wrap64_int64: "int64 n \<Longrightarrow> wrap64 n = n"
  by (simp add: int64_def wrap64_id)

lemma wrap64_back:
  assumes "0 \<le> wrap64 t" "- 9223372036854775808 \<le> t" "t < 18446744073709551616"
  shows "wrap64 t = t"
proof (cases "t < 9223372036854775808")
  case True
  then show ?thesis using assms by (simp add: wrap64_id)
next
  case False
  have "(word_of_int t :: 64 word) = word_of_int (t - 2 ^ 64)" by simp
  then have "wrap64 t = wrap64 (t - 2 ^ 64)" unfolding wrap64_def by metis
  also have "\<dots> = t - 2 ^ 64" using False assms(3) by (intro wrap64_id) simp_all
  finally have "wrap64 t = t - 2 ^ 64" .
  then have "wrap64 t < 0" using assms(3) by simp
  then show ?thesis using assms(1) by simp
qed

locale opened_file =
  fixes rd :: "nat \<Rightarrow> 'f \<Rightarrow> 'f \<times> string \<times> io_err option"
    and sk :: "int \<Rightarrow> int \<Rightarrow> 'f \<Rightarrow> ('f \<times> int) option"
    and inv :: "'f \<Rightarrow> bool"
    and pos :: "'f \<Rightarrow> int"
    and content :: string
  assumes rd_ok: "inv f \<Longrightarrow> rd k f = (f', b, err) \<Longrightarrow>
      inv f' \<and> pos f' = pos f + int (length b) \<and> readOk content (pos f) k b err"
    and sk_ok: "inv f \<Longrightarrow> int64 offset \<Longrightarrow> sk offset whence f = Some (f', p) \<Longrightarrow> inRange content p \<Longrightarrow>
      inv f' \<and> pos f' = p \<and> p = seekTarget content (pos f) offset whence"
    and pos_range: "inv f \<Longrightarrow> inRange content (pos f)"
begin

lemma run_conforms:
  assumes "inv f" "runOps rd sk ops f = Some (g, outs)" "seeks_int64 ops"
    and "\<And>p. OutSeek p \<in> set outs \<Longrightarrow> inRange content p"
  shows "inv g \<and> specRun content (pos f) ops outs = Some (pos g)"
  using assms
proof (induction ops arbitrary: f outs)
  case (Cons opr ops)
  show ?case
  proof (cases opr)
    case (OpSeek offset whence)
    obtain f' p outs' where f': "sk offset whence f = Some (f', p)" "runOps rd sk ops f' = Some (g, outs')"
      and outs: "outs = OutSeek p # outs'"
      using Cons.prems(2) by (auto simp: OpSeek split: option.splits prod.splits)
    have off: "int64 offset" "seeks_int64 ops" using Cons.prems(3) by (simp_all add: OpSeek seeks_int64_def)
    have "inRange content p" using Cons.prems(4) outs by simp
    from sk_ok [OF Cons.prems(1) off(1) f'(1) this] Cons.IH [OF _ f'(2) off(2)] Cons.prems(4) outs
    show ?thesis by (simp add: OpSeek)
  next
    case (OpRead k)
    obtain f' b err outs' where f': "rd k f = (f', b, err)" "runOps rd sk ops f' = Some (g, outs')"
      and outs: "outs = OutRead b err # outs'"
      using Cons.prems(2) by (auto simp: OpRead split: option.splits prod.splits)
    have "seeks_int64 ops" using Cons.prems(3) by (simp add: seeks_int64_def)
    from rd_ok [OF Cons.prems(1) f'(1)] Cons.IH [OF _ f'(2) this] Cons.prems(4) outs
    show ?thesis by (simp add: OpRead)
  qed
qed simp

text \<open>Reading on until the end delivers the rest of the content, whatever the buffers, and ends.\<close>

lemma ReadAll_rest:
  assumes "inv f" "list_all (\<lambda>k. 0 < k) ks" "length content - nat (pos f) < length ks"
  shows "ReadAll rd ks f = Some (Inr (drop (nat (pos f)) content))"
  using assms
proof (induction ks arbitrary: f)
  case (Cons k ks)
  obtain f' b err where rd: "rd k f = (f', b, err)" by (cases "rd k f") auto
  note ok = rd_ok [OF Cons.prems(1) rd]
  have range: "0 \<le> pos f" "pos f \<le> int (length content)" using pos_range [OF Cons.prems(1)] by (simp_all add: inRange_def)
  have split: "drop (nat (pos f)) content = b @ drop (nat (pos f')) content"
  proof -
    have "b = take (length b) (drop (nat (pos f)) content)" using ok by (simp add: readOk_def)
    moreover have "nat (pos f') = length b + nat (pos f)" using ok range by simp
    ultimately show ?thesis by (metis append_take_drop_id drop_drop)
  qed
  show ?case
  proof (cases err)
    case None
    then have "b \<noteq> []" using ok Cons.prems(2) by (auto simp: readOk_def)
    then have "0 < length b" by blast
    moreover have "nat (pos f') = nat (pos f) + length b" "nat (pos f') \<le> length content"
      using ok range pos_range [of f'] by (simp_all add: inRange_def nat_add_distrib)
    moreover have "length content - nat (pos f) < Suc (length ks)" using Cons.prems(3) by simp
    ultimately have "length content - nat (pos f') < length ks" by linarith
    then have "ReadAll rd ks f' = Some (Inr (drop (nat (pos f')) content))"
      using ok Cons.prems(2) by (intro Cons.IH) simp_all
    then show ?thesis using rd None split by simp
  next
    case (Some e)
    then have "e = EOF" "pos f' = int (length content)" using ok by (auto simp: readOk_def)
    then show ?thesis using rd Some split by simp
  qed
qed simp

end

section \<open>Both kinds of file keep the contract\<close>

text \<open>A compressed file whose positions are within the content: the decompressor stands where \<open>grPos\<close> says.\<close>

definition compressed_inv :: "gz_lib \<Rightarrow> string \<Rightarrow> CompressedFile \<Rightarrow> bool" where
  "compressed_inv lib plain f \<longleftrightarrow>
     gz_ok lib \<and> gunzip lib (compressedContent (cfInfo f)) = Inr plain \<and>
     uncompressedSize (cfInfo f) = int (length plain) \<and> int64 (int (length plain)) \<and>
     inRange plain (grPos f) \<and> inRange plain (seekPos f) \<and> cfRest f = drop (nat (grPos f)) plain"

lemma wrap64_range: "int64 (int (length plain)) \<Longrightarrow> inRange plain p \<Longrightarrow> wrap64 p = p"
  by (rule wrap64_int64) (auto simp: int64_def inRange_def)

text \<open>The first two steps of a read bring the decompressor to the sought position.\<close>

definition atSeekPos :: "string \<Rightarrow> CompressedFile \<Rightarrow> CompressedFile" where
  "atSeekPos plain f = f\<lparr>cfRest := drop (nat (seekPos f)) plain, grPos := seekPos f\<rparr>"

lemma CompressedRead_at:
  assumes "compressed_inv lib plain f"
  shows "CompressedRead lib k f =
    (case gzChunk lib (drop (nat (seekPos f)) plain) k of
       (n, eof) \<Rightarrow>
         (f\<lparr>cfRest := drop n (drop (nat (seekPos f)) plain), grPos := wrap64 (seekPos f + int n), seekPos := wrap64 (seekPos f + int n)\<rparr>,
          take n (drop (nat (seekPos f)) plain), if eof then Some EOF else None))"
proof -
  have inv: "gunzip lib (compressedContent (cfInfo f)) = Inr plain" "int64 (int (length plain))"
    "0 \<le> grPos f" "grPos f \<le> int (length plain)" "0 \<le> seekPos f" "seekPos f \<le> int (length plain)"
    "cfRest f = drop (nat (grPos f)) plain"
    using assms by (simp_all add: compressed_inv_def inRange_def)
  have fwd: "wrap64 (seekPos f - g) = seekPos f - g" "nat (seekPos f - g) + nat g = nat (seekPos f)"
    if "0 \<le> g" "g \<le> seekPos f" for g
    using that inv by (auto intro!: wrap64_range [of plain] simp: inRange_def)
  consider "grPos f < seekPos f" | "grPos f = seekPos f" | "seekPos f < grPos f" "0 < seekPos f"
    | "seekPos f < grPos f" "seekPos f = 0" using inv by linarith
  then show ?thesis
    using inv fwd [of "grPos f"] fwd [of 0]
    by cases (simp_all add: CompressedRead_def CopyN_def drop_drop Let_def split: prod.split)
qed

lemma compressed_read:
  assumes "compressed_inv lib plain f" "CompressedRead lib k f = (f', b, err)"
  shows "compressed_inv lib plain f' \<and> seekPos f' = seekPos f + int (length b) \<and> readOk plain (seekPos f) k b err"
proof -
  let ?rest = "drop (nat (seekPos f)) plain"
  obtain n eof where c: "gzChunk lib ?rest k = (n, eof)" by (cases "gzChunk lib ?rest k") auto
  have "gz_ok lib" using assms(1) by (simp add: compressed_inv_def)
  then have "case gzChunk lib ?rest k of (n, eof) \<Rightarrow>
      n \<le> k \<and> n \<le> length ?rest \<and> (eof \<longrightarrow> n = length ?rest) \<and> (n = 0 \<longrightarrow> k = 0 \<or> eof)"
    unfolding gz_ok_def by (elim allE)
  then have n: "n \<le> k" "n \<le> length ?rest" "eof \<longrightarrow> n = length ?rest" "n = 0 \<longrightarrow> k = 0 \<or> eof"
    using c by simp_all
  have range: "0 \<le> seekPos f" "seekPos f \<le> int (length plain)" "int64 (int (length plain))"
    using assms(1) by (simp_all add: compressed_inv_def inRange_def)
  then have p: "inRange plain (seekPos f + int n)" "wrap64 (seekPos f + int n) = seekPos f + int n"
    using n(2) by (auto simp: inRange_def intro!: wrap64_range [of plain])
  have eq: "f' = f\<lparr>cfRest := drop n ?rest, grPos := seekPos f + int n, seekPos := seekPos f + int n\<rparr>"
      "b = take n ?rest" "err = (if eof then Some EOF else None)"
    using assms(2) CompressedRead_at [OF assms(1), of k] c p(2) by simp_all
  have len: "length b = n" using n(2) eq(2) by simp
  have "compressed_inv lib plain f'"
    using assms(1) p(1) range by (simp add: eq(1) compressed_inv_def drop_drop nat_add_distrib add.commute)
  moreover have "readOk plain (seekPos f) k b err"
    using n len range eq(2,3) by (auto simp: readOk_def)
  ultimately show ?thesis using len by (simp add: eq(1))
qed

lemma seek_target:
  assumes "inRange content q" "int64 (int (length content))" "int64 offset"
    and "inRange content (wrap64 (seekTarget content q offset whence))"
  shows "wrap64 (seekTarget content q offset whence) = seekTarget content q offset whence"
  using assms by (intro wrap64_back) (auto simp: seekTarget_def int64_def inRange_def)

lemma compressed_seek:
  assumes "compressed_inv lib plain f" "int64 offset" "CompressedSeek offset whence f = Some (f', p)" "inRange plain p"
  shows "compressed_inv lib plain f' \<and> seekPos f' = p \<and> p = seekTarget plain (seekPos f) offset whence"
proof -
  have inv: "uncompressedSize (cfInfo f) = int (length plain)" "inRange plain (seekPos f)" "int64 (int (length plain))"
    using assms(1) by (simp_all add: compressed_inv_def)
  have "p = wrap64 (seekTarget plain (seekPos f) offset whence)" "f' = f\<lparr>seekPos := p\<rparr>"
    using assms(3) inv(1) by (auto simp: CompressedSeek_def seekTarget_def split: if_splits)
  then show ?thesis using seek_target [OF inv(2,3) assms(2), of whence] assms(1,4) by (simp add: compressed_inv_def)
qed

interpretation compressed: opened_file "CompressedRead lib" CompressedSeek "compressed_inv lib plain" seekPos plain for lib plain
proof
  show "inRange plain (seekPos f)" if "compressed_inv lib plain f" for f
    using that by (simp add: compressed_inv_def)
qed (fact compressed_read, fact compressed_seek)

definition bytes_inv :: "string \<Rightarrow> BytesReader \<Rightarrow> bool" where
  "bytes_inv plain r \<longleftrightarrow> brContent r = plain \<and> inRange plain (brPos r) \<and> int64 (int (length plain))"

lemma bytes_read:
  assumes "bytes_inv plain r" "BytesRead k r = (r', b, err)"
  shows "bytes_inv plain r' \<and> brPos r' = brPos r + int (length b) \<and> readOk plain (brPos r) k b err"
proof (cases "brPos r \<ge> int (length plain)")
  case True
  then show ?thesis using assms by (auto simp: BytesRead_def bytes_inv_def readOk_def inRange_def)
next
  case False
  then have "r' = r\<lparr>brPos := brPos r + int (length b)\<rparr>" "b = take k (drop (nat (brPos r)) plain)" "err = None"
    using assms by (auto simp: BytesRead_def bytes_inv_def Let_def)
  moreover have "take k xs = take (length (take k xs)) xs" for xs :: string by (cases "k \<le> length xs") (simp_all add: min_def)
  ultimately show ?thesis using False assms(1) by (auto simp: bytes_inv_def inRange_def readOk_def)
qed

lemma bytes_seek:
  assumes "bytes_inv plain r" "int64 offset" "BytesSeek offset whence r = Some (r', p)" "inRange plain p"
  shows "bytes_inv plain r' \<and> brPos r' = p \<and> p = seekTarget plain (brPos r) offset whence"
proof -
  have inv: "brContent r = plain" "inRange plain (brPos r)" "int64 (int (length plain))"
    using assms(1) by (simp_all add: bytes_inv_def)
  have "p = wrap64 (seekTarget plain (brPos r) offset whence)" "r' = r\<lparr>brPos := p\<rparr>"
    using assms(3) inv(1) by (auto simp: BytesSeek_def seekTarget_def Let_def split: if_splits)
  then show ?thesis using seek_target [OF inv(2,3) assms(2), of whence] assms(1,4) by (simp add: bytes_inv_def)
qed

interpretation uncompressed: opened_file BytesRead BytesSeek "bytes_inv plain" brPos plain for plain
proof
  show "inRange plain (brPos r)" if "bytes_inv plain r" for r
    using that by (simp add: bytes_inv_def)
qed (fact bytes_read, fact bytes_seek)

end
