(* ===== verification/AssetFS.thy ===== *)
theory AssetFS
  imports AssetFile
begin

text \<open>
  The embedded file system of asset/assets\_vfsdata.go: looking up a path, the three kinds of node and
  their file information, directories that are listed in batches, and the operations of an opened
  file.  \<open>path.Clean\<close> of a rooted path is modelled from its documented rules.
\<close>

section \<open>Cleaning a rooted path\<close>

fun cleanParts :: "string list \<Rightarrow> string list \<Rightarrow> string list" where
  "cleanParts st [] = rev st"
| "cleanParts st (p # ps) =
     (if p = '''' \<or> p = ''.'' then cleanParts st ps
      else if p = ''..'' then cleanParts (tl st) ps
      else cleanParts (p # st) ps)"

definition CleanRooted :: "string \<Rightarrow> string" where
  "CleanRooted path = CHR ''/'' # joinSep (CHR ''/'') (cleanParts [] (splitOn (CHR ''/'') path))"

section \<open>Nodes\<close>

record FileInfo =
  fName :: string
  fModTime :: gotime
  fContent :: string

text \<open>The entries of a directory are references to other nodes; they are given by the paths of these.\<close>

record DirInfo =
  dName :: string
  dModTime :: gotime
  dEntries :: "string list"

datatype fs_node = CompressedNode CompressedFileInfo | FileNode FileInfo | DirNode DirInfo

fun nodeName :: "fs_node \<Rightarrow> string" where
  "nodeName (CompressedNode i) = cName i"
| "nodeName (FileNode i) = fName i"
| "nodeName (DirNode i) = dName i"

fun nodeSize :: "fs_node \<Rightarrow> int" where
  "nodeSize (CompressedNode i) = uncompressedSize i"
| "nodeSize (FileNode i) = int (length (fContent i))"
| "nodeSize (DirNode i) = 0"

text \<open>0444, and 0755 with the bit of \<open>os.ModeDir\<close>.\<close>

fun nodeMode :: "fs_node \<Rightarrow> 32 word" where
  "nodeMode (CompressedNode i) = 292"
| "nodeMode (FileNode i) = 292"
| "nodeMode (DirNode i) = or 493 (push_bit 31 1)"

fun nodeModTime :: "fs_node \<Rightarrow> gotime" where
  "nodeModTime (CompressedNode i) = cModTime i"
| "nodeModTime (FileNode i) = fModTime i"
| "nodeModTime (DirNode i) = dModTime i"

fun nodeIsDir :: "fs_node \<Rightarrow> bool" where
  "nodeIsDir (CompressedNode i) = False"
| "nodeIsDir (FileNode i) = False"
| "nodeIsDir (DirNode i) = True"

text \<open>\<open>Sys\<close>, which is nil for every kind; the compressed bytes, and the mark of a file that is stored as it is.\<close>

fun nodeSys :: "fs_node \<Rightarrow> string option" where
  "nodeSys (CompressedNode i) = None"
| "nodeSys (FileNode i) = None"
| "nodeSys (DirNode i) = None"

fun GzipBytes :: "fs_node \<Rightarrow> string option" where
  "GzipBytes (CompressedNode i) = Some (compressedContent i)"
| "GzipBytes (FileNode i) = None"
| "GzipBytes (DirNode i) = None"

fun NotWorthGzipCompressing :: "fs_node \<Rightarrow> bool" where
  "NotWorthGzipCompressing (CompressedNode i) = False"
| "NotWorthGzipCompressing (FileNode i) = True"
| "NotWorthGzipCompressing (DirNode i) = False"

section \<open>Directories\<close>

record OpenDir =
  odInfo :: DirInfo
  odPos :: int

text \<open>The batch, and whether the end is reported instead.\<close>

definition Readdir :: "int \<Rightarrow> OpenDir \<Rightarrow> OpenDir \<times> string list \<times> bool" where
  "Readdir cnt d =
     (let entries = dEntries (odInfo d); len = int (length entries) in
      if odPos d \<ge> len \<and> cnt > 0 then (d, [], True)
      else let n = (if cnt \<le> 0 \<or> cnt > len - odPos d then len - odPos d else cnt) in
           (d\<lparr>odPos := odPos d + n\<rparr>, take (nat n) (drop (nat (odPos d)) entries), False))"

definition DirSeek :: "int \<Rightarrow> int \<Rightarrow> OpenDir \<Rightarrow> (OpenDir \<times> int) option" where
  "DirSeek offset whence d =
     (if offset = 0 \<and> whence = 0 then Some (d\<lparr>odPos := 0\<rparr>, 0) else None)"

section \<open>Opening\<close>

type_synonym asset_fs = "string \<Rightarrow> fs_node option"

datatype open_file = OpenedCompressed CompressedFile | OpenedFile FileInfo BytesReader | OpenedDir OpenDir

text \<open>\<open>Inl\<close> with the cleaned path if there is no such file; \<open>None\<close> for the panic on an unreadable own content.\<close>

definition OpenAsset :: "gz_lib \<Rightarrow> asset_fs \<Rightarrow> string \<Rightarrow> (string + open_file) option" where
  "OpenAsset lib fs name =
     (let path = CleanRooted (''/'' @ name) in
      case fs path of
        None \<Rightarrow> Some (Inl path)
      | Some (CompressedNode i) \<Rightarrow>
          (case gunzip lib (compressedContent i) of
             Inl err \<Rightarrow> None
           | Inr plain \<Rightarrow> Some (Inr (OpenedCompressed (openCompressed i plain))))
      | Some (FileNode i) \<Rightarrow> Some (Inr (OpenedFile i \<lparr>brContent = fContent i, brPos = 0\<rparr>))
      | Some (DirNode i) \<Rightarrow> Some (Inr (OpenedDir \<lparr>odInfo = i, odPos = 0\<rparr>)))"

section \<open>Operations of an opened file\<close>

fun fileStat :: "open_file \<Rightarrow> fs_node" where
  "fileStat (OpenedCompressed f) = CompressedNode (cfInfo f)"
| "fileStat (OpenedFile i r) = FileNode i"
| "fileStat (OpenedDir d) = DirNode (odInfo d)"

fun fileRead :: "gz_lib \<Rightarrow> nat \<Rightarrow> open_file \<Rightarrow> open_file \<times> string \<times> io_err option" where
  "fileRead lib k (OpenedCompressed f) = (case CompressedRead lib k f of (f', b, err) \<Rightarrow> (OpenedCompressed f', b, err))"
| "fileRead lib k (OpenedFile i r) = (case BytesRead k r of (r', b, err) \<Rightarrow> (OpenedFile i r', b, err))"
| "fileRead lib k (OpenedDir d) = (OpenedDir d, '''', Some (IOErr (''cannot Read from directory '' @ dName (odInfo d))))"

text \<open>\<open>None\<close> where seeking fails: an error, or the panic of a compressed file.\<close>

fun fileSeek :: "int \<Rightarrow> int \<Rightarrow> open_file \<Rightarrow> (open_file \<times> int) option" where
  "fileSeek offset whence (OpenedCompressed f) = map_option (\<lambda>(f', p). (OpenedCompressed f', p)) (CompressedSeek offset whence f)"
| "fileSeek offset whence (OpenedFile i r) = map_option (\<lambda>(r', p). (OpenedFile i r', p)) (BytesSeek offset whence r)"
| "fileSeek offset whence (OpenedDir d) = map_option (\<lambda>(d', p). (OpenedDir d', p)) (DirSeek offset whence d)"

text \<open>\<open>Inl\<close> the error of a file; a directory gives a batch of entries.\<close>

fun fileReaddir :: "int \<Rightarrow> open_file \<Rightarrow> string + open_file \<times> string list \<times> bool" where
  "fileReaddir cnt (OpenedCompressed f) = Inl (''cannot Readdir from file '' @ cName (cfInfo f))"
| "fileReaddir cnt (OpenedFile i r) = Inl (''cannot Readdir from file '' @ fName i)"
| "fileReaddir cnt (OpenedDir d) = (case Readdir cnt d of (d', es, eof) \<Rightarrow> Inr (OpenedDir d', es, eof))"

text \<open>\<open>Close\<close>, with what \<open>Close\<close> of the decompressor returns.\<close>

fun fileClose :: "(CompressedFile \<Rightarrow> io_err option) \<Rightarrow> open_file \<Rightarrow> io_err option" where
  "fileClose gzClose (OpenedCompressed f) = gzClose f"
| "fileClose gzClose (OpenedFile i r) = None"
| "fileClose gzClose (OpenedDir d) = None"

section \<open>Lemmas on paths\<close>

definition proper_part :: "string \<Rightarrow> bool" where
  "proper_part p \<longleftrightarrow> p \<noteq> '''' \<and> p \<noteq> ''.'' \<and> p \<noteq> ''..'' \<and> CHR ''/'' \<notin> set p"

lemma cleanParts_proper:
  assumes "\<forall>p \<in> set st. proper_part p" "\<forall>p \<in> set ps. CHR ''/'' \<notin> set p"
  shows "\<forall>p \<in> set (cleanParts st ps). proper_part p"
  using assms
proof (induction ps arbitrary: st)
  case (Cons p ps)
  have ps: "\<forall>p \<in> set ps. CHR ''/'' \<notin> set p" using Cons.prems(2) by simp
  consider "p = '''' \<or> p = ''.''" | "p = ''..''" | "p \<noteq> ''''" "p \<noteq> ''.''" "p \<noteq> ''..''" by blast
  then show ?case
  proof cases
    case 1
    then show ?thesis using Cons.IH [OF Cons.prems(1) ps] by auto
  next
    case 2
    have "\<forall>q \<in> set (tl st). proper_part q" using Cons.prems(1) by (cases st) simp_all
    then show ?thesis using Cons.IH [OF _ ps, of "tl st"] 2 by auto
  next
    case 3
    moreover have "CHR ''/'' \<notin> set p" using Cons.prems(2) by simp
    ultimately have "proper_part p" unfolding proper_part_def by blast
    then have "\<forall>q \<in> set (p # st). proper_part q" using Cons.prems(1) by simp
    then have "\<forall>q \<in> set (cleanParts (p # st) ps). proper_part q" by (rule Cons.IH) (rule ps)
    moreover have "cleanParts st (p # ps) = cleanParts (p # st) ps" using 3 by simp
    ultimately show ?thesis by simp
  qed
qed simp

lemma cleanParts_id: "\<forall>p \<in> set ps. proper_part p \<Longrightarrow> cleanParts st ps = rev st @ ps"
  by (induction ps arbitrary: st) (simp_all add: proper_part_def)

text \<open>A cleaned path stays below the root, and cleaning it again changes nothing.\<close>

lemma CleanRooted_parts:
  obtains ps where "CleanRooted path = CHR ''/'' # joinSep (CHR ''/'') ps" "\<forall>p \<in> set ps. proper_part p"
proof
  show "CleanRooted path = CHR ''/'' # joinSep (CHR ''/'') (cleanParts [] (splitOn (CHR ''/'') path))"
    by (simp add: CleanRooted_def)
  show "\<forall>p \<in> set (cleanParts [] (splitOn (CHR ''/'') path)). proper_part p"
    by (rule cleanParts_proper) (auto dest: splitOn_no_sep)
qed

lemma CleanRooted_slash: "CleanRooted (CHR ''/'' # s) = CleanRooted s"
  by (simp add: CleanRooted_def)

lemma CleanRooted_joinSep:
  assumes "\<forall>p \<in> set ps. proper_part p"
  shows "CleanRooted (joinSep (CHR ''/'') ps) = CHR ''/'' # joinSep (CHR ''/'') ps"
proof (cases "ps = []")
  case False
  then have "splitOn (CHR ''/'') (joinSep (CHR ''/'') ps) = ps"
    using assms by (intro splitOn_joinSep) (auto simp: proper_part_def)
  then show ?thesis using cleanParts_id [OF assms, of "[]"] by (simp add: CleanRooted_def)
qed (simp add: CleanRooted_def)

lemma CleanRooted_idem [simp]: "CleanRooted (CleanRooted path) = CleanRooted path"
proof -
  obtain ps where "CleanRooted path = CHR ''/'' # joinSep (CHR ''/'') ps" "\<forall>p \<in> set ps. proper_part p"
    by (rule CleanRooted_parts)
  then show ?thesis by (simp add: CleanRooted_slash CleanRooted_joinSep)
qed

text \<open>Opening depends on the cleaned path only, and finds exactly what the table has under it.\<close>

lemma OpenAsset_clean: "OpenAsset lib fs (CleanRooted name) = OpenAsset lib fs name"
  by (simp add: OpenAsset_def CleanRooted_slash)

lemma OpenAsset_found:
  "OpenAsset lib fs name = Some (Inr f) \<Longrightarrow> fs (CleanRooted name) = Some (fileStat f)"
  by (auto simp: OpenAsset_def CleanRooted_slash Let_def openCompressed_def split: option.splits fs_node.splits sum.splits)

end
