(* ===== verification/AssetTable.thy ===== *)
theory AssetTable
  imports AssetFS
begin

text \<open>
  The tree of embedded files that asset/assets\_vfsdata.go declares: for every path its name, modification
  time and kind, and for every directory its entries; and the facts about this data that are checked by
  evaluating it.
\<close>

section \<open>The declared table\<close>

text \<open>\<open>time.Date\<close> in UTC, by the usual count of days in the proleptic Gregorian calendar.\<close>

definition timeDateUTC :: "int \<Rightarrow> int \<Rightarrow> int \<Rightarrow> int \<Rightarrow> int \<Rightarrow> int \<Rightarrow> int \<Rightarrow> gotime" where
  "timeDateUTC year month day hour minute sec nsec =
     (let y = (if month \<le> 2 then year - 1 else year);
          yoe = y mod 400;
          doy = (153 * (if month > 2 then month - 3 else month + 9) + 2) div 5 + day - 1;
          doe = yoe * 365 + yoe div 4 - yoe div 100 + doy;
          days = y div 400 * 146097 + doe - 719468
      in ((days * 24 + hour) * 60 + minute) * 60 * 1000000000 + sec * 1000000000 + nsec)"

text \<open>The size is that of the uncompressed content; a file stored as it is has none of its own.\<close>

datatype asset_kind = AssetDir | AssetGz int | AssetRaw

type_synonym asset_table = "(string \<times> string \<times> gotime \<times> asset_kind) list"

definition assetsBootstrapCss :: asset_table where
  "assetsBootstrapCss =
    [(''/'', ''/'', timeDateUTC 2024 12 12 17 58 32 572250109, AssetDir),
     (''/static'', ''static'', timeDateUTC 2024 12 12 12 18 51 645332265, AssetDir),
     (''/static/bootstrap-4.3.1-dist'', ''bootstrap-4.3.1-dist'', timeDateUTC 2024 9 2 12 28 16 676278729, AssetDir),
     (''/static/bootstrap-4.3.1-dist/LICENSE'', ''LICENSE'', timeDateUTC 2024 9 2 12 28 16 671278796, AssetGz 1131),
     (''/static/bootstrap-4.3.1-dist/css'', ''css'', timeDateUTC 2024 9 2 12 28 16 676278729, AssetDir),
     (''/static/bootstrap-4.3.1-dist/css/bootstrap-grid.css'', ''bootstrap-grid.css'', timeDateUTC 2024 9 2 12 28 16 672278783, AssetGz 64548),
     (''/static/bootstrap-4.3.1-dist/css/bootstrap-grid.css.map'', ''bootstrap-grid.css.map'', timeDateUTC 2024 9 2 12 28 16 673278769, AssetGz 151749),
     (''/static/bootstrap-4.3.1-dist/css/bootstrap-grid.min.css'', ''bootstrap-grid.min.css'', timeDateUTC 2024 9 2 12 28 16 673278769, AssetGz 48488),
     (''/static/bootstrap-4.3.1-dist/css/bootstrap-grid.min.css.map'', ''bootstrap-grid.min.css.map'', timeDateUTC 2024 9 2 12 28 16 674278756, AssetGz 108539),
     (''/static/bootstrap-4.3.1-dist/css/bootstrap-reboot.css'', ''bootstrap-reboot.css'', timeDateUTC 2024 9 2 12 28 16 674278756, AssetGz 4897),
     (''/static/bootstrap-4.3.1-dist/css/bootstrap-reboot.css.map'', ''bootstrap-reboot.css.map'', timeDateUTC 2024 9 2 12 28 16 674278756, AssetGz 76483),
     (''/static/bootstrap-4.3.1-dist/css/bootstrap-reboot.min.css'', ''bootstrap-reboot.min.css'', timeDateUTC 2024 9 2 12 28 16 675278742, AssetGz 4021),
     (''/static/bootstrap-4.3.1-dist/css/bootstrap-reboot.min.css.map'', ''bootstrap-reboot.min.css.map'', timeDateUTC 2024 9 2 12 28 16 675278742, AssetGz 32461),
     (''/static/bootstrap-4.3.1-dist/css/bootstrap.css'', ''bootstrap.css'', timeDateUTC 2024 9 2 12 28 16 675278742, AssetGz 192348),
     (''/static/bootstrap-4.3.1-dist/css/bootstrap.css.map'', ''bootstrap.css.map'', timeDateUTC 2024 9 2 12 28 16 675278742, AssetGz 492048),
     (''/static/bootstrap-4.3.1-dist/css/bootstrap.min.css'', ''bootstrap.min.css'', timeDateUTC 2024 9 2 12 28 16 676278729, AssetGz 155758),
     (''/static/bootstrap-4.3.1-dist/css/bootstrap.min.css.map'', ''bootstrap.min.css.map'', timeDateUTC 2024 9 2 12 28 16 676278729, AssetGz 625953)]"

definition assetsBootstrapJs :: asset_table where
  "assetsBootstrapJs =
    [(''/static/bootstrap-4.3.1-dist/js'', ''js'', timeDateUTC 2024 9 2 12 28 16 680278676, AssetDir),
     (''/static/bootstrap-4.3.1-dist/js/bootstrap.bundle.js'', ''bootstrap.bundle.js'', timeDateUTC 2024 9 2 12 28 16 677278716, AssetGz 222911),
     (''/static/bootstrap-4.3.1-dist/js/bootstrap.bundle.js.map'', ''bootstrap.bundle.js.map'', timeDateUTC 2024 9 2 12 28 16 678278702, AssetGz 402249),
     (''/static/bootstrap-4.3.1-dist/js/bootstrap.bundle.min.js'', ''bootstrap.bundle.min.js'', timeDateUTC 2024 9 2 12 28 16 679278689, AssetGz 78635),
     (''/static/bootstrap-4.3.1-dist/js/bootstrap.bundle.min.js.map'', ''bootstrap.bundle.min.js.map'', timeDateUTC 2024 9 2 12 28 16 679278689, AssetGz 311949),
     (''/static/bootstrap-4.3.1-dist/js/bootstrap.js'', ''bootstrap.js'', timeDateUTC 2024 9 2 12 28 16 680278676, AssetGz 131637),
     (''/static/bootstrap-4.3.1-dist/js/bootstrap.js.map'', ''bootstrap.js.map'', timeDateUTC 2024 9 2 12 28 16 680278676, AssetGz 250568),
     (''/static/bootstrap-4.3.1-dist/js/bootstrap.min.js'', ''bootstrap.min.js'', timeDateUTC 2024 9 2 12 28 16 680278676, AssetGz 58072),
     (''/static/bootstrap-4.3.1-dist/js/bootstrap.min.js.map'', ''bootstrap.min.js.map'', timeDateUTC 2024 9 2 12 28 16 680278676, AssetGz 190253),
     (''/static/bootstrap4-glyphicons'', ''bootstrap4-glyphicons'', timeDateUTC 2024 9 2 12 28 16 687278582, AssetDir),
     (''/static/bootstrap4-glyphicons/css'', ''css'', timeDateUTC 2024 9 2 12 28 16 680278676, AssetDir),
     (''/static/bootstrap4-glyphicons/css/bootstrap-glyphicons.css'', ''bootstrap-glyphicons.css'', timeDateUTC 2024 9 2 12 28 16 680278676, AssetGz 14523),
     (''/static/bootstrap4-glyphicons/css/bootstrap-glyphicons.min.css'', ''bootstrap-glyphicons.min.css'', timeDateUTC 2024 9 2 12 28 16 680278676, AssetGz 11830),
     (''/static/bootstrap4-glyphicons/fonts'', ''fonts'', timeDateUTC 2024 9 2 12 28 16 686278595, AssetDir),
     (''/static/bootstrap4-glyphicons/fonts/fontawesome'', ''fontawesome'', timeDateUTC 2024 9 2 12 28 16 686278595, AssetDir)]"

definition assetsFonts :: asset_table where
  "assetsFonts =
    [(''/static/bootstrap4-glyphicons/fonts/fontawesome/fa-brands-400.eot'', ''fa-brands-400.eot'', timeDateUTC 2024 9 2 12 28 16 681278662, AssetGz 98620),
     (''/static/bootstrap4-glyphicons/fonts/fontawesome/fa-brands-400.svg'', ''fa-brands-400.svg'', timeDateUTC 2024 9 2 12 28 16 682278649, AssetGz 507478),
     (''/static/bootstrap4-glyphicons/fonts/fontawesome/fa-brands-400.ttf'', ''fa-brands-400.ttf'', timeDateUTC 2024 9 2 12 28 16 683278635, AssetGz 98384),
     (''/static/bootstrap4-glyphicons/fonts/fontawesome/fa-brands-400.woff'', ''fa-brands-400.woff'', timeDateUTC 2024 9 2 12 28 16 683278635, AssetRaw),
     (''/static/bootstrap4-glyphicons/fonts/fontawesome/fa-brands-400.woff2'', ''fa-brands-400.woff2'', timeDateUTC 2024 9 2 12 28 16 683278635, AssetRaw),
     (''/static/bootstrap4-glyphicons/fonts/fontawesome/fa-regular-400.eot'', ''fa-regular-400.eot'', timeDateUTC 2024 9 2 12 28 16 683278635, AssetGz 31156),
     (''/static/bootstrap4-glyphicons/fonts/fontawesome/fa-regular-400.svg'', ''fa-regular-400.svg'', timeDateUTC 2024 9 2 12 28 16 684278622, AssetGz 107199),
     (''/static/bootstrap4-glyphicons/fonts/fontawesome/fa-regular-400.ttf'', ''fa-regular-400.ttf'', timeDateUTC 2024 9 2 12 28 16 684278622, AssetGz 30928),
     (''/static/bootstrap4-glyphicons/fonts/fontawesome/fa-regular-400.woff'', ''fa-regular-400.woff'', timeDateUTC 2024 9 2 12 28 16 684278622, AssetRaw),
     (''/static/bootstrap4-glyphicons/fonts/fontawesome/fa-regular-400.woff2'', ''fa-regular-400.woff2'', timeDateUTC 2024 9 2 12 28 16 684278622, AssetRaw),
     (''/static/bootstrap4-glyphicons/fonts/fontawesome/fa-solid-900.eot'', ''fa-solid-900.eot'', timeDateUTC 2024 9 2 12 28 16 684278622, AssetGz 102152),
     (''/static/bootstrap4-glyphicons/fonts/fontawesome/fa-solid-900.svg'', ''fa-solid-900.svg'', timeDateUTC 2024 9 2 12 28 16 686278595, AssetGz 378215),
     (''/static/bootstrap4-glyphicons/fonts/fontawesome/fa-solid-900.ttf'', ''fa-solid-900.ttf'', timeDateUTC 2024 9 2 12 28 16 686278595, AssetGz 101932),
     (''/static/bootstrap4-glyphicons/fonts/fontawesome/fa-solid-900.woff'', ''fa-solid-900.woff'', timeDateUTC 2024 9 2 12 28 16 686278595, AssetRaw),
     (''/static/bootstrap4-glyphicons/fonts/fontawesome/fa-solid-900.woff2'', ''fa-solid-900.woff2'', timeDateUTC 2024 9 2 12 28 16 686278595, AssetRaw),
     (''/static/bootstrap4-glyphicons/fonts/glyphicons'', ''glyphicons'', timeDateUTC 2024 9 2 12 28 16 687278582, AssetDir),
     (''/static/bootstrap4-glyphicons/fonts/glyphicons/glyphicons-halflings-regular.eot'', ''glyphicons-halflings-regular.eot'', timeDateUTC 2024 9 2 12 28 16 686278595, AssetGz 20127),
     (''/static/bootstrap4-glyphicons/fonts/glyphicons/glyphicons-halflings-regular.svg'', ''glyphicons-halflings-regular.svg'', timeDateUTC 2024 9 2 12 28 16 687278582, AssetGz 108738),
     (''/static/bootstrap4-glyphicons/fonts/glyphicons/glyphicons-halflings-regular.ttf'', ''glyphicons-halflings-regular.ttf'', timeDateUTC 2024 9 2 12 28 16 687278582, AssetGz 45404),
     (''/static/bootstrap4-glyphicons/fonts/glyphicons/glyphicons-halflings-regular.woff'', ''glyphicons-halflings-regular.woff'', timeDateUTC 2024 9 2 12 28 16 687278582, AssetGz 23424),
     (''/static/bootstrap4-glyphicons/fonts/glyphicons/glyphicons-halflings-regular.woff2'', ''glyphicons-halflings-regular.woff2'', timeDateUTC 2024 9 2 12 28 16 687278582, AssetRaw)]"

definition assetsRest :: asset_table where
  "assetsRest =
    [(''/static/bootstrap4-glyphicons/maps'', ''maps'', timeDateUTC 2024 9 2 12 28 16 687278582, AssetDir),
     (''/static/bootstrap4-glyphicons/maps/glyphicons-fontawesome.css'', ''glyphicons-fontawesome.css'', timeDateUTC 2024 9 2 12 28 16 687278582, AssetGz 51062),
     (''/static/bootstrap4-glyphicons/maps/glyphicons-fontawesome.less'', ''glyphicons-fontawesome.less'', timeDateUTC 2024 9 2 12 28 16 687278582, AssetGz 53867),
     (''/static/bootstrap4-glyphicons/maps/glyphicons-fontawesome.min.css'', ''glyphicons-fontawesome.min.css'', timeDateUTC 2024 9 2 12 28 16 687278582, AssetGz 42307),
     (''/static/favicon.ico'', ''favicon.ico'', timeDateUTC 2024 9 2 12 28 16 688278569, AssetGz 15086),
     (''/static/functions.js'', ''functions.js'', timeDateUTC 2024 9 2 12 28 16 688278569, AssetGz 4034),
     (''/static/jquery-3.7.1.min.js'', ''jquery-3.7.1.min.js'', timeDateUTC 2024 12 12 12 18 51 646332251, AssetGz 87533),
     (''/static/jquery-license'', ''jquery-license'', timeDateUTC 2024 9 2 12 28 16 688278569, AssetGz 1606),
     (''/static/prometheus.css'', ''prometheus.css'', timeDateUTC 2024 9 2 12 28 16 688278569, AssetGz 674),
     (''/template.html'', ''template.html'', timeDateUTC 2024 12 12 17 58 32 569250159, AssetGz 11340)]"

text \<open>The entries that are assigned to each directory after the literal.\<close>

definition assetEntries :: "(string \<times> string list) list" where
  "assetEntries =
    [(''/'',
      [''/static'',
       ''/template.html'']),
     (''/static'',
      [''/static/bootstrap-4.3.1-dist'',
       ''/static/bootstrap4-glyphicons'',
       ''/static/favicon.ico'',
       ''/static/functions.js'',
       ''/static/jquery-3.7.1.min.js'',
       ''/static/jquery-license'',
       ''/static/prometheus.css'']),
     (''/static/bootstrap-4.3.1-dist'',
      [''/static/bootstrap-4.3.1-dist/LICENSE'',
       ''/static/bootstrap-4.3.1-dist/css'',
       ''/static/bootstrap-4.3.1-dist/js'']),
     (''/static/bootstrap-4.3.1-dist/css'',
      [''/static/bootstrap-4.3.1-dist/css/bootstrap-grid.css'',
       ''/static/bootstrap-4.3.1-dist/css/bootstrap-grid.css.map'',
       ''/static/bootstrap-4.3.1-dist/css/bootstrap-grid.min.css'',
       ''/static/bootstrap-4.3.1-dist/css/bootstrap-grid.min.css.map'',
       ''/static/bootstrap-4.3.1-dist/css/bootstrap-reboot.css'',
       ''/static/bootstrap-4.3.1-dist/css/bootstrap-reboot.css.map'',
       ''/static/bootstrap-4.3.1-dist/css/bootstrap-reboot.min.css'',
       ''/static/bootstrap-4.3.1-dist/css/bootstrap-reboot.min.css.map'',
       ''/static/bootstrap-4.3.1-dist/css/bootstrap.css'',
       ''/static/bootstrap-4.3.1-dist/css/bootstrap.css.map'',
       ''/static/bootstrap-4.3.1-dist/css/bootstrap.min.css'',
       ''/static/bootstrap-4.3.1-dist/css/bootstrap.min.css.map'']),
     (''/static/bootstrap-4.3.1-dist/js'',
      [''/static/bootstrap-4.3.1-dist/js/bootstrap.bundle.js'',
       ''/static/bootstrap-4.3.1-dist/js/bootstrap.bundle.js.map'',
       ''/static/bootstrap-4.3.1-dist/js/bootstrap.bundle.min.js'',
       ''/static/bootstrap-4.3.1-dist/js/bootstrap.bundle.min.js.map'',
       ''/static/bootstrap-4.3.1-dist/js/bootstrap.js'',
       ''/static/bootstrap-4.3.1-dist/js/bootstrap.js.map'',
       ''/static/bootstrap-4.3.1-dist/js/bootstrap.min.js'',
       ''/static/bootstrap-4.3.1-dist/js/bootstrap.min.js.map'']),
     (''/static/bootstrap4-glyphicons'',
      [''/static/bootstrap4-glyphicons/css'',
       ''/static/bootstrap4-glyphicons/fonts'',
       ''/static/bootstrap4-glyphicons/maps'']),
     (''/static/bootstrap4-glyphicons/css'',
      [''/static/bootstrap4-glyphicons/css/bootstrap-glyphicons.css'',
       ''/static/bootstrap4-glyphicons/css/bootstrap-glyphicons.min.css'']),
     (''/static/bootstrap4-glyphicons/fonts'',
      [''/static/bootstrap4-glyphicons/fonts/fontawesome'',
       ''/static/bootstrap4-glyphicons/fonts/glyphicons'']),
     (''/static/bootstrap4-glyphicons/fonts/fontawesome'',
      [''/static/bootstrap4-glyphicons/fonts/fontawesome/fa-brands-400.eot'',
       ''/static/bootstrap4-glyphicons/fonts/fontawesome/fa-brands-400.svg'',
       ''/static/bootstrap4-glyphicons/fonts/fontawesome/fa-brands-400.ttf'',
       ''/static/bootstrap4-glyphicons/fonts/fontawesome/fa-brands-400.woff'',
       ''/static/bootstrap4-glyphicons/fonts/fontawesome/fa-brands-400.woff2'',
       ''/static/bootstrap4-glyphicons/fonts/fontawesome/fa-regular-400.eot'',
       ''/static/bootstrap4-glyphicons/fonts/fontawesome/fa-regular-400.svg'',
       ''/static/bootstrap4-glyphicons/fonts/fontawesome/fa-regular-400.ttf'',
       ''/static/bootstrap4-glyphicons/fonts/fontawesome/fa-regular-400.woff'',
       ''/static/bootstrap4-glyphicons/fonts/fontawesome/fa-regular-400.woff2'',
       ''/static/bootstrap4-glyphicons/fonts/fontawesome/fa-solid-900.eot'',
       ''/static/bootstrap4-glyphicons/fonts/fontawesome/fa-solid-900.svg'',
       ''/static/bootstrap4-glyphicons/fonts/fontawesome/fa-solid-900.ttf'',
       ''/static/bootstrap4-glyphicons/fonts/fontawesome/fa-solid-900.woff'',
       ''/static/bootstrap4-glyphicons/fonts/fontawesome/fa-solid-900.woff2'']),
     (''/static/bootstrap4-glyphicons/fonts/glyphicons'',
      [''/static/bootstrap4-glyphicons/fonts/glyphicons/glyphicons-halflings-regular.eot'',
       ''/static/bootstrap4-glyphicons/fonts/glyphicons/glyphicons-halflings-regular.svg'',
       ''/static/bootstrap4-glyphicons/fonts/glyphicons/glyphicons-halflings-regular.ttf'',
       ''/static/bootstrap4-glyphicons/fonts/glyphicons/glyphicons-halflings-regular.woff'',
       ''/static/bootstrap4-glyphicons/fonts/glyphicons/glyphicons-halflings-regular.woff2'']),
     (''/static/bootstrap4-glyphicons/maps'',
      [''/static/bootstrap4-glyphicons/maps/glyphicons-fontawesome.css'',
       ''/static/bootstrap4-glyphicons/maps/glyphicons-fontawesome.less'',
       ''/static/bootstrap4-glyphicons/maps/glyphicons-fontawesome.min.css''])]"

definition assetTable :: asset_table where
  "assetTable = assetsBootstrapCss @ assetsBootstrapJs @ assetsFonts @ assetsRest"

section \<open>Checking the table\<close>

definition basename :: "string \<Rightarrow> string" where
  "basename p = (if p = ''/'' then p else rev (takeWhile (\<lambda>c. c \<noteq> CHR ''/'') (rev p)))"

definition parentPath :: "string \<Rightarrow> string" where
  "parentPath p = (let d = rev (drop 1 (dropWhile (\<lambda>c. c \<noteq> CHR ''/'') (rev p))) in if d = '''' then ''/'' else d)"

lemma table_paths_clean: "list_all (\<lambda>row. CleanRooted (fst row) = fst row) assetTable"
  by code_simp

lemma table_names: "list_all (\<lambda>row. basename (fst row) = fst (snd row)) assetTable"
  by code_simp

text \<open>The paths ascend strictly, so none occurs twice.\<close>

lemma table_ascending: "successively (<) (map fst assetTable)"
  by code_simp

lemma table_distinct: "distinct (map fst assetTable)"
proof -
  have "sorted_wrt (<) (map fst assetTable)"
    using table_ascending by (simp add: successively_conv_sorted_wrt transp_on_less)
  then show ?thesis by (simp add: strict_sorted_iff)
qed

lemma entries_dirs:
  "map fst assetEntries = map fst (filter (\<lambda>row. case snd (snd (snd row)) of AssetDir \<Rightarrow> True | _ \<Rightarrow> False) assetTable)"
  by code_simp

lemma entries_children:
  "list_all (\<lambda>d. snd d = filter (\<lambda>p. p \<noteq> ''/'' \<and> parentPath p = fst d) (map fst assetTable)) assetEntries"
  by code_simp

lemma entries_distinct: "distinct (map fst assetEntries)"
proof -
  have "distinct (map fst (filter P assetTable))" for P
    using table_distinct by (rule distinct_map_filter)
  then show ?thesis by (simp only: entries_dirs)
qed

end
