(* ===== verification/AssetTree.thy ===== *)
theory AssetTree
  imports AssetTable
begin

text \<open>
  The value \<open>Assets\<close> of asset/assets\_vfsdata.go, built from the declared table the way the initialiser builds
  it, and what its well-formedness means for a client that opens what it finds listed.  The embedded bytes
  of each path are an argument.
\<close>

section \<open>The file system value\<close>

definition assetNode :: "(string \<Rightarrow> string) \<Rightarrow> string \<times> string \<times> gotime \<times> asset_kind \<Rightarrow> string \<times> fs_node" where
  "assetNode embedded row =
     (case row of (path, name, modTime, kind) \<Rightarrow>
        (path, case kind of
           AssetDir \<Rightarrow> DirNode \<lparr>dName = name, dModTime = modTime, dEntries = []\<rparr>
         | AssetGz sz \<Rightarrow> CompressedNode \<lparr>cName = name, cModTime = modTime,
             compressedContent = embedded path, uncompressedSize = sz\<rparr>
         | AssetRaw \<Rightarrow> FileNode \<lparr>fName = name, fModTime = modTime, fContent = embedded path\<rparr>))"

text \<open>One of the assignments that follow the literal, to a directory node.\<close>

definition setEntries :: "asset_fs \<Rightarrow> string \<times> string list \<Rightarrow> asset_fs" where
  "setEntries fs d =
     (case fs (fst d) of
        Some (DirNode i) \<Rightarrow> fs(fst d \<mapsto> DirNode (i\<lparr>dEntries := snd d\<rparr>))
      | _ \<Rightarrow> fs)"

definition Assets :: "(string \<Rightarrow> string) \<Rightarrow> asset_fs" where
  "Assets embedded = foldl setEntries (map_of (map (assetNode embedded) assetTable)) assetEntries"

section \<open>The nodes of the tree\<close>

lemma setEntries_foldl:
  assumes "distinct (map fst ds)"
  shows "foldl setEntries fs ds p =
    (case fs p of
       Some (DirNode i) \<Rightarrow> Some (DirNode (case map_of ds p of None \<Rightarrow> i | Some es \<Rightarrow> i\<lparr>dEntries := es\<rparr>))
     | x \<Rightarrow> x)"
  using assms
proof (induction ds arbitrary: fs)
  case Nil
  then show ?case by (simp split: option.split fs_node.split)
next
  case (Cons d ds)
  have "map_of ds (fst d) = None" using Cons.prems by (simp add: map_of_eq_None_iff)
  then show ?case using Cons
    by (cases d) (auto simp: setEntries_def split: option.splits fs_node.splits)
qed

lemma map_of_assetNode:
  "map_of (map (assetNode embedded) rows) p = map_option (\<lambda>x. snd (assetNode embedded (p, x))) (map_of rows p)"
  by (induction rows) (auto simp: assetNode_def split: prod.splits)

lemma Assets_lookup:
  "Assets embedded p =
    (case map_of assetTable p of
       None \<Rightarrow> None
     | Some (name, modTime, kind) \<Rightarrow> Some (case kind of
           AssetDir \<Rightarrow> DirNode \<lparr>dName = name, dModTime = modTime,
             dEntries = (case map_of assetEntries p of None \<Rightarrow> [] | Some es \<Rightarrow> es)\<rparr>
         | AssetGz sz \<Rightarrow> CompressedNode \<lparr>cName = name, cModTime = modTime,
             compressedContent = embedded p, uncompressedSize = sz\<rparr>
         | AssetRaw \<Rightarrow> FileNode \<lparr>fName = name, fModTime = modTime, fContent = embedded p\<rparr>))"
  unfolding Assets_def setEntries_foldl [OF entries_distinct] map_of_assetNode
  by (auto simp: assetNode_def split: option.split asset_kind.split)

lemma Assets_dom: "Assets embedded p \<noteq> None \<longleftrightarrow> p \<in> set (map fst assetTable)"
  by (auto simp: Assets_lookup map_of_eq_None_iff split: option.splits dest: map_of_SomeD) (metis map_of_eq_None_iff option.distinct(1))

text \<open>Every directory is listed, with the paths of which it is the parent.\<close>

lemma entries_of_dir:
  assumes "map_of assetTable p = Some (name, modTime, AssetDir)"
  shows "map_of assetEntries p = Some (filter (\<lambda>q. q \<noteq> ''/'' \<and> parentPath q = p) (map fst assetTable))"
proof -
  have "(p, name, modTime, AssetDir) \<in> set assetTable" using assms by (rule map_of_SomeD)
  then have "p \<in> set (map fst assetEntries)" unfolding entries_dirs by force
  then obtain es where es: "(p, es) \<in> set assetEntries" by auto
  then have "es = filter (\<lambda>q. q \<noteq> ''/'' \<and> parentPath q = p) (map fst assetTable)"
    using entries_children unfolding list_all_iff by force
  then show ?thesis using es entries_distinct by simp
qed

lemma asset_tree_node:
  assumes "Assets embedded p = Some node"
  shows "CleanRooted p = p" "nodeName node = basename p"
proof -
  obtain name modTime kind where row: "map_of assetTable p = Some (name, modTime, kind)"
    using assms by (auto simp: Assets_lookup split: option.splits)
  then have mem: "(p, name, modTime, kind) \<in> set assetTable" by (rule map_of_SomeD)
  have "basename p = name" using mem table_names unfolding list_all_iff by force
  then show "nodeName node = basename p" using assms row by (auto simp: Assets_lookup split: asset_kind.splits)
  show "CleanRooted p = p" using mem table_paths_clean unfolding list_all_iff by force
qed

lemma asset_tree_node_entries:
  assumes "Assets embedded p = Some (DirNode i)"
  shows "set (dEntries i) = {q. q \<noteq> ''/'' \<and> parentPath q = p \<and> Assets embedded q \<noteq> None}"
    and "successively (<) (dEntries i)"
proof -
  obtain name modTime where row: "map_of assetTable p = Some (name, modTime, AssetDir)"
    using assms by (auto simp: Assets_lookup split: option.splits asset_kind.splits)
  then have eq: "dEntries i = filter (\<lambda>q. q \<noteq> ''/'' \<and> parentPath q = p) (map fst assetTable)"
    using assms entries_of_dir [of p name modTime] by (auto simp: Assets_lookup)
  then show "set (dEntries i) = {q. q \<noteq> ''/'' \<and> parentPath q = p \<and> Assets embedded q \<noteq> None}"
    unfolding eq set_filter Assets_dom by blast
  have "sorted_wrt (<) (map fst assetTable)"
    using table_ascending by (simp add: successively_conv_sorted_wrt transp_on_less)
  then have "sorted_wrt (<) (dEntries i)" unfolding eq by (rule sorted_wrt_filter)
  then show "successively (<) (dEntries i)" by (simp add: successively_conv_sorted_wrt transp_on_less)
qed

section \<open>Properties\<close>

text \<open>
  C25. The embedded tree is well-formed: every node stands under a clean path, carries the last component of
  this path as its name, and the entries of a directory are exactly the paths of the tree that have
  it as their parent, in ascending order.
\<close>

theorem asset_tree_wellformed:
  assumes "Assets embedded p = Some node"
  shows "CleanRooted p = p \<and> nodeName node = basename p \<and>
    (\<forall>i. node = DirNode i \<longrightarrow> successively (<) (dEntries i) \<and>
      set (dEntries i) = {q. q \<noteq> ''/'' \<and> parentPath q = p \<and> Assets embedded q \<noteq> None})"
  using asset_tree_node [OF assms] asset_tree_node_entries [of embedded p] assms by auto

theorem asset_tree_wellformed_witness:
  "\<exists>node. Assets (\<lambda>p. '''') ''/static/functions.js'' = Some node \<and> nodeName node = basename ''/static/functions.js''"
proof -
  have "''/static/functions.js'' \<in> set (map fst assetTable)" by (simp add: assetTable_def assetsRest_def)
  then obtain node where "Assets (\<lambda>p. '''') ''/static/functions.js'' = Some node" using Assets_dom by blast
  from asset_tree_wellformed [OF this] this show ?thesis by blast
qed

end
