(* ===== verification/AssetProps.thy ===== *)
theory AssetProps
  imports AssetTree
begin

text \<open>
  What a client of the embedded assets gets: reading a compressed file is reading its content, a directory
  listed in batches is listed once, a listed path opens; and a sequence of seeks and reads after
  which a compressed file delivers nothing although it should.
\<close>

section \<open>Opening\<close>

lemma openCompressed_inv:
  assumes "gz_ok lib" "gunzip lib (compressedContent i) = Inr plain" "uncompressedSize i = int (length plain)"
    and "int64 (int (length plain))"
  shows "compressed_inv lib plain (openCompressed i plain)"
  using assms by (simp add: compressed_inv_def openCompressed_def inRange_def)

lemma openCompressed_pos [simp]: "seekPos (openCompressed i plain) = 0"
  by (simp add: openCompressed_def)

text \<open>What is listed opens, under the name listed.\<close>

lemma listed_assets_open:
  assumes "\<forall>q. \<exists>plain. gunzip lib (embedded q) = Inr plain"
    and "Assets embedded d = Some (DirNode i)" "q \<in> set (dEntries i)"
  shows "\<exists>f. OpenAsset lib (Assets embedded) q = Some (Inr f) \<and> nodeName (fileStat f) = basename q"
proof -
  have "Assets embedded q \<noteq> None"
    using asset_tree_node_entries [OF assms(2)] assms(3) by blast
  then obtain node where node: "Assets embedded q = Some node" by blast
  note wf = asset_tree_node [OF node]
  have "CleanRooted (''/'' @ q) = q" using wf(1) by (simp add: CleanRooted_slash)
  moreover have "\<exists>plain. gunzip lib (compressedContent c) = Inr plain" if "node = CompressedNode c" for c
    using that node assms(1) by (auto simp: Assets_lookup split: option.splits asset_kind.splits)
  ultimately have "\<exists>f. OpenAsset lib (Assets embedded) q = Some (Inr f)"
    using node by (cases node) (auto simp: OpenAsset_def Let_def)
  then obtain f where f: "OpenAsset lib (Assets embedded) q = Some (Inr f)" ..
  then have "fileStat f = node" using OpenAsset_found [OF f] wf(1) node by simp
  then show ?thesis using f wf(2) by blast
qed

text \<open>Reading an opened compressed file to its end.\<close>

lemma ReadAll_opened:
  "ReadAll (fileRead gz) ks (OpenedCompressed f) = ReadAll (CompressedRead gz) ks f"
  by (induction ks arbitrary: f) (auto split: prod.split option.split io_err.split)

text \<open>A server may send \<open>GzipBytes\<close> in place of the content: they unpack to what reading the file would give.\<close>

lemma GzipBytes_serves:
  assumes "gz_ok lib" "OpenAsset lib fs name = Some (Inr f)" "GzipBytes (fileStat f) = Some z"
    and "nodeSize (fileStat f) = int (length plain)" "int64 (int (length plain))" "gunzip lib z = Inr plain"
    and "list_all (\<lambda>k. 0 < k) ks" "length plain < length ks"
  shows "ReadAll (fileRead lib) ks f = Some (Inr plain)"
proof -
  obtain i where i: "f = OpenedCompressed (openCompressed i plain)" "compressedContent i = z" "uncompressedSize i = int (length plain)"
    using assms(2-4,6) by (auto simp: OpenAsset_def Let_def openCompressed_def split: option.splits fs_node.splits sum.splits)
  have "compressed_inv lib plain (openCompressed i plain)"
    using assms(1,5,6) i by (intro openCompressed_inv) simp_all
  then show ?thesis
    using compressed.ReadAll_rest [of lib plain "openCompressed i plain" ks] assms(7,8) by (simp add: i(1) ReadAll_opened)
qed

section \<open>Listing a directory in batches\<close>

lemma Readdir_step:
  assumes "Readdir cnt d = (d', es, False)" "0 < cnt"
  shows "odPos d < int (length (dEntries (odInfo d)))"
    and "odInfo d' = odInfo d" "odPos d' = odPos d + min cnt (int (length (dEntries (odInfo d))) - odPos d)"
    and "es = take (nat (min cnt (int (length (dEntries (odInfo d))) - odPos d))) (drop (nat (odPos d)) (dEntries (odInfo d)))"
  using assms by (auto simp: Readdir_def Let_def min_def split: if_splits)

text \<open>A client that asks for batches until the end is reported; a count that is not positive gives all at once.\<close>

function listBatches :: "int \<Rightarrow> OpenDir \<Rightarrow> string list list" where
  "listBatches cnt d =
     (case Readdir cnt d of
        (d', es, eof) \<Rightarrow> if eof then [] else if cnt \<le> 0 then [es] else es # listBatches cnt d')"
  by pat_completeness auto

termination
  by (relation "measure (\<lambda>(cnt, d). nat (int (length (dEntries (odInfo d))) - odPos d))")
    (auto simp: Readdir_def Let_def split: if_splits)

declare listBatches.simps [simp del]

lemma Readdir_end: "Readdir cnt d = (d', es, True) \<Longrightarrow> int (length (dEntries (odInfo d))) \<le> odPos d"
  by (auto simp: Readdir_def Let_def split: if_splits)

section \<open>Properties\<close>

text \<open>
  Listing a directory in batches of any positive length ends, and the batches, none of them empty or too long,
  are together the entries from the position on, in order.
\<close>

lemma readdir_lists_all:
  assumes "0 \<le> odPos d" "odPos d \<le> int (length (dEntries (odInfo d)))" "0 < cnt"
  shows "concat (listBatches cnt d) = drop (nat (odPos d)) (dEntries (odInfo d)) \<and>
    list_all (\<lambda>es. es \<noteq> [] \<and> int (length es) \<le> cnt) (listBatches cnt d)"
  using assms
proof (induction cnt d rule: listBatches.induct)
  case (1 cnt d)
  obtain d' es eof where r: "Readdir cnt d = (d', es, eof)" by (cases "Readdir cnt d") auto
  show ?case
  proof (cases eof)
    case True
    then show ?thesis using r Readdir_end [of cnt d d' es] by (simp add: listBatches.simps [of cnt d])
  next
    case False
    let ?entries = "dEntries (odInfo d)"
    have r': "Readdir cnt d = (d', es, False)" using r False by simp
    note step = Readdir_step [OF r' 1(4)]
    define n where "n = min cnt (int (length ?entries) - odPos d)"
    have n: "0 < n" "odPos d + n \<le> int (length ?entries)" "n \<le> cnt" using step(1) 1(4) by (simp_all add: n_def)
    have es: "es = take (nat n) (drop (nat (odPos d)) ?entries)" using step(4) by (simp add: n_def)
    have pos': "odPos d' = odPos d + n" using step(3) by (simp add: n_def)
    have len: "int (length es) = n" using n 1(2) by (simp add: es)
    have "nat (odPos d') = nat n + nat (odPos d)" using pos' n(1) 1(2) by (simp add: nat_add_distrib)
    then have "es @ drop (nat (odPos d')) ?entries = drop (nat (odPos d)) ?entries"
      unfolding es by (metis append_take_drop_id drop_drop)
    moreover have "concat (listBatches cnt d') = drop (nat (odPos d')) (dEntries (odInfo d')) \<and>
        list_all (\<lambda>es. es \<noteq> [] \<and> int (length es) \<le> cnt) (listBatches cnt d')"
      using 1(1) [OF r [symmetric] refl False] 1(2,4) step(2) pos' n by simp
    moreover have "listBatches cnt d = es # listBatches cnt d'"
      using r False 1(4) by (simp add: listBatches.simps [of cnt d])
    moreover have "es \<noteq> [] \<and> int (length es) \<le> cnt" using len n(1,3) by auto
    ultimately show ?thesis using step(2) by simp
  qed
qed

text \<open>
  C21. A compressed file behaves like its uncompressed content with one position, whatever portions the
  decompressor delivers: as long as every seek ends within the content, each read returns the bytes at
  the position and moves it, and reading on until the end gives exactly the rest.
\<close>

theorem compressed_file_refines_content:
  assumes "gz_ok lib" "gunzip lib (compressedContent i) = Inr plain" "uncompressedSize i = int (length plain)"
    and "int64 (int (length plain))"
    and "runOps (CompressedRead lib) CompressedSeek ops (openCompressed i plain) = Some (f, outs)"
    and "seeks_int64 ops" "\<forall>p. OutSeek p \<in> set outs \<longrightarrow> inRange plain p"
  shows "specRun plain 0 ops outs = Some (seekPos f) \<and>
    (\<forall>ks. list_all (\<lambda>k. 0 < k) ks \<longrightarrow> length plain < length ks \<longrightarrow>
       ReadAll (CompressedRead lib) ks f = Some (Inr (drop (nat (seekPos f)) plain)))"
proof -
  have run: "compressed_inv lib plain f \<and> specRun plain 0 ops outs = Some (seekPos f)"
    using compressed.run_conforms [OF openCompressed_inv [OF assms(1-4)] assms(5,6)] assms(7) by simp
  then show ?thesis by (simp add: compressed.ReadAll_rest)
qed

definition plain_gz :: gz_lib where
  "plain_gz = \<lparr>gunzip = Inr, gzChunk = (\<lambda>rest k. (min k (length rest), length rest \<le> k))\<rparr>"

lemma plain_gz_ok: "gz_ok plain_gz"
  by (simp add: gz_ok_def plain_gz_def min_def)

definition sample_info :: CompressedFileInfo where
  "sample_info = \<lparr>cName = ''f'', cModTime = 0, compressedContent = ''hello'', uncompressedSize = 5\<rparr>"

theorem compressed_file_refines_content_witness:
  "\<exists>f outs. runOps (CompressedRead plain_gz) CompressedSeek [OpSeek 3 0, OpRead 2, OpSeek 1 0] (openCompressed sample_info ''hello'') = Some (f, outs) \<and>
     ReadAll (CompressedRead plain_gz) [1, 1, 1, 1, 1, 1] f = Some (Inr ''ello'')"
proof -
  let ?r = "runOps (CompressedRead plain_gz) CompressedSeek [OpSeek 3 0, OpRead 2, OpSeek 1 0] (openCompressed sample_info ''hello'')"
  have w: "wrap64 n = n" if "0 \<le> n" "n \<le> 5" for n using that by (intro wrap64_int64) (simp add: int64_def)
  obtain f outs where r: "?r = Some (f, outs)" and f: "seekPos f = 1" and outs: "outs = [OutSeek 3, OutRead ''lo'' (Some EOF), OutSeek 1]"
    by (simp add: openCompressed_def CompressedSeek_def CompressedRead_def CopyN_def plain_gz_def sample_info_def w Let_def)
  have hyp: "gunzip plain_gz (compressedContent sample_info) = Inr ''hello''"
    "uncompressedSize sample_info = int (length ''hello'')" "int64 (int (length ''hello''))"
    "seeks_int64 [OpSeek 3 0, OpRead 2, OpSeek 1 0]" "\<forall>p. OutSeek p \<in> set outs \<longrightarrow> inRange ''hello'' p"
    using outs by (simp_all add: plain_gz_def sample_info_def int64_def seeks_int64_def inRange_def)
  have "\<forall>ks. list_all (\<lambda>k. 0 < k) ks \<longrightarrow> length ''hello'' < length ks \<longrightarrow>
      ReadAll (CompressedRead plain_gz) ks f = Some (Inr (drop (nat (seekPos f)) ''hello''))"
    using compressed_file_refines_content [OF plain_gz_ok hyp(1-3) r hyp(4,5)] by (rule conjunct2)
  from this [rule_format, of "[1, 1, 1, 1, 1, 1]"]
  have "ReadAll (CompressedRead plain_gz) [1, 1, 1, 1, 1, 1] f = Some (Inr (drop (nat (seekPos f)) ''hello''))"
    by (simp del: ReadAll.simps)
  then show ?thesis using r f by auto
qed

text \<open>
  A read after a seek beyond the end uses up the decompressor without noting it, and then even a seek back to
  the start does not help: the file, though not empty, reads as if it were.
\<close>

lemma seek_past_end_spoils_file:
  assumes "gz_ok lib" "int64 (int (length plain) + 1)" "0 < k"
  shows "\<exists>f1 f2 f3. CompressedSeek (int (length plain) + 1) 0 (openCompressed i plain) = Some (f1, int (length plain) + 1) \<and>
    CompressedRead lib k f1 = (f2, '''', Some EOF) \<and>
    CompressedSeek 0 0 f2 = Some (f3, 0) \<and>
    snd (CompressedRead lib k f3) = ('''', Some EOF)"
proof -
  let ?n = "int (length plain) + 1"
  let ?f1 = "(openCompressed i plain)\<lparr>seekPos := ?n\<rparr>"
  let ?f2 = "?f1\<lparr>cfRest := ''''\<rparr>"
  let ?f3 = "?f2\<lparr>seekPos := 0\<rparr>"
  have n: "wrap64 ?n = ?n" "wrap64 0 = 0" using assms(2) by (simp_all add: wrap64_int64 int64_def)
  have "case gzChunk lib '''' k of (m, eof) \<Rightarrow> m = 0 \<and> eof"
    using assms(1,3) unfolding gz_ok_def by (fastforce split: prod.splits)
  then have "snd (CompressedRead lib k ?f3) = ('''', Some EOF)"
    by (auto simp: CompressedRead_def openCompressed_def Let_def split: prod.split)
  moreover have "CompressedSeek ?n 0 (openCompressed i plain) = Some (?f1, ?n)"
    using n by (simp add: CompressedSeek_def openCompressed_def)
  moreover have "CompressedRead lib k ?f1 = (?f2, '''', Some EOF)"
    using n by (simp add: CompressedRead_def openCompressed_def CopyN_def)
  moreover have "CompressedSeek 0 0 ?f2 = Some (?f3, 0)" using n by (simp add: CompressedSeek_def)
  ultimately show ?thesis by blast
qed

end
