(* ===== verification/StatusPage.thy ===== *)
theory StatusPage
  imports StoreProps UrlLabels HistApi Instrumentation AssetProps
begin

text \<open>
  The status page: handler/status.go.  The handler opens and reads the template at every request, parses it, and
  executes it on the data of the page with the functions defined here.  The template engine, HTML
  escaping and the printing of numbers, times, histograms and quoted strings are library code.  The captured variable
  \<open>pathPrefix\<close> is state: a request overwrites an empty one.
\<close>

section \<open>Page data\<close>

record status_data =
  sdMetricGroups :: GroupingKeyToMetricGroup
  sdFlags :: labels
  sdBuildInfo :: labels
  sdBirth :: gotime
  sdPathPrefix :: string
  sdCounter :: int

text \<open>\<open>Count\<close> numbers the elements of the page.\<close>

definition Count :: "status_data \<Rightarrow> status_data \<times> int" where
  "Count d = (d\<lparr>sdCounter := sdCounter d + 1\<rparr>, sdCounter d + 1)"

text \<open>The seconds and nanoseconds of a timestamp in milliseconds; Go's \<open>/\<close> and \<open>%\<close> truncate towards zero.\<close>

definition FormatTimestamp :: "int \<Rightarrow> int \<times> int" where
  "FormatTimestamp ts = (sgn ts * (\<bar>ts\<bar> div 1000), wrap64 (sgn ts * (\<bar>ts\<bar> mod 1000) * 1000000))"

section \<open>Template functions\<close>

record template_funcs =
  fnValue :: "float64 \<Rightarrow> string"
  fnTimeFormat :: "gotime \<Rightarrow> string"
  fnBase64 :: "string \<Rightarrow> string"
  fnFormatHistogram :: "Histogram \<Rightarrow> string option"
  fnAdd :: "64 word \<Rightarrow> 64 word \<Rightarrow> 64 word"
  fnFormatLabelName :: "string \<Rightarrow> string"

record 't template_lib =
  tplParse :: "string \<Rightarrow> string + 't"
  tplExecute :: "'t \<Rightarrow> template_funcs \<Rightarrow> status_data \<Rightarrow> string \<times> string option"
  EscapeString :: "string \<Rightarrow> string"
  FormatFloat :: "float64 \<Rightarrow> string"
  FormatRFC3339 :: "gotime \<Rightarrow> string"
  Quote :: "string \<Rightarrow> string"
  IntHistString :: "ModelHistogram \<Rightarrow> string option"
  FloatHistString :: "FloatHistogram \<Rightarrow> string option"

text \<open>
  Printing a histogram panics (\<open>None\<close>) where its iterators do; the template engine turns that into an error of the
  execution.  The two results of \<open>NewModelHistogram\<close> are never both nil, so the last case does not arise.
\<close>

definition formatHistogram :: "'t template_lib \<Rightarrow> Histogram \<Rightarrow> string option" where
  "formatHistogram lib m =
     (case NewModelHistogram m of
        (Some h, _) \<Rightarrow> IntHistString lib h
      | (None, Some fh) \<Rightarrow> FloatHistString lib fh
      | (None, None) \<Rightarrow> None)"

definition formatLabelName :: "'t template_lib \<Rightarrow> label_syntax \<Rightarrow> string \<Rightarrow> string" where
  "formatLabelName lib syn s = (if \<not> IsValidLabelName syn s then Quote lib s else s)"

definition statusFuncs :: "'t template_lib \<Rightarrow> label_syntax \<Rightarrow> template_funcs" where
  "statusFuncs lib syn =
     \<lparr>fnValue = FormatFloat lib, fnTimeFormat = FormatRFC3339 lib, fnBase64 = encodeBase64,
      fnFormatHistogram = formatHistogram lib, fnAdd = (\<lambda>x y. x + y), fnFormatLabelName = formatLabelName lib syn\<rparr>"

section \<open>The handler\<close>

text \<open>The file system: \<open>Open\<close>, which may panic, and \<open>io.ReadAll\<close> on the opened file.\<close>

record 'f http_fs =
  fsOpen :: "string \<Rightarrow> (string + 'f) option"
  fsReadAll :: "'f \<Rightarrow> string + string"

record status_config =
  scSyntax :: label_syntax
  scFlags :: labels
  scBuildInfo :: labels
  scBirth :: gotime

definition errorDiv :: "string \<Rightarrow> string" where
  "errorDiv msg = ''<div id=\"template-error\" class=\"alert alert-danger\">Error executing template: '' @ msg @ ''</div>''"

definition errorScript :: string where
  "errorScript = ''<script>$(\"#template-error\").prependTo(\"body\")</script>'' @ [CHR 0x0A]"

text \<open>The response, and the captured path prefix afterwards; \<open>None\<close> if \<open>Open\<close> panics.\<close>

definition StatusHandler ::
  "'t template_lib \<Rightarrow> 'f http_fs \<Rightarrow> status_config \<Rightarrow> DiskMetricStore \<Rightarrow> string \<Rightarrow> writer \<Rightarrow> (writer \<times> string) option" where
  "StatusHandler lib fs cfg dms pathPrefix w =
     (case fsOpen fs ''template.html'' of
        None \<Rightarrow> None
      | Some (Inl err) \<Rightarrow> Some (HttpError err 500 w, pathPrefix)
      | Some (Inr f) \<Rightarrow>
          (case fsReadAll fs f of
             Inl err \<Rightarrow> Some (HttpError err 500 w, pathPrefix)
           | Inr tpl \<Rightarrow>
               (case tplParse lib tpl of
                  Inl err \<Rightarrow> Some (HttpError err 500 w, pathPrefix)
                | Inr t \<Rightarrow>
                    (let pathPrefix' = (if pathPrefix = '''' then ''.'' else pathPrefix);
                         d = \<lparr>sdMetricGroups = GetMetricFamiliesMap dms, sdFlags = scFlags cfg,
                              sdBuildInfo = scBuildInfo cfg, sdBirth = scBirth cfg, sdPathPrefix = pathPrefix', sdCounter = 0\<rparr>
                     in case tplExecute lib t (statusFuncs lib (scSyntax cfg)) d of
                          (out, None) \<Rightarrow> Some (WriteBody out w, pathPrefix')
                        | (out, Some err) \<Rightarrow>
                            Some (WriteBody errorScript (WriteBody (errorDiv (EscapeString lib err)) (WriteBody out w)), pathPrefix')))))"

section \<open>The embedded assets as the file system\<close>

definition embeddedOpen :: "gz_lib \<Rightarrow> (string \<Rightarrow> string) \<Rightarrow> string \<Rightarrow> (string + open_file) option" where
  "embeddedOpen gz embedded name =
     (case OpenAsset gz (Assets embedded) name of
        None \<Rightarrow> None
      | Some (Inl path) \<Rightarrow> Some (Inl (''open '' @ path @ '': file does not exist''))
      | Some (Inr f) \<Rightarrow> Some (Inr f))"

section \<open>Lemmas\<close>

text \<open>What a request finds when it loads the template: a failure with its message, or the parsed template.\<close>

definition loadTemplate :: "'t template_lib \<Rightarrow> 'f http_fs \<Rightarrow> (string + 't) option" where
  "loadTemplate lib fs =
     map_option (\<lambda>r. case r of Inl err \<Rightarrow> Inl err | Inr f \<Rightarrow> (case fsReadAll fs f of Inl err \<Rightarrow> Inl err | Inr tpl \<Rightarrow> tplParse lib tpl))
       (fsOpen fs ''template.html'')"

definition pageData :: "status_config \<Rightarrow> DiskMetricStore \<Rightarrow> string \<Rightarrow> status_data" where
  "pageData cfg dms pre =
     \<lparr>sdMetricGroups = metricGroups dms, sdFlags = scFlags cfg, sdBuildInfo = scBuildInfo cfg, sdBirth = scBirth cfg,
      sdPathPrefix = (if pre = '''' then ''.'' else pre), sdCounter = 0\<rparr>"

lemma StatusHandler_cases:
  "StatusHandler lib fs cfg dms pre w =
     (case loadTemplate lib fs of
        None \<Rightarrow> None
      | Some (Inl err) \<Rightarrow> Some (HttpError err 500 w, pre)
      | Some (Inr t) \<Rightarrow> Some
          (case tplExecute lib t (statusFuncs lib (scSyntax cfg)) (pageData cfg dms pre) of
             (out, None) \<Rightarrow> WriteBody out w
           | (out, Some err) \<Rightarrow> WriteBody errorScript (WriteBody (errorDiv (EscapeString lib err)) (WriteBody out w)),
           if pre = '''' then ''.'' else pre))"
  by (simp add: StatusHandler_def loadTemplate_def pageData_def Let_def split: option.split sum.split prod.split)

text \<open>The embedded template is found and read as it is, whatever its bytes.\<close>

lemma template_row: "map_of assetTable ''/template.html'' = Some (''template.html'', timeDateUTC 2024 12 12 17 58 32 569250159, AssetGz 11340)"
proof -
  have "(''/template.html'', ''template.html'', timeDateUTC 2024 12 12 17 58 32 569250159, AssetGz 11340) \<in> set assetTable"
    unfolding assetTable_def assetsRest_def by simp
  then show ?thesis using table_distinct by simp
qed

lemma embedded_template_opens:
  assumes "gunzip gz (embedded ''/template.html'') = Inr plain"
  shows "\<exists>i. embeddedOpen gz embedded ''template.html'' = Some (Inr (OpenedCompressed (openCompressed i plain))) \<and>
    compressedContent i = embedded ''/template.html'' \<and> uncompressedSize i = 11340"
proof -
  have clean: "CleanRooted ''/template.html'' = ''/template.html''"
    using table_paths_clean map_of_SomeD [OF template_row] unfolding list_all_iff by force
  let ?i = "\<lparr>cName = ''template.html'', cModTime = timeDateUTC 2024 12 12 17 58 32 569250159,
    compressedContent = embedded ''/template.html'', uncompressedSize = 11340\<rparr>"
  show ?thesis using assms
    by (intro exI [of _ ?i]) (simp add: embeddedOpen_def OpenAsset_def Let_def clean Assets_lookup template_row)
qed

section \<open>Properties\<close>

text \<open>
  C32. The status page is answered with 500 and the message if the template cannot be opened, read or parsed;
  otherwise with 200, the output of the template on the current groups, and, if executing it fails, the
  escaped error after what was written.
\<close>

theorem status_page_outcome:
  assumes "StatusHandler lib fs cfg dms pre newWriter = Some (w, pre')"
  shows "case loadTemplate lib fs of
      Some (Inl err) \<Rightarrow> sentStatus w = 500 \<and> wBody w = err @ [CHR 0x0A] \<and> pre' = pre
    | Some (Inr t) \<Rightarrow> sentStatus w = 200 \<and> sdMetricGroups (pageData cfg dms pre) = metricGroups dms \<and>
        (case tplExecute lib t (statusFuncs lib (scSyntax cfg)) (pageData cfg dms pre) of
           (out, None) \<Rightarrow> wBody w = out
         | (out, Some err) \<Rightarrow> wBody w = out @ errorDiv (EscapeString lib err) @ errorScript)
    | None \<Rightarrow> False"
  using assms unfolding StatusHandler_cases
  by (auto simp: pageData_def split: option.splits sum.splits prod.splits)

definition sample_template :: "string template_lib" where
  "sample_template = \<lparr>tplParse = (\<lambda>s. if s = '''' then Inl ''empty'' else Inr s), tplExecute = (\<lambda>t fs d. (t @ sdPathPrefix d, None)),
     EscapeString = id, FormatFloat = (\<lambda>x. ''0''), FormatRFC3339 = (\<lambda>t. ''t''), Quote = id,
     IntHistString = (\<lambda>h. Some ''h''), FloatHistString = (\<lambda>h. Some ''h'')\<rparr>"

definition sample_fs :: "string http_fs" where
  "sample_fs = \<lparr>fsOpen = (\<lambda>n. Some (Inr ''page'')), fsReadAll = Inr\<rparr>"

definition sample_status :: status_config where
  "sample_status = \<lparr>scSyntax = \<lparr>UnescapeName = id, IsValidLabelName = (\<lambda>n. n \<noteq> [])\<rparr>, scFlags = fmempty, scBuildInfo = fmempty, scBirth = 0\<rparr>"

theorem status_page_outcome_witness:
  "\<exists>w. StatusHandler sample_template sample_fs sample_status empty_store '''' newWriter = Some (w, ''.'') \<and>
     sentStatus w = 200 \<and> wBody w = ''page.''"
proof -
  have "StatusHandler sample_template sample_fs sample_status empty_store '''' newWriter = Some (WriteBody ''page.'' newWriter, ''.'')"
    by (simp add: StatusHandler_cases loadTemplate_def sample_template_def sample_fs_def pageData_def)
  from status_page_outcome [OF this] this show ?thesis
    by (simp add: loadTemplate_def sample_template_def sample_fs_def pageData_def)
qed

text \<open>
  Whatever path prefix is configured, all requests see the same page: that an empty prefix is overwritten by
  the first request changes nothing for those that follow.
\<close>

lemma status_page_stable:
  "case StatusHandler lib fs cfg dms pre w0 of
     Some (w, pre') \<Rightarrow> map_option fst (StatusHandler lib fs cfg dms pre' w0) = Some w
   | None \<Rightarrow> StatusHandler lib fs cfg dms pre w0 = None"
  unfolding StatusHandler_cases
  by (simp add: pageData_def split: option.split sum.split prod.split)

text \<open>
  The page is rendered from the embedded template: if the embedded bytes unpack to a template of the declared
  size, opening and reading the file gives it whole, in whatever portions it is read.
\<close>

lemma embedded_template_is_loaded:
  assumes "gz_ok gz" "gunzip gz (embedded ''/template.html'') = Inr plain" "length plain = 11340"
    and "list_all (\<lambda>k. 0 < k) bufs" "length plain < length bufs"
    and "fsOpen fs = embeddedOpen gz embedded" "\<forall>f r. ReadAll (fileRead gz) bufs f = Some r \<longrightarrow> fsReadAll fs f = r"
  shows "loadTemplate lib fs = Some (tplParse lib plain)"
proof -
  obtain i where i: "embeddedOpen gz embedded ''template.html'' = Some (Inr (OpenedCompressed (openCompressed i plain)))"
    "compressedContent i = embedded ''/template.html''" "uncompressedSize i = 11340"
    using embedded_template_opens [of gz embedded plain] assms(2) by blast
  have "compressed_inv gz plain (openCompressed i plain)"
    using assms(1-3) i(2,3) by (intro openCompressed_inv) (simp_all add: int64_def)
  then have "ReadAll (CompressedRead gz) bufs (openCompressed i plain) = Some (Inr (drop (nat (seekPos (openCompressed i plain))) plain))"
    using assms(4,5) by (intro compressed.ReadAll_rest) simp_all
  then have "fsReadAll fs (OpenedCompressed (openCompressed i plain)) = Inr plain"
    using assms(7) by (simp add: ReadAll_opened)
  then show ?thesis using i(1) assms(6) by (simp add: loadTemplate_def)
qed

text \<open>
  C40. The conversion of a millisecond timestamp is exact for every 64-bit value: the seconds and nanoseconds it
  gives are in range, have the sign of the timestamp and together are the same instant.
\<close>

theorem FormatTimestamp_bounds:
  assumes "int64 ts"
  shows "case FormatTimestamp ts of (sec, nsec) \<Rightarrow>
    int64 sec \<and> \<bar>nsec\<bar> < 1000000000 \<and> 0 \<le> sec * sgn ts \<and> 0 \<le> nsec * sgn ts \<and>
    sec * 1000000000 + nsec = ts * 1000000"
proof -
  let ?q = "\<bar>ts\<bar> div 1000" and ?r = "\<bar>ts\<bar> mod 1000"
  have bounds: "0 \<le> ?q" "?q < 9223372036854775808" "0 \<le> ?r" "?r < 1000" "?q * 1000 + ?r = \<bar>ts\<bar>"
    using assms by (simp_all add: int64_def) linarith
  have nsec: "\<bar>sgn ts * ?r * 1000000\<bar> < 1000000000"
    using bounds by (cases ts "0 :: int" rule: linorder_cases) simp_all
  then have w: "wrap64 (sgn ts * ?r * 1000000) = sgn ts * ?r * 1000000"
    by (intro wrap64_int64) (auto simp: int64_def abs_if split: if_splits)
  have "int64 (sgn ts * ?q)" using bounds by (cases ts "0 :: int" rule: linorder_cases) (simp_all add: int64_def)
  moreover have "0 \<le> sgn ts * ?q * sgn ts" "0 \<le> sgn ts * ?r * 1000000 * sgn ts"
    using bounds by (cases ts "0 :: int" rule: linorder_cases; simp)+
  moreover have "sgn ts * ?q * 1000000000 + sgn ts * ?r * 1000000 = ts * 1000000"
  proof -
    have "sgn ts * q * 1000000000 + sgn ts * r * 1000000 = sgn ts * (q * 1000 + r) * 1000000" for q r
      by (simp add: algebra_simps)
    then have "sgn ts * ?q * 1000000000 + sgn ts * ?r * 1000000 = sgn ts * (?q * 1000 + ?r) * 1000000" .
    also have "\<dots> = ts * 1000000" unfolding bounds(5) by (simp add: sgn_mult_abs)
    finally show ?thesis .
  qed
  ultimately show ?thesis using nsec w by (simp add: FormatTimestamp_def)
qed

theorem FormatTimestamp_bounds_witness:
  "FormatTimestamp (- 1500) = (- 1, - 500000000) \<and> \<bar>snd (FormatTimestamp (- 1500))\<bar> < 1000000000"
proof -
  have eq: "FormatTimestamp (- 1500) = (- 1, - 500000000)"
    by (simp add: FormatTimestamp_def wrap64_int64 int64_def)
  have "int64 (- 1500)" by (simp add: int64_def)
  from FormatTimestamp_bounds [OF this] show ?thesis unfolding eq by simp
qed

end
