(* ===== verification/AssetGen.thy ===== *)
theory AssetGen
  imports StatusPage
begin

text \<open>
  Where the assets come from: the file system of a development build (asset/asset.go, a directory on disk
  served by \<open>http.Dir\<close>), the program that turns it into the embedded one
  (asset/asset\_generate.go), and the build constraints that choose between the two.  \<open>vfsgen.Generate\<close> and the
  operating system are arguments.
\<close>

section \<open>The development build\<close>

text \<open>
  \<open>http.Dir.Open\<close> of the standard library for a clean directory name: the name is cleaned as if rooted, so it stays below the
  directory; \<open>valid\<close> is the check of \<open>filepath.Localize\<close> and \<open>osOpen\<close> is \<open>os.Open\<close>.
\<close>

definition DirOpen :: "(string \<Rightarrow> bool) \<Rightarrow> (string \<Rightarrow> string + 'f) \<Rightarrow> string \<Rightarrow> string \<Rightarrow> string + 'f" where
  "DirOpen valid osOpen dir name =
     (let rel = drop 1 (CleanRooted (''/'' @ name)) in
      if \<not> valid (if rel = '''' then ''.'' else rel) then Inl ''http: invalid or unsafe file path''
      else osOpen (if rel = '''' then dir else dir @ ''/'' @ rel))"

definition devAssets :: "(string \<Rightarrow> bool) \<Rightarrow> (string \<Rightarrow> string + 'f) \<Rightarrow> string \<Rightarrow> string + 'f" where
  "devAssets valid osOpen = DirOpen valid osOpen ''../resources''"

text \<open>Whatever name is asked for, what is opened lies below the directory.\<close>

lemma devAssets_confined:
  obtains "devAssets valid osOpen name = Inl ''http: invalid or unsafe file path''"
  | ps where "list_all proper_part ps" "devAssets valid osOpen name = osOpen (joinSep CHR ''/'' (''..'' # ''resources'' # ps))"
proof -
  obtain ps where ps: "CleanRooted (''/'' @ name) = CHR ''/'' # joinSep CHR ''/'' ps" "\<forall>p \<in> set ps. proper_part p"
    by (rule CleanRooted_parts)
  have "joinSep CHR ''/'' ps = '''' \<longleftrightarrow> ps = []"
    using ps(2) by (cases ps; cases "tl ps") (auto simp: proper_part_def)
  then have "(if joinSep CHR ''/'' ps = '''' then ''../resources'' else ''../resources'' @ ''/'' @ joinSep CHR ''/'' ps) =
      joinSep CHR ''/'' (''..'' # ''resources'' # ps)"
    by (cases "ps = []") (simp_all add: joinSep_Cons)
  then have opened: "devAssets valid osOpen name =
      (if \<not> valid (if joinSep CHR ''/'' ps = '''' then ''.'' else joinSep CHR ''/'' ps) then Inl ''http: invalid or unsafe file path''
       else osOpen (joinSep CHR ''/'' (''..'' # ''resources'' # ps)))"
    unfolding devAssets_def DirOpen_def Let_def ps(1) drop_0 One_nat_def drop_Suc_Cons by (simp only:)
  have "list_all proper_part ps" using ps(2) by (simp add: list_all_iff)
  with opened that show thesis by (meson)
qed

section \<open>The generator\<close>

record gen_options =
  goPackageName :: string
  goBuildTags :: string
  goVariableName :: string

definition generatorOptions :: gen_options where
  "generatorOptions = \<lparr>goPackageName = ''asset'', goBuildTags = ''!dev'', goVariableName = ''Assets''\<rparr>"

text \<open>The exit code, and what \<open>log.Fatalln\<close> prints.\<close>

definition generateMain :: "('fs \<Rightarrow> gen_options \<Rightarrow> string option) \<Rightarrow> 'fs \<Rightarrow> nat \<times> string option" where
  "generateMain vfsgenGenerate assets =
     (case vfsgenGenerate assets generatorOptions of None \<Rightarrow> (0, None) | Some err \<Rightarrow> (1, Some err))"

section \<open>Build constraints\<close>

text \<open>A constraint is a tag or the negation of one; a file is compiled if its constraint holds for the tags of the build.\<close>

definition constraintHolds :: "string set \<Rightarrow> string \<Rightarrow> bool" where
  "constraintHolds tags c = (if HasPrefix c ''!'' then drop 1 c \<notin> tags else c \<in> tags)"

text \<open>The declarations of \<open>Assets\<close> that a build compiles; it succeeds if there is exactly one.\<close>

definition devDecl :: "string set \<Rightarrow> 'fs \<Rightarrow> 'fs list" where
  "devDecl tags dev = (if constraintHolds tags ''dev'' then [dev] else [])"

definition embeddedDecl :: "string set \<Rightarrow> 'fs \<Rightarrow> 'fs list" where
  "embeddedDecl tags embedded = (if constraintHolds tags ''!dev'' then [embedded] else [])"

definition assetsDecls :: "string set \<Rightarrow> 'fs \<Rightarrow> 'fs \<Rightarrow> 'fs list" where
  "assetsDecls tags dev embedded = devDecl tags dev @ embeddedDecl tags embedded"

lemma assetsDecls_one: "assetsDecls tags dev embedded = [if ''dev'' \<in> tags then dev else embedded]"
  by (simp add: assetsDecls_def devDecl_def embeddedDecl_def constraintHolds_def HasPrefix_def)

text \<open>The generated file carries the constraint of the embedded declaration, so it never meets the one of asset.go.\<close>

lemma generated_excludes_dev: "constraintHolds tags (goBuildTags generatorOptions) \<longleftrightarrow> embeddedDecl tags embedded \<noteq> []"
  "constraintHolds tags (goBuildTags generatorOptions) \<longleftrightarrow> devDecl tags dev = []"
  by (simp_all add: generatorOptions_def devDecl_def embeddedDecl_def constraintHolds_def HasPrefix_def)

section \<open>Which template a build shows\<close>

text \<open>The page of a development build, read from disk.\<close>

lemma dev_template_is_loaded:
  assumes "valid ''template.html''" "osOpen ''../resources/template.html'' = Inr f"
    and "fsOpen dev = (\<lambda>n. Some (devAssets valid osOpen n))" "fsReadAll dev f = Inr plain"
  shows "loadTemplate lib dev = Some (tplParse lib plain)"
proof -
  have "CleanRooted (''/'' @ ''template.html'') = ''/template.html''" by code_simp
  then show ?thesis
    using assms by (simp add: loadTemplate_def devAssets_def DirOpen_def Let_def)
qed

text \<open>
  The declaration that a build compiles decides where the page gets its template from: the file on disk in a development
  build, and otherwise what the embedded bytes unpack to, in whatever portions they are read.  That the two are the same
  text is for the generator to see to.
\<close>

lemma template_of_build:
  assumes "gz_ok gz" "gunzip gz (embedded ''/template.html'') = Inr packed" "length packed = 11340"
    and "list_all (\<lambda>k. 0 < k) bufs" "length packed < length bufs"
    and "fsOpen fs = embeddedOpen gz embedded" "\<forall>f r. ReadAll (fileRead gz) bufs f = Some r \<longrightarrow> fsReadAll fs f = r"
    and "valid ''template.html''" "osOpen ''../resources/template.html'' = Inr f"
    and "fsOpen dev = (\<lambda>n. Some (devAssets valid osOpen n))" "fsReadAll dev f = Inr plain"
  shows "map (case_sum (loadTemplate lib) (loadTemplate lib)) (assetsDecls tags (Inl dev) (Inr fs)) =
    [Some (tplParse lib (if ''dev'' \<in> tags then plain else packed))]"
  using dev_template_is_loaded [OF assms(8-11), of lib] embedded_template_is_loaded [OF assms(1-7), of lib] by (simp add: assetsDecls_one)

end
