(* ===== verification/SharedMem.thy ===== *)
theory SharedMem
  imports Checker
begin

text \<open>
  The write path of storage/diskmetricstore.go on shared objects.  The other theories treat
  metrics, families and maps as values; in the code they are references.  A stored family is
  the very object that the request brought, a scrape returns the stored objects, and the test
  store of the consistency check shares its families with the real one.  This theory repeats
  the operations on an explicit memory, with every assignment through a reference written as
  an update of the memory, and defines how a memory is read back as the values of the other
  theories.  SharedFrame and SharedWrites prove what each operation reads and changes, SharedRun that no
  interleaving of requests, scrapes and copies can tell references from values.

  The label pairs and the values inside a metric belong to that metric alone and are kept in
  it: no operation of the store copies a reference to them.
\<close>

section \<open>The memory\<close>

text \<open>
  Addresses are numbers; everything at or above \<open>memNext\<close> is unused.  A family holds
  references to its metrics.  A \<open>NameToTimestampedMetricFamilyMap\<close> is a table, shared by all
  copies of its \<open>MetricGroup\<close>; the map of families of a write request is shared by all copies
  of the \<open>WriteRequest\<close>.
\<close>

record shared_family =
  sfName :: "string option"
  sfHelp :: "string option"
  sfType :: "MetricType option"
  sfMetric :: "nat list"

record shared_entry =
  seTimestamp :: gotime
  seFamily :: "nat option"

record shared_memory =
  memMetrics :: "nat \<Rightarrow> Metric"
  memFamilies :: "nat \<Rightarrow> shared_family"
  memTables :: "nat \<Rightarrow> (string, shared_entry) fmap"
  memRequests :: "nat \<Rightarrow> (string, nat) fmap"
  memNext :: nat

record shared_group =
  sgLabels :: labels
  sgTable :: nat

type_synonym shared_groups = "(string, shared_group) fmap"

record shared_request =
  srLabels :: labels
  srTimestamp :: gotime
  srFamilies :: "nat option"
  srReplace :: bool
  srDone :: "nat option"

definition newMetric :: "Metric \<Rightarrow> shared_memory \<Rightarrow> nat \<times> shared_memory" where
  "newMetric m mem = (memNext mem,
     mem\<lparr>memMetrics := (memMetrics mem)(memNext mem := m), memNext := Suc (memNext mem)\<rparr>)"

definition newFamily :: "shared_family \<Rightarrow> shared_memory \<Rightarrow> nat \<times> shared_memory" where
  "newFamily f mem = (memNext mem,
     mem\<lparr>memFamilies := (memFamilies mem)(memNext mem := f), memNext := Suc (memNext mem)\<rparr>)"

definition newTable :: "(string, shared_entry) fmap \<Rightarrow> shared_memory \<Rightarrow> nat \<times> shared_memory" where
  "newTable t mem = (memNext mem,
     mem\<lparr>memTables := (memTables mem)(memNext mem := t), memNext := Suc (memNext mem)\<rparr>)"

definition setMetric :: "nat \<Rightarrow> Metric \<Rightarrow> shared_memory \<Rightarrow> shared_memory" where
  "setMetric p m mem = mem\<lparr>memMetrics := (memMetrics mem)(p := m)\<rparr>"

definition setTable :: "nat \<Rightarrow> (string, shared_entry) fmap \<Rightarrow> shared_memory \<Rightarrow> shared_memory" where
  "setTable t entries mem = mem\<lparr>memTables := (memTables mem)(t := entries)\<rparr>"

definition setRequest :: "nat \<Rightarrow> (string, nat) fmap \<Rightarrow> shared_memory \<Rightarrow> shared_memory" where
  "setRequest r families mem = mem\<lparr>memRequests := (memRequests mem)(r := families)\<rparr>"

section \<open>Reading a memory as values\<close>

definition readFamily :: "shared_memory \<Rightarrow> nat \<Rightarrow> MetricFamily" where
  "readFamily mem p = (let f = memFamilies mem p in
     \<lparr>mfName = sfName f, mfHelp = sfHelp f, mfType = sfType f, mfMetric = map (memMetrics mem) (sfMetric f)\<rparr>)"

definition readEntry :: "shared_memory \<Rightarrow> shared_entry \<Rightarrow> TimestampedMetricFamily" where
  "readEntry mem e = \<lparr>tmfTimestamp = seTimestamp e, tmfFamily = map_option (readFamily mem) (seFamily e)\<rparr>"

definition readTable :: "shared_memory \<Rightarrow> nat \<Rightarrow> NameToTimestampedMetricFamilyMap" where
  "readTable mem t = fmmap (readEntry mem) (memTables mem t)"

definition readGroup :: "shared_memory \<Rightarrow> shared_group \<Rightarrow> MetricGroup" where
  "readGroup mem g = \<lparr>mgLabels = sgLabels g, mgMetrics = readTable mem (sgTable g)\<rparr>"

definition readGroups :: "shared_memory \<Rightarrow> shared_groups \<Rightarrow> GroupingKeyToMetricGroup" where
  "readGroups mem groups = fmmap (readGroup mem) groups"

definition readFamilies :: "shared_memory \<Rightarrow> nat \<Rightarrow> (string, MetricFamily) fmap" where
  "readFamilies mem r = fmmap (readFamily mem) (memRequests mem r)"

definition readRequest :: "shared_memory \<Rightarrow> shared_request \<Rightarrow> WriteRequest" where
  "readRequest mem wr = \<lparr>wrLabels = srLabels wr, wrTimestamp = srTimestamp wr,
     wrMetricFamilies = map_option (readFamilies mem) (srFamilies wr),
     wrReplace = srReplace wr, wrDone = srDone wr\<rparr>"

section \<open>Sanitising in place\<close>

text \<open>
  \<open>sanitizeLabels\<close> assigns to the labels of the metric objects; \<open>carried\<close> is
  \<open>gLabelsNotYetDone\<close> as the previous metric left it.
\<close>

fun hSanitizeMetrics :: "string \<Rightarrow> labels \<Rightarrow> labels \<Rightarrow> nat list \<Rightarrow> shared_memory \<Rightarrow> shared_memory" where
  "hSanitizeMetrics inst groupingLabels carried [] mem = mem"
| "hSanitizeMetrics inst groupingLabels carried (p # ps) mem =
     (case sanitizeMetric inst groupingLabels carried (memMetrics mem p) of
        (m, carried') \<Rightarrow> hSanitizeMetrics inst groupingLabels carried' ps (setMetric p m mem))"

definition hSanitizeLabels :: "model_consts \<Rightarrow> nat \<Rightarrow> labels \<Rightarrow> shared_memory \<Rightarrow> shared_memory" where
  "hSanitizeLabels mc mf groupingLabels mem =
     hSanitizeMetrics (InstanceLabel mc) groupingLabels fmempty (sfMetric (memFamilies mem mf)) mem"

text \<open>
  The loop of the check over the families of the request, in the order \<open>rng\<close> in which the
  runtime visits the map.
\<close>

definition hSanitizeRequest ::
  "model_consts \<Rightarrow> ((string, nat) fmap \<Rightarrow> string list) \<Rightarrow> labels \<Rightarrow> nat \<Rightarrow> shared_memory \<Rightarrow> shared_memory" where
  "hSanitizeRequest mc rng groupingLabels r mem =
     fold (\<lambda>name mem'. case fmlookup (memRequests mem r) name of None \<Rightarrow> mem'
       | Some mf \<Rightarrow> hSanitizeLabels mc mf groupingLabels mem') (rng (memRequests mem r)) mem"

section \<open>Push timestamps\<close>

definition hNewTimestampGauge ::
  "model_consts \<Rightarrow> string \<Rightarrow> string \<Rightarrow> labels \<Rightarrow> gotime \<Rightarrow> shared_memory \<Rightarrow> nat \<times> shared_memory" where
  "hNewTimestampGauge mc name help groupingLabels t mem =
     (let ts = timestampValue t;
          (m, mem1) = newMetric (gaugeMetric ts) mem;
          (mf, mem2) = newFamily \<lparr>sfName = Some name, sfHelp = Some help, sfType = Some GAUGE, sfMetric = [m]\<rparr> mem1
      in (mf, hSanitizeLabels mc mf groupingLabels mem2))"

definition hNewPushTimestampGauge ::
  "model_consts \<Rightarrow> labels \<Rightarrow> gotime \<Rightarrow> shared_memory \<Rightarrow> nat \<times> shared_memory" where
  "hNewPushTimestampGauge mc groupingLabels t mem =
     hNewTimestampGauge mc pushMetricName pushMetricHelp groupingLabels t mem"

definition hNewPushFailedTimestampGauge ::
  "model_consts \<Rightarrow> labels \<Rightarrow> gotime \<Rightarrow> shared_memory \<Rightarrow> nat \<times> shared_memory" where
  "hNewPushFailedTimestampGauge mc groupingLabels t mem =
     hNewTimestampGauge mc pushFailedMetricName pushFailedMetricHelp groupingLabels t mem"

section \<open>Mutators\<close>

text \<open>
  The group of a key: the stored one, or a new one with an empty table, which is entered into
  the map of groups at once.
\<close>

definition hEnterGroup ::
  "labels \<Rightarrow> string \<Rightarrow> shared_groups \<Rightarrow> shared_memory \<Rightarrow> shared_group \<times> shared_groups \<times> shared_memory" where
  "hEnterGroup lbls key groups mem =
     (case fmlookup groups key of
        Some g \<Rightarrow> (g, groups, mem)
      | None \<Rightarrow>
          (case newTable fmempty mem of
             (t, mem') \<Rightarrow>
               let g = \<lparr>sgLabels = lbls, sgTable = t\<rparr> in (g, fmupd key g groups, mem')))"

text \<open>\<open>processWriteRequest\<close>: the table of the group and the families of the request change in place.\<close>

definition hProcessWriteRequest ::
  "model_consts \<Rightarrow> shared_groups \<Rightarrow> shared_request \<Rightarrow> shared_memory \<Rightarrow> shared_groups \<times> shared_memory" where
  "hProcessWriteRequest mc groups wr mem =
     (let key = groupingKeyFor mc (srLabels wr) in
      case srFamilies wr of
        None \<Rightarrow> (fmdrop key groups, mem)
      | Some r \<Rightarrow>
          let (group, groups', mem1) = hEnterGroup (srLabels wr) key groups mem;
              mem2 = (if fmlookup groups key \<noteq> None \<and> srReplace wr
                then setTable (sgTable group) (fmfilter isPushMetric (memTables mem1 (sgTable group))) mem1
                else mem1);
              (p, mem3) = hNewPushTimestampGauge mc (srLabels wr) (srTimestamp wr) mem2;
              mem4 = setRequest r (fmupd pushMetricName p (memRequests mem3 r)) mem3;
              mem5 = (if fmlookup (memTables mem4 (sgTable group)) pushFailedMetricName = None
                then let (q, mem') = hNewPushFailedTimestampGauge mc (srLabels wr) zeroTime mem4
                     in setRequest r (fmupd pushFailedMetricName q (memRequests mem' r)) mem'
                else mem4);
              entries = fmmap (\<lambda>mf. \<lparr>seTimestamp = srTimestamp wr, seFamily = Some mf\<rparr>) (memRequests mem5 r)
          in (groups', setTable (sgTable group) (memTables mem5 (sgTable group) ++\<^sub>f entries) mem5))"

definition hSetPushFailedTimestamp ::
  "model_consts \<Rightarrow> shared_groups \<Rightarrow> shared_request \<Rightarrow> shared_memory \<Rightarrow> shared_groups \<times> shared_memory" where
  "hSetPushFailedTimestamp mc groups wr mem =
     (let key = groupingKeyFor mc (srLabels wr);
          (group, groups', mem1) = hEnterGroup (srLabels wr) key groups mem;
          t = sgTable group;
          (q, mem2) = hNewPushFailedTimestampGauge mc (srLabels wr) (srTimestamp wr) mem1;
          mem3 = setTable t (fmupd pushFailedMetricName
            \<lparr>seTimestamp = srTimestamp wr, seFamily = Some q\<rparr> (memTables mem2 t)) mem2
      in (groups',
          if fmlookup (memTables mem3 t) pushMetricName = None
          then let (p, mem4) = hNewPushTimestampGauge mc (srLabels wr) zeroTime mem3
               in setTable t (fmupd pushMetricName
                    \<lparr>seTimestamp = srTimestamp wr, seFamily = Some p\<rparr> (memTables mem4 t)) mem4
          else mem3))"

section \<open>Copying the groups\<close>

text \<open>
  \<open>GetMetricFamiliesMap\<close>: every group gets a new table with the same entries, so the families
  stay shared.  The new addresses depend on the order of the loop, which nothing observes; the
  model uses the sorted one.
\<close>

definition hCopyGroup :: "shared_groups \<Rightarrow> string \<Rightarrow> shared_groups \<times> shared_memory \<Rightarrow> shared_groups \<times> shared_memory" where
  "hCopyGroup groups key st =
     (case (fmlookup groups key, st) of
        (None, st') \<Rightarrow> st'
      | (Some g, (groupsCopy, mem)) \<Rightarrow>
          (case newTable fmempty mem of
             (metricsCopy, mem1) \<Rightarrow>
               (fmupd key \<lparr>sgLabels = sgLabels g, sgTable = metricsCopy\<rparr> groupsCopy,
                setTable metricsCopy (memTables mem1 metricsCopy ++\<^sub>f memTables mem1 (sgTable g)) mem1)))"

definition hGetMetricFamiliesMap :: "shared_groups \<Rightarrow> shared_memory \<Rightarrow> shared_groups \<times> shared_memory" where
  "hGetMetricFamiliesMap groups mem = fold (hCopyGroup groups) (sortedKeys groups) (fmempty, mem)"

section \<open>Merging the families\<close>

text \<open>
  \<open>copyMetricFamily\<close> copies the list of references, not the metrics; otherwise the loop is that
  of \<open>hGetMetricFamilies\<close>, on families whose metrics are shared too.
\<close>

definition mCopyMetricFamily :: "nat \<Rightarrow> shared_memory \<Rightarrow> nat \<times> shared_memory" where
  "mCopyMetricFamily p mem =
     (let mf = memFamilies mem p in
      newFamily \<lparr>sfName = sfName mf, sfHelp = sfHelp mf, sfType = sfType mf, sfMetric = [] @ sfMetric mf\<rparr> mem)"

definition setFamily :: "nat \<Rightarrow> shared_family \<Rightarrow> shared_memory \<Rightarrow> shared_memory" where
  "setFamily p f mem = mem\<lparr>memFamilies := (memFamilies mem)(p := f)\<rparr>"

record merge_state =
  mgMemory :: shared_memory
  mgResult :: "nat list"
  mgStats :: "(string, mfStat) fmap"

definition mStep :: "(string, string) fmap \<Rightarrow> string \<times> nat option \<Rightarrow> merge_state \<Rightarrow> merge_state" where
  "mStep predefined entry s =
     (case entry of (name, omf) \<Rightarrow>
       (case omf of
          None \<Rightarrow> s
        | Some mf \<Rightarrow>
            (case fmlookup (mgStats s) name of
               Some stat \<Rightarrow>
                 let s1 = (if \<not> statCopied stat
                       then (case mCopyMetricFamily (mgResult s ! statPos stat) (mgMemory s) of
                               (copy, mem) \<Rightarrow>
                                 s\<lparr>mgStats := fmupd name \<lparr>statPos = statPos stat, statCopied = True\<rparr> (mgStats s),
                                   mgMemory := mem, mgResult := (mgResult s)[statPos stat := copy]\<rparr>)
                       else s);
                     existing = mgResult s1 ! statPos stat;
                     old = memFamilies (mgMemory s1) existing
                 in s1\<lparr>mgMemory := setFamily existing
                      (old\<lparr>sfMetric := sfMetric old @ sfMetric (memFamilies (mgMemory s1) mf)\<rparr>) (mgMemory s1)\<rparr>
             | None \<Rightarrow>
                 let rewrite = (case fmlookup predefined name of
                       Some help \<Rightarrow> if GetHelp (readFamily (mgMemory s) mf) \<noteq> help then Some help else None
                     | None \<Rightarrow> None)
                 in (case rewrite of
                       Some help \<Rightarrow>
                         (case mCopyMetricFamily mf (mgMemory s) of
                            (copy, mem) \<Rightarrow>
                              s\<lparr>mgMemory := setFamily copy ((memFamilies mem copy)\<lparr>sfHelp := Some help\<rparr>) mem,
                                mgStats := fmupd name \<lparr>statPos = length (mgResult s), statCopied = True\<rparr> (mgStats s),
                                mgResult := mgResult s @ [copy]\<rparr>)
                     | None \<Rightarrow>
                         s\<lparr>mgStats := fmupd name \<lparr>statPos = length (mgResult s), statCopied = False\<rparr> (mgStats s),
                           mgResult := mgResult s @ [mf]\<rparr>))))"

definition hRanged :: "shared_memory \<Rightarrow> shared_groups \<Rightarrow> range_order \<Rightarrow> (string \<times> nat option) list" where
  "hRanged mem groups order =
     concat (map (\<lambda>(key, names). map (\<lambda>name.
        (name, case fmlookup groups key of None \<Rightarrow> None
           | Some g \<Rightarrow> (case fmlookup (memTables mem (sgTable g)) name of None \<Rightarrow> None | Some e \<Rightarrow> seFamily e)))
        names) order)"

definition mGetMetricFamilies ::
  "(string, string) fmap \<Rightarrow> shared_groups \<Rightarrow> range_order \<Rightarrow> shared_memory \<Rightarrow> nat list \<times> shared_memory" where
  "mGetMetricFamilies predefined groups order mem =
     (let s = fold (mStep predefined) (hRanged mem groups order) \<lparr>mgMemory = mem, mgResult = [], mgStats = fmempty\<rparr>
      in (mgResult s, mgMemory s))"

section \<open>The check\<close>

text \<open>
  \<open>checkWriteRequest\<close>: the verdict, the error sent to the client, and the memory that the check
  leaves behind.  The groups of the test store are dropped on return, its tables become garbage.
\<close>

definition hCheckWriteRequest ::
  "model_consts \<Rightarrow> ((string, nat) fmap \<Rightarrow> string list) \<Rightarrow> (MetricFamily list \<Rightarrow> string option) \<Rightarrow>
   (GroupingKeyToMetricGroup \<Rightarrow> range_order) \<Rightarrow> (string, string) fmap \<Rightarrow> shared_groups \<Rightarrow> shared_request \<Rightarrow>
   shared_memory \<Rightarrow> bool \<times> string option \<times> shared_memory" where
  "hCheckWriteRequest mc rng gather order predefined groups wr mem =
     (case srFamilies wr of
        None \<Rightarrow> (True, None, mem)
      | Some r \<Rightarrow>
          if timestampsPresent (readFamilies mem r)
          then (False, if srDone wr \<noteq> None then Some errTimestamp else None, mem)
          else
            let mem1 = hSanitizeRequest mc rng (srLabels wr) r mem in
            if srDone wr = None then (True, None, mem1)
            else
              let (testGroups, mem2) = hGetMetricFamiliesMap groups mem1;
                  (testGroups', mem3) = hProcessWriteRequest mc testGroups wr mem2;
                  (mfs, mem4) = mGetMetricFamilies predefined testGroups' (order (readGroups mem3 testGroups')) mem3
              in (case gather (map (readFamily mem4) mfs) of
                    Some err \<Rightarrow> (False, if srDone wr \<noteq> None then Some err else None, mem4)
                  | None \<Rightarrow> (True, None, mem4)))"

end
