(* ===== verification/SharedFrame.thy ===== *)
theory SharedFrame
  imports SharedMem
begin

text \<open>
  Frames for the operations of SharedMem.  \<open>changes M T R mem mem'\<close> says that an operation
  assigns at most to the metrics in \<open>M\<close>, the tables in \<open>T\<close> and the request maps in \<open>R\<close>, that it
  may allocate, and that every other object keeps its contents; a family that exists is never
  assigned to at all.  What is out of reach of \<open>M\<close>, \<open>T\<close> and \<open>R\<close> reads the same afterwards.
  The frames and the readings of sanitising and of the push timestamps follow.
\<close>

section \<open>What is reachable\<close>

definition entryFamilies :: "(string, shared_entry) fmap \<Rightarrow> nat set" where
  "entryFamilies entries = {f. \<exists>n e. fmlookup entries n = Some e \<and> seFamily e = Some f}"

definition tableFamilies :: "shared_memory \<Rightarrow> nat \<Rightarrow> nat set" where
  "tableFamilies mem t = entryFamilies (memTables mem t)"

definition tablesOf :: "shared_groups \<Rightarrow> nat set" where
  "tablesOf groups = {t. \<exists>key g. fmlookup groups key = Some g \<and> t = sgTable g}"

definition groupsFamilies :: "shared_memory \<Rightarrow> shared_groups \<Rightarrow> nat set" where
  "groupsFamilies mem groups = (\<Union>t \<in> tablesOf groups. tableFamilies mem t)"

definition requestFamilies :: "shared_memory \<Rightarrow> nat \<Rightarrow> nat set" where
  "requestFamilies mem r = {f. \<exists>n. fmlookup (memRequests mem r) n = Some f}"

definition metricsOf :: "shared_memory \<Rightarrow> nat set \<Rightarrow> nat set" where
  "metricsOf mem F = (\<Union>f \<in> F. set (sfMetric (memFamilies mem f)))"

text \<open>A memory is closed: families refer to allocated metrics only.\<close>

definition mem_ok :: "shared_memory \<Rightarrow> bool" where
  "mem_ok mem \<longleftrightarrow> (\<forall>f. set (sfMetric (memFamilies mem f)) \<subseteq> {..<memNext mem})"

definition groups_ok :: "shared_memory \<Rightarrow> shared_groups \<Rightarrow> bool" where
  "groups_ok mem groups \<longleftrightarrow> tablesOf groups \<subseteq> {..<memNext mem} \<and> groupsFamilies mem groups \<subseteq> {..<memNext mem}"

definition request_ok :: "shared_memory \<Rightarrow> nat \<Rightarrow> bool" where
  "request_ok mem r \<longleftrightarrow> r < memNext mem \<and> requestFamilies mem r \<subseteq> {..<memNext mem}"

text \<open>No two groups share a table.\<close>

definition tables_distinct :: "shared_groups \<Rightarrow> bool" where
  "tables_distinct groups \<longleftrightarrow> (\<forall>k k' g g'. fmlookup groups k = Some g \<longrightarrow> fmlookup groups k' = Some g' \<longrightarrow>
     sgTable g = sgTable g' \<longrightarrow> k = k')"

section \<open>Frames\<close>

definition changes :: "nat set \<Rightarrow> nat set \<Rightarrow> nat set \<Rightarrow> shared_memory \<Rightarrow> shared_memory \<Rightarrow> bool" where
  "changes M T R mem mem' \<longleftrightarrow> memNext mem \<le> memNext mem' \<and> (mem_ok mem \<longrightarrow> mem_ok mem') \<and>
     (\<forall>p < memNext mem. memFamilies mem' p = memFamilies mem p \<and>
        (p \<notin> M \<longrightarrow> memMetrics mem' p = memMetrics mem p) \<and>
        (p \<notin> T \<longrightarrow> memTables mem' p = memTables mem p) \<and>
        (p \<notin> R \<longrightarrow> memRequests mem' p = memRequests mem p))"

lemma changesD:
  assumes "changes M T R mem mem'"
  shows "memNext mem \<le> memNext mem'" "mem_ok mem \<Longrightarrow> mem_ok mem'"
    "p < memNext mem \<Longrightarrow> memFamilies mem' p = memFamilies mem p"
    "p < memNext mem \<Longrightarrow> p \<notin> M \<Longrightarrow> memMetrics mem' p = memMetrics mem p"
    "p < memNext mem \<Longrightarrow> p \<notin> T \<Longrightarrow> memTables mem' p = memTables mem p"
    "p < memNext mem \<Longrightarrow> p \<notin> R \<Longrightarrow> memRequests mem' p = memRequests mem p"
  using assms unfolding changes_def by blast+

lemma changes_refl [intro, simp]: "changes M T R mem mem"
  by (simp add: changes_def)

lemma changes_trans:
  assumes "changes M T R a b" "changes M' T' R' b c"
    and "M' \<subseteq> M \<union> {memNext a..}" "T' \<subseteq> T \<union> {memNext a..}" "R' \<subseteq> R \<union> {memNext a..}"
  shows "changes M T R a c"
proof -
  have "p < memNext a \<Longrightarrow> p < memNext b" for p
    using changesD(1) [OF assms(1)] by simp
  moreover have "p \<notin> M' \<or> memNext a \<le> p" if "p \<notin> M" for p using that assms(3) by auto
  moreover have "p \<notin> T' \<or> memNext a \<le> p" if "p \<notin> T" for p using that assms(4) by auto
  moreover have "p \<notin> R' \<or> memNext a \<le> p" if "p \<notin> R" for p using that assms(5) by auto
  ultimately show ?thesis
    using changesD [OF assms(1)] changesD [OF assms(2)] unfolding changes_def
    by (metis leD le_trans)
qed

lemma changes_mono: "changes M T R a b \<Longrightarrow> M \<subseteq> M' \<Longrightarrow> T \<subseteq> T' \<Longrightarrow> R \<subseteq> R' \<Longrightarrow> changes M' T' R' a b"
  unfolding changes_def by blast

lemma metricsOf_mono: "F \<subseteq> G \<Longrightarrow> metricsOf mem F \<subseteq> metricsOf mem G"
  by (auto simp: metricsOf_def)

lemma metricsOf_Un: "metricsOf mem (F \<union> G) = metricsOf mem F \<union> metricsOf mem G"
  by (auto simp: metricsOf_def)

lemma metricsOf_ok: "mem_ok mem \<Longrightarrow> metricsOf mem F \<subseteq> {..<memNext mem}"
  unfolding mem_ok_def metricsOf_def by blast

lemma metricsOf_frame: "changes M T R a b \<Longrightarrow> F \<subseteq> {..<memNext a} \<Longrightarrow> metricsOf b F = metricsOf a F"
  unfolding metricsOf_def using changesD(3) by (metis (no_types, lifting) SUP_cong lessThan_iff subsetD)

lemma readFamily_frame:
  assumes "changes M T R a b" "mem_ok a" "f < memNext a" "metricsOf a {f} \<inter> M = {}"
  shows "readFamily b f = readFamily a f"
proof -
  have fam: "memFamilies b f = memFamilies a f" using changesD(3) [OF assms(1,3)] .
  have "memMetrics b m = memMetrics a m" if "m \<in> set (sfMetric (memFamilies a f))" for m
  proof (rule changesD(4) [OF assms(1)])
    show "m < memNext a" using that assms(2) unfolding mem_ok_def by blast
    show "m \<notin> M" using that assms(4) by (auto simp: metricsOf_def)
  qed
  then show ?thesis using fam by (simp add: readFamily_def Let_def)
qed

text \<open>Maps of families and tables that are out of reach of an operation read the same.\<close>

lemma fmmap_cong_values: "(\<And>n x. fmlookup m n = Some x \<Longrightarrow> f x = g x) \<Longrightarrow> fmmap f m = fmmap g m"
proof (rule fmap_ext)
  fix n assume "\<And>n x. fmlookup m n = Some x \<Longrightarrow> f x = g x"
  then show "fmlookup (fmmap f m) n = fmlookup (fmmap g m) n"
    by (cases "fmlookup m n") simp_all
qed

lemma readEntries_frame:
  assumes "changes M T R a b" "mem_ok a"
    and "\<And>n e f. fmlookup entries n = Some e \<Longrightarrow> seFamily e = Some f \<Longrightarrow> f < memNext a \<and> metricsOf a {f} \<inter> M = {}"
  shows "fmmap (readEntry b) entries = fmmap (readEntry a) entries"
proof (rule fmmap_cong_values)
  fix n e assume "fmlookup entries n = Some e"
  then show "readEntry b e = readEntry a e"
    using assms(3) readFamily_frame [OF assms(1,2)] by (cases "seFamily e") (auto simp: readEntry_def)
qed

lemma readTable_frame:
  assumes "changes M T R a b" "mem_ok a" "t < memNext a" "t \<notin> T"
    and "tableFamilies a t \<subseteq> {..<memNext a}" "metricsOf a (tableFamilies a t) \<inter> M = {}"
  shows "readTable b t = readTable a t"
  unfolding readTable_def changesD(5) [OF assms(1,3,4)]
proof (rule readEntries_frame [OF assms(1,2)])
  fix n e f assume "fmlookup (memTables a t) n = Some e" "seFamily e = Some f"
  then have "f \<in> tableFamilies a t" by (auto simp: tableFamilies_def entryFamilies_def)
  then show "f < memNext a \<and> metricsOf a {f} \<inter> M = {}"
    using assms(5,6) metricsOf_mono [of "{f}" "tableFamilies a t" a] by blast
qed

lemma tableFamilies_frame: "changes M T R a b \<Longrightarrow> t < memNext a \<Longrightarrow> t \<notin> T \<Longrightarrow> tableFamilies b t = tableFamilies a t"
  by (simp add: tableFamilies_def changesD(5))

lemma groups_frame_read:
  assumes "changes M T R a b" "mem_ok a" "groups_ok a groups"
    and "tablesOf groups \<inter> T = {}" "metricsOf a (groupsFamilies a groups) \<inter> M = {}"
  shows "readGroups b groups = readGroups a groups" "groupsFamilies b groups = groupsFamilies a groups"
    "groups_ok b groups" "metricsOf b (groupsFamilies b groups) = metricsOf a (groupsFamilies a groups)"
proof -
  have t: "t < memNext a \<and> t \<notin> T \<and> tableFamilies a t \<subseteq> {..<memNext a} \<and> metricsOf a (tableFamilies a t) \<inter> M = {}"
    if "t \<in> tablesOf groups" for t
    using that assms(3-5) unfolding groups_ok_def groupsFamilies_def metricsOf_def by blast
  have "readTable b (sgTable g) = readTable a (sgTable g)" if "fmlookup groups k = Some g" for k g
    using readTable_frame [OF assms(1,2)] t [of "sgTable g"] that by (auto simp: tablesOf_def)
  then show "readGroups b groups = readGroups a groups"
    unfolding readGroups_def by (intro fmmap_cong_values) (simp add: readGroup_def)
  show fam: "groupsFamilies b groups = groupsFamilies a groups"
    unfolding groupsFamilies_def using t tableFamilies_frame [OF assms(1)] by (intro SUP_cong) auto
  have "groupsFamilies a groups \<subseteq> {..<memNext a}" using assms(3) by (simp add: groups_ok_def)
  then show "metricsOf b (groupsFamilies b groups) = metricsOf a (groupsFamilies a groups)"
    unfolding fam by (rule metricsOf_frame [OF assms(1)])
  show "groups_ok b groups"
    using assms(3) changesD(1) [OF assms(1)] unfolding groups_ok_def fam by (auto intro: less_le_trans)
qed

lemma request_frame_read:
  assumes "changes M T R a b" "mem_ok a" "request_ok a r"
    and "r \<notin> R" "metricsOf a (requestFamilies a r) \<inter> M = {}"
  shows "readFamilies b r = readFamilies a r" "memRequests b r = memRequests a r"
    "requestFamilies b r = requestFamilies a r" "request_ok b r"
proof -
  have r: "r < memNext a" "requestFamilies a r \<subseteq> {..<memNext a}" using assms(3) by (simp_all add: request_ok_def)
  show req: "memRequests b r = memRequests a r" using changesD(6) [OF assms(1) r(1) assms(4)] .
  then show fam: "requestFamilies b r = requestFamilies a r" by (simp add: requestFamilies_def)
  show "request_ok b r"
    using r changesD(1) [OF assms(1)] unfolding request_ok_def fam by auto
  have "f < memNext a \<and> metricsOf a {f} \<inter> M = {}" if "fmlookup (memRequests a r) n = Some f" for n f
    using that r(2) assms(5) by (auto simp: requestFamilies_def metricsOf_def)
  then show "readFamilies b r = readFamilies a r"
    unfolding readFamilies_def req using readFamily_frame [OF assms(1,2)] by (intro fmmap_cong_values) blast
qed

section \<open>Allocation and assignment\<close>

lemma mem_ok_cong:
  "memFamilies mem' = memFamilies mem \<Longrightarrow> memNext mem \<le> memNext mem' \<Longrightarrow> mem_ok mem \<Longrightarrow> mem_ok mem'"
  unfolding mem_ok_def by (metis (no_types, lifting) lessThan_subset_iff order_trans)

lemma newTable_spec:
  assumes "newTable es mem = (t, mem')"
  shows "t = memNext mem" "memNext mem' = Suc (memNext mem)" "memTables mem' = (memTables mem)(t := es)"
    "memMetrics mem' = memMetrics mem" "memFamilies mem' = memFamilies mem" "memRequests mem' = memRequests mem"
    "changes {} {} {} mem mem'"
proof -
  show "t = memNext mem" "memNext mem' = Suc (memNext mem)" "memTables mem' = (memTables mem)(t := es)"
    "memMetrics mem' = memMetrics mem" "memFamilies mem' = memFamilies mem" "memRequests mem' = memRequests mem"
    using assms by (auto simp: newTable_def)
  then show "changes {} {} {} mem mem'"
    using mem_ok_cong [of mem' mem] by (simp add: changes_def)
qed

lemma setTable_sel [simp]:
  "memTables (setTable t es mem) = (memTables mem)(t := es)" "memFamilies (setTable t es mem) = memFamilies mem"
  "memMetrics (setTable t es mem) = memMetrics mem" "memRequests (setTable t es mem) = memRequests mem"
  "memNext (setTable t es mem) = memNext mem"
  by (simp_all add: setTable_def)

lemma setRequest_sel [simp]:
  "memRequests (setRequest r fs mem) = (memRequests mem)(r := fs)" "memFamilies (setRequest r fs mem) = memFamilies mem"
  "memMetrics (setRequest r fs mem) = memMetrics mem" "memTables (setRequest r fs mem) = memTables mem"
  "memNext (setRequest r fs mem) = memNext mem"
  by (simp_all add: setRequest_def)

lemma setMetric_sel [simp]:
  "memMetrics (setMetric p m mem) = (memMetrics mem)(p := m)" "memFamilies (setMetric p m mem) = memFamilies mem"
  "memTables (setMetric p m mem) = memTables mem" "memRequests (setMetric p m mem) = memRequests mem"
  "memNext (setMetric p m mem) = memNext mem"
  by (simp_all add: setMetric_def)

lemma changes_setTable: "changes {} {t} {} mem (setTable t es mem)"
  using mem_ok_cong [of "setTable t es mem" mem] by (simp add: changes_def)

lemma changes_setRequest: "changes {} {} {r} mem (setRequest r fs mem)"
  using mem_ok_cong [of "setRequest r fs mem" mem] by (simp add: changes_def)

text \<open>What a read depends on.\<close>

lemma read_cong:
  assumes "memFamilies b = memFamilies a" "memMetrics b = memMetrics a"
  shows "readFamily b = readFamily a" "readEntry b = readEntry a"
proof -
  show fam: "readFamily b = readFamily a"
    by (rule ext) (simp only: readFamily_def assms)
  show "readEntry b = readEntry a"
    by (rule ext) (simp only: readEntry_def fam)
qed

lemma read_set [simp]:
  "readFamily (setTable t es mem) = readFamily mem" "readEntry (setTable t es mem) = readEntry mem"
  "readFamily (setRequest r fs mem) = readFamily mem" "readEntry (setRequest r fs mem) = readEntry mem"
  by (rule read_cong; simp)+

section \<open>Sanitising\<close>

text \<open>Only metrics of the family change, and they become what sanitising their values gives.\<close>

lemma hSanitizeMetrics_rest:
  "memFamilies (hSanitizeMetrics inst gl c ps mem) = memFamilies mem"
  "memTables (hSanitizeMetrics inst gl c ps mem) = memTables mem"
  "memRequests (hSanitizeMetrics inst gl c ps mem) = memRequests mem"
  "memNext (hSanitizeMetrics inst gl c ps mem) = memNext mem"
  "p \<notin> set ps \<Longrightarrow> memMetrics (hSanitizeMetrics inst gl c ps mem) p = memMetrics mem p"
  by (induction ps arbitrary: c mem) (simp_all split: prod.split)

lemma hSanitizeMetrics_values:
  "distinct ps \<Longrightarrow> map (memMetrics (hSanitizeMetrics inst gl c ps mem)) ps =
     sanitizeMetrics inst gl c (map (memMetrics mem) ps)"
proof (induction ps arbitrary: c mem)
  case (Cons p ps)
  obtain m c' where m: "sanitizeMetric inst gl c (memMetrics mem p) = (m, c')" by (cases "sanitizeMetric inst gl c (memMetrics mem p)")
  have "map (memMetrics (setMetric p m mem)) ps = map (memMetrics mem) ps"
    using Cons.prems by simp
  then show ?case
    using Cons m by (simp add: hSanitizeMetrics_rest)
qed simp

lemma hSanitizeLabels_rest [simp]:
  "memFamilies (hSanitizeLabels mc f gl mem) = memFamilies mem" "memTables (hSanitizeLabels mc f gl mem) = memTables mem"
  "memRequests (hSanitizeLabels mc f gl mem) = memRequests mem" "memNext (hSanitizeLabels mc f gl mem) = memNext mem"
  by (simp_all add: hSanitizeLabels_def hSanitizeMetrics_rest)

lemma hSanitizeLabels_other:
  "p \<notin> set (sfMetric (memFamilies mem f)) \<Longrightarrow> memMetrics (hSanitizeLabels mc f gl mem) p = memMetrics mem p"
  by (simp add: hSanitizeLabels_def hSanitizeMetrics_rest)

lemma hSanitizeLabels_family:
  "distinct (sfMetric (memFamilies mem f)) \<Longrightarrow>
   readFamily (hSanitizeLabels mc f gl mem) f = sanitizeLabels mc (readFamily mem f) gl"
  using hSanitizeMetrics_values [of "sfMetric (memFamilies mem f)" "InstanceLabel mc" gl fmempty mem]
  by (simp add: readFamily_def Let_def sanitizeLabels_def) (simp add: hSanitizeLabels_def)

lemma readFamily_other:
  assumes "memFamilies b = memFamilies a" "\<And>m. m \<in> set (sfMetric (memFamilies a f)) \<Longrightarrow> memMetrics b m = memMetrics a m"
  shows "readFamily b f = readFamily a f"
  using assms by (simp add: readFamily_def Let_def)

text \<open>The metrics of a request, family by family.\<close>

definition namedMetrics :: "shared_memory \<Rightarrow> (string, nat) fmap \<Rightarrow> string \<Rightarrow> nat list" where
  "namedMetrics mem fs name = (case fmlookup fs name of None \<Rightarrow> [] | Some f \<Rightarrow> sfMetric (memFamilies mem f))"

definition requestMetrics :: "shared_memory \<Rightarrow> nat \<Rightarrow> nat list" where
  "requestMetrics mem r = concat (map (namedMetrics mem (memRequests mem r)) (sortedKeys (memRequests mem r)))"

definition sanitizeNamed :: "model_consts \<Rightarrow> labels \<Rightarrow> (string, nat) fmap \<Rightarrow> string \<Rightarrow> shared_memory \<Rightarrow> shared_memory" where
  "sanitizeNamed mc gl fs name mem =
     (case fmlookup fs name of None \<Rightarrow> mem | Some f \<Rightarrow> hSanitizeLabels mc f gl mem)"

lemma sanitizeNamed_rest [simp]:
  "memFamilies (sanitizeNamed mc gl fs name mem) = memFamilies mem" "memTables (sanitizeNamed mc gl fs name mem) = memTables mem"
  "memRequests (sanitizeNamed mc gl fs name mem) = memRequests mem" "memNext (sanitizeNamed mc gl fs name mem) = memNext mem"
  "p \<notin> set (namedMetrics mem fs name) \<Longrightarrow> memMetrics (sanitizeNamed mc gl fs name mem) p = memMetrics mem p"
  "namedMetrics (sanitizeNamed mc gl fs name mem) = namedMetrics mem"
  by (auto simp: sanitizeNamed_def namedMetrics_def fun_eq_iff hSanitizeLabels_other split: option.splits)

lemma sanitizeNamed_fold_rest:
  "memFamilies (fold (sanitizeNamed mc gl fs) ns mem) = memFamilies mem"
  "memTables (fold (sanitizeNamed mc gl fs) ns mem) = memTables mem"
  "memRequests (fold (sanitizeNamed mc gl fs) ns mem) = memRequests mem"
  "memNext (fold (sanitizeNamed mc gl fs) ns mem) = memNext mem"
  "p \<notin> set (concat (map (namedMetrics mem fs) ns)) \<Longrightarrow> memMetrics (fold (sanitizeNamed mc gl fs) ns mem) p = memMetrics mem p"
  by (induction ns arbitrary: mem) simp_all

lemma sanitizeNamed_fold_family:
  assumes "distinct (concat (map (namedMetrics mem fs) ns))" "distinct ns" "name \<in> set ns" "fmlookup fs name = Some f"
  shows "readFamily (fold (sanitizeNamed mc gl fs) ns mem) f = sanitizeLabels mc (readFamily mem f) gl"
  using assms
proof (induction ns arbitrary: mem)
  case (Cons n ns)
  let ?mem = "sanitizeNamed mc gl fs n mem" and ?ms = "sfMetric (memFamilies mem f)"
  have named: "namedMetrics mem fs name = ?ms" using Cons.prems by (simp add: namedMetrics_def)
  show ?case
  proof (cases "n = name")
    case True
    then have "readFamily ?mem f = sanitizeLabels mc (readFamily mem f) gl"
      using Cons.prems named by (simp add: sanitizeNamed_def hSanitizeLabels_family)
    moreover have "readFamily (fold (sanitizeNamed mc gl fs) ns ?mem) f = readFamily ?mem f"
    proof (rule readFamily_other)
      fix m assume "m \<in> set (sfMetric (memFamilies ?mem f))"
      then have "m \<notin> set (concat (map (namedMetrics ?mem fs) ns))"
        using Cons.prems(1) True named by auto
      then show "memMetrics (fold (sanitizeNamed mc gl fs) ns ?mem) m = memMetrics ?mem m"
        by (rule sanitizeNamed_fold_rest)
    qed (rule sanitizeNamed_fold_rest)
    ultimately show ?thesis by simp
  next
    case False
    have "m \<notin> set (namedMetrics mem fs n)" if "m \<in> set ?ms" for m
    proof -
      have "m \<in> (\<Union>a \<in> set ns. set (namedMetrics mem fs a))"
        using Cons.prems(3) False named that by (intro UN_I [of name]) simp_all
      then show ?thesis using Cons.prems(1) by auto
    qed
    then have "readFamily ?mem f = readFamily mem f"
      by (intro readFamily_other) simp_all
    then show ?thesis using Cons False by simp
  qed
qed simp

text \<open>
  The order in which the runtime visits a map of families: every name once.
\<close>

definition map_order :: "((string, nat) fmap \<Rightarrow> string list) \<Rightarrow> bool" where
  "map_order rng \<longleftrightarrow> (\<forall>fs. distinct (rng fs) \<and> set (rng fs) = fmdom' fs)"

lemma map_order_sortedKeys: "map_order sortedKeys"
  by (simp add: map_order_def)

lemma map_order_mset:
  assumes "map_order rng"
  shows "mset (concat (map f (rng fs))) = mset (concat (map f (sortedKeys fs)))"
proof -
  have "mset (rng fs) = mset (sortedKeys fs)"
    using assms by (simp add: map_order_def set_eq_iff_mset_eq_distinct [symmetric])
  moreover have "mset (concat (map f xs)) = sum_mset (image_mset (\<lambda>x. mset (f x)) (mset xs))" for xs
    by (induction xs) simp_all
  ultimately show ?thesis by simp
qed

lemma hSanitizeRequest_fold:
  "hSanitizeRequest mc rng gl r mem = fold (sanitizeNamed mc gl (memRequests mem r)) (rng (memRequests mem r)) mem"
  unfolding hSanitizeRequest_def sanitizeNamed_def ..

lemma requestMetrics_set: "set (requestMetrics mem r) = metricsOf mem (requestFamilies mem r)"
proof -
  have named: "x \<in> set (namedMetrics mem fs n) \<longleftrightarrow> (\<exists>f. fmlookup fs n = Some f \<and> x \<in> set (sfMetric (memFamilies mem f)))"
    for x fs n by (cases "fmlookup fs n") (simp_all add: namedMetrics_def)
  have "set (requestMetrics mem r) = (\<Union>n \<in> fmdom' (memRequests mem r). set (namedMetrics mem (memRequests mem r) n))"
    by (simp add: requestMetrics_def)
  also have "\<dots> = metricsOf mem (requestFamilies mem r)"
    unfolding metricsOf_def requestFamilies_def set_eq_iff UN_iff named mem_Collect_eq Bex_def fmdom'_iff_Some by blast
  finally show ?thesis .
qed

lemma hSanitizeRequest_spec:
  fixes mem gl r mc rng
  defines "mem' \<equiv> hSanitizeRequest mc rng gl r mem"
  assumes "map_order rng" "distinct (requestMetrics mem r)"
  shows "changes (metricsOf mem (requestFamilies mem r)) {} {} mem mem'"
    "memFamilies mem' = memFamilies mem" "memRequests mem' = memRequests mem"
    "memTables mem' = memTables mem" "memNext mem' = memNext mem"
    "readFamilies mem' r = fmmap (\<lambda>mf. sanitizeLabels mc mf gl) (readFamilies mem r)"
proof -
  let ?fs = "memRequests mem r" and ?named = "namedMetrics mem (memRequests mem r)"
  have ms: "mset (concat (map ?named (rng ?fs))) = mset (requestMetrics mem r)"
    unfolding requestMetrics_def by (rule map_order_mset [OF assms(2)])
  then have set: "set (concat (map ?named (rng ?fs))) = metricsOf mem (requestFamilies mem r)"
    by (metis requestMetrics_set set_mset_mset)
  have dist: "distinct (concat (map ?named (rng ?fs)))"
    using ms assms(3) by (metis mset_eq_imp_distinct_iff)
  note rest = sanitizeNamed_fold_rest [where mc = mc and gl = gl and fs = ?fs and ns = "rng ?fs" and mem = mem, folded hSanitizeRequest_fold, folded mem'_def]
  show eqs: "memFamilies mem' = memFamilies mem" "memRequests mem' = memRequests mem"
    "memTables mem' = memTables mem" "memNext mem' = memNext mem"
    using rest(1-4) by simp_all
  show "changes (metricsOf mem (requestFamilies mem r)) {} {} mem mem'"
    using rest(5) mem_ok_cong [of mem' mem] unfolding set by (simp add: changes_def eqs)
  show "readFamilies mem' r = fmmap (\<lambda>mf. sanitizeLabels mc mf gl) (readFamilies mem r)"
  proof (rule fmap_ext)
    fix n
    have dom: "distinct (rng ?fs)" "set (rng ?fs) = fmdom' ?fs" using assms(2) by (simp_all add: map_order_def)
    have "readFamily mem' f = sanitizeLabels mc (readFamily mem f) gl" if "fmlookup ?fs n = Some f" for f
      unfolding mem'_def hSanitizeRequest_fold
      using dist dom that by (intro sanitizeNamed_fold_family [of mem ?fs "rng ?fs" n f]) (simp_all add: fmdom'_iff_Some)
    then show "fmlookup (readFamilies mem' r) n = fmlookup (fmmap (\<lambda>mf. sanitizeLabels mc mf gl) (readFamilies mem r)) n"
      by (cases "fmlookup ?fs n") (simp_all add: readFamilies_def eqs)
  qed
qed

section \<open>Push timestamps\<close>

lemma hNewTimestampGauge_spec:
  assumes "hNewTimestampGauge mc name help gl t mem = (f, mem')"
  shows "changes {} {} {} mem mem'" "memNext mem \<le> f" "f < memNext mem'"
    "memTables mem' = memTables mem" "memRequests mem' = memRequests mem"
    "metricsOf mem' {f} \<subseteq> {memNext mem..}" "readFamily mem' f = newTimestampGauge mc name help gl t"
proof -
  let ?n = "memNext mem"
  let ?fam = "\<lparr>sfName = Some name, sfHelp = Some help, sfType = Some GAUGE, sfMetric = [?n]\<rparr>"
  define mem2 where "mem2 = mem\<lparr>memMetrics := (memMetrics mem)(?n := gaugeMetric (timestampValue t)),
    memFamilies := (memFamilies mem)(Suc ?n := ?fam), memNext := Suc (Suc ?n)\<rparr>"
  have f: "f = Suc ?n" and mem': "mem' = hSanitizeLabels mc (Suc ?n) gl mem2"
    using assms by (auto simp: hNewTimestampGauge_def newMetric_def newFamily_def mem2_def)
  have m2: "memFamilies mem2 f = ?fam" "memNext mem2 = Suc (Suc ?n)" "memTables mem2 = memTables mem"
    "memRequests mem2 = memRequests mem" "memMetrics mem2 ?n = gaugeMetric (timestampValue t)"
    "q \<noteq> ?n \<Longrightarrow> memMetrics mem2 q = memMetrics mem q" "q \<noteq> f \<Longrightarrow> memFamilies mem2 q = memFamilies mem q" for q
    by (simp_all add: mem2_def f)
  have same: "memMetrics mem' p = memMetrics mem p" if "p < ?n" for p
    using that m2 f by (simp add: mem' hSanitizeLabels_other)
  have fam: "memFamilies mem' = (memFamilies mem)(f := ?fam)" by (simp add: mem' mem2_def f)
  have "mem_ok mem'" if "mem_ok mem"
    unfolding mem_ok_def
  proof
    fix g
    have "set (sfMetric (memFamilies mem g)) \<subseteq> {..<?n}" using that by (simp add: mem_ok_def)
    then have "set (sfMetric (memFamilies mem g)) \<subseteq> {..<Suc (Suc ?n)}" by force
    then show "set (sfMetric (memFamilies mem' g)) \<subseteq> {..<memNext mem'}"
      by (simp add: fam) (simp add: mem' m2)
  qed
  then show "changes {} {} {} mem mem'"
    using same by (simp add: changes_def fam f) (simp add: mem' m2)
  show "memNext mem \<le> f" "f < memNext mem'" "memTables mem' = memTables mem" "memRequests mem' = memRequests mem"
    by (simp_all add: f mem' m2)
  show "metricsOf mem' {f} \<subseteq> {memNext mem..}" by (simp add: metricsOf_def fam)
  have "readFamily mem' f = sanitizeLabels mc (readFamily mem2 f) gl"
    unfolding mem' f [symmetric] by (rule hSanitizeLabels_family) (simp add: m2)
  then show "readFamily mem' f = newTimestampGauge mc name help gl t"
    by (simp add: readFamily_def m2 newTimestampGauge_def Let_def)
qed

end
