(* ===== verification/SharedWrites.thy ===== *)
theory SharedWrites
  imports SharedFrame
begin

text \<open>
  What the mutators, the copy of the groups, the merge and the check of SharedMem read and
  change: for each of them a frame and an equation that reads the memory afterwards as the
  result of the operation on values.
\<close>

section \<open>Assigning to the table of a group\<close>

lemma readGroup_sel [simp]:
  "mgLabels (readGroup mem g) = sgLabels g" "mgMetrics (readGroup mem g) = readTable mem (sgTable g)"
  "(readGroup mem g)\<lparr>mgMetrics := ms\<rparr> = \<lparr>mgLabels = sgLabels g, mgMetrics = ms\<rparr>"
  by (simp_all add: readGroup_def)

definition tablesAt :: "string \<Rightarrow> shared_groups \<Rightarrow> nat set" where
  "tablesAt key groups = (case fmlookup groups key of None \<Rightarrow> {} | Some g \<Rightarrow> {sgTable g})"

lemma tablesAt_of: "tablesAt key groups \<subseteq> tablesOf groups"
  by (auto simp: tablesAt_def tablesOf_def split: option.splits)

lemma tablesOf_lookup: "fmlookup groups k = Some g \<Longrightarrow> sgTable g \<in> tablesOf groups"
  by (auto simp: tablesOf_def)

lemma tables_distinct_fmupd:
  assumes "tables_distinct groups" "\<And>k a. fmlookup groups k = Some a \<Longrightarrow> sgTable a \<noteq> sgTable g"
  shows "tables_distinct (fmupd key g groups)"
  using assms assms(2) [symmetric] unfolding tables_distinct_def by (simp split: if_splits)

lemma tablesOf_fmupd:
  assumes "fmlookup groups key = None"
  shows "tablesOf (fmupd key g groups) = insert (sgTable g) (tablesOf groups)"
proof -
  have "fmlookup (fmupd key g groups) k = Some a \<longleftrightarrow> k = key \<and> a = g \<or> fmlookup groups k = Some a" for k a
    using assms by auto
  then show ?thesis unfolding tablesOf_def insert_def by (simp only:) blast
qed

lemma readGroups_lookup:
  "fmlookup (readGroups mem groups) key = map_option (readGroup mem) (fmlookup groups key)"
  by (simp add: readGroups_def)

lemma readGroups_setTable:
  assumes "tables_distinct groups" "fmlookup groups key = Some g"
  shows "readGroups (setTable (sgTable g) es mem) groups =
    fmupd key \<lparr>mgLabels = sgLabels g, mgMetrics = fmmap (readEntry mem) es\<rparr> (readGroups mem groups)"
proof (rule fmap_ext)
  fix k
  show "fmlookup (readGroups (setTable (sgTable g) es mem) groups) k =
    fmlookup (fmupd key \<lparr>mgLabels = sgLabels g, mgMetrics = fmmap (readEntry mem) es\<rparr> (readGroups mem groups)) k"
  proof (cases "k = key")
    case True
    then show ?thesis using assms by (simp add: readGroups_lookup readGroup_def readTable_def)
  next
    case False
    then have "sgTable g' \<noteq> sgTable g" if "fmlookup groups k = Some g'" for g'
      using assms that unfolding tables_distinct_def by blast
    then show ?thesis
      using False by (cases "fmlookup groups k") (simp_all add: readGroups_lookup readGroup_def readTable_def)
  qed
qed

lemma groups_setTable:
  assumes "groups_ok mem groups" "entryFamilies es \<subseteq> {..<memNext mem}"
  shows "groups_ok (setTable t es mem) groups"
    "groupsFamilies (setTable t es mem) groups \<subseteq> groupsFamilies mem groups \<union> entryFamilies es"
proof -
  show fam: "groupsFamilies (setTable t es mem) groups \<subseteq> groupsFamilies mem groups \<union> entryFamilies es"
    by (auto simp: groupsFamilies_def tableFamilies_def split: if_splits)
  show "groups_ok (setTable t es mem) groups"
    using assms fam unfolding groups_ok_def by auto
qed

lemma tableFamilies_groups: "fmlookup groups key = Some g \<Longrightarrow> tableFamilies mem (sgTable g) \<subseteq> groupsFamilies mem groups"
  by (auto simp: groupsFamilies_def tablesOf_def)

lemma entryFamilies_simps:
  "entryFamilies fmempty = {}" "entryFamilies (fmfilter P es) \<subseteq> entryFamilies es"
  "entryFamilies (es ++\<^sub>f fs) \<subseteq> entryFamilies es \<union> entryFamilies fs"
  "entryFamilies (fmupd n e es) \<subseteq> entryFamilies es \<union> (case seFamily e of None \<Rightarrow> {} | Some f \<Rightarrow> {f})"
  by (auto simp: entryFamilies_def fmlookup_add_option split: option.splits if_splits)

lemma entryFamilies_map:
  "entryFamilies (fmmap (\<lambda>mf. \<lparr>seTimestamp = t, seFamily = Some mf\<rparr>) (memRequests mem r)) = requestFamilies mem r"
proof -
  have "(\<exists>e. map_option (\<lambda>mf. \<lparr>seTimestamp = t, seFamily = Some mf\<rparr>) x = Some e \<and> seFamily e = Some f) \<longleftrightarrow> x = Some f" for x f
    by (cases x) auto
  then show ?thesis unfolding entryFamilies_def requestFamilies_def fmlookup_map by simp
qed

lemma fmmap_algebra:
  "fmmap f (fmfilter P m) = fmfilter P (fmmap f m)" "fmmap f (m ++\<^sub>f n) = fmmap f m ++\<^sub>f fmmap f n"
  "fmmap f (fmupd k v m) = fmupd k (f v) (fmmap f m)" "fmmap f fmempty = fmempty"
  by (auto intro!: fmap_ext simp: fmlookup_add_option split: option.split)

text \<open>
  The outcome of an operation that works on the group of \<open>key\<close>: the rest of the store keeps its
  tables, and what the groups reach afterwards they reached before, or it comes from \<open>X\<close>, or it
  is new.
\<close>

definition group_update ::
  "string \<Rightarrow> nat set \<Rightarrow> nat set \<Rightarrow> shared_memory \<Rightarrow> shared_groups \<Rightarrow> shared_memory \<Rightarrow> shared_groups \<Rightarrow> bool" where
  "group_update key X R mem groups mem' groups' \<longleftrightarrow>
     changes {} (tablesAt key groups) R mem mem' \<and> groups_ok mem' groups' \<and> tables_distinct groups' \<and>
     tablesOf groups' \<subseteq> tablesOf groups \<union> {memNext mem..} \<and>
     metricsOf mem' (groupsFamilies mem' groups') \<subseteq> metricsOf mem (groupsFamilies mem groups) \<union> X \<union> {memNext mem..}"

lemma hEnterGroup_spec:
  assumes "hEnterGroup lbls key groups mem = (g, groups', mem')" "mem_ok mem" "groups_ok mem groups" "tables_distinct groups"
  shows "changes {} {} {} mem mem'" "fmlookup groups' key = Some g" "groups_ok mem' groups'" "tables_distinct groups'"
    "memMetrics mem' = memMetrics mem" "memFamilies mem' = memFamilies mem" "memRequests mem' = memRequests mem"
    "readGroups mem' groups' = (if fmlookup groups key = None then fmupd key (emptyGroup lbls) (readGroups mem groups) else readGroups mem groups)"
    "tablesOf groups' \<subseteq> tablesOf groups \<union> {memNext mem..}" "sgTable g \<in> tablesAt key groups \<union> {memNext mem..}"
    "groupsFamilies mem' groups' = groupsFamilies mem groups"
proof -
  have "changes {} {} {} mem mem' \<and> fmlookup groups' key = Some g \<and> groups_ok mem' groups' \<and> tables_distinct groups' \<and>
    memMetrics mem' = memMetrics mem \<and> memFamilies mem' = memFamilies mem \<and> memRequests mem' = memRequests mem \<and>
    readGroups mem' groups' = (if fmlookup groups key = None then fmupd key (emptyGroup lbls) (readGroups mem groups) else readGroups mem groups) \<and>
    tablesOf groups' \<subseteq> tablesOf groups \<union> {memNext mem..} \<and> sgTable g \<in> tablesAt key groups \<union> {memNext mem..} \<and>
    groupsFamilies mem' groups' = groupsFamilies mem groups"
    (is ?spec)
  proof (cases "fmlookup groups key")
    case (Some a)
    then have "g = a" "groups' = groups" "mem' = mem" using assms(1) by (simp_all add: hEnterGroup_def)
    then show ?spec
      using assms Some by (simp add: tablesAt_def)
  next
    case None
    obtain t where nt: "newTable fmempty mem = (t, mem')" and g: "g = \<lparr>sgLabels = lbls, sgTable = t\<rparr>"
      and groups': "groups' = fmupd key g groups"
      using assms(1) None by (auto simp: hEnterGroup_def Let_def split: prod.splits)
    note nt = newTable_spec [OF nt]
    have old: "sgTable a \<noteq> t" if "fmlookup groups k = Some a" for k a
    proof -
      have "sgTable a \<in> tablesOf groups" using that by (auto simp: tablesOf_def)
      then show ?thesis using assms(3) nt(1) by (auto simp: groups_ok_def)
    qed
    note frame = groups_frame_read [OF nt(7) assms(2,3), simplified]
    have tab: "tablesOf groups' = insert t (tablesOf groups)"
      by (simp add: groups' g tablesOf_fmupd None)
    have fam: "groupsFamilies mem' groups' = groupsFamilies mem groups"
      using frame(2) nt(3) unfolding groupsFamilies_def tab by (simp add: tableFamilies_def entryFamilies_simps)
    have "tables_distinct groups'"
      using old unfolding groups' g by (intro tables_distinct_fmupd assms(4)) simp
    moreover have "readGroups mem' groups' = fmupd key (emptyGroup lbls) (readGroups mem groups)"
      using frame(1) nt(3) by (simp add: readGroups_def groups' fmmap_algebra readGroup_def g readTable_def emptyGroup_def)
    moreover have "groups_ok mem' groups'"
      using frame(3) nt(1,2) assms(3) unfolding groups_ok_def fam tab by auto
    ultimately show ?spec
      using None nt fam tab by (auto simp: groups' g)
  qed
  then show "changes {} {} {} mem mem'" "fmlookup groups' key = Some g" "groups_ok mem' groups'" "tables_distinct groups'"
    "memMetrics mem' = memMetrics mem" "memFamilies mem' = memFamilies mem" "memRequests mem' = memRequests mem"
    "readGroups mem' groups' = (if fmlookup groups key = None then fmupd key (emptyGroup lbls) (readGroups mem groups) else readGroups mem groups)"
    "tablesOf groups' \<subseteq> tablesOf groups \<union> {memNext mem..}" "sgTable g \<in> tablesAt key groups \<union> {memNext mem..}"
    "groupsFamilies mem' groups' = groupsFamilies mem groups" by blast+
qed

section \<open>Adding a gauge to a request\<close>

lemma request_gauge:
  assumes "hNewTimestampGauge mc name help gl ts mem = (p, mem1)" "mem_ok mem" "request_ok mem r"
  defines "mem2 \<equiv> setRequest r (fmupd name p (memRequests mem1 r)) mem1"
  shows "changes {} {} {r} mem mem2" "memTables mem2 = memTables mem" "request_ok mem2 r"
    "readFamilies mem2 r = fmupd name (newTimestampGauge mc name help gl ts) (readFamilies mem r)"
    "metricsOf mem2 (requestFamilies mem2 r) \<subseteq> metricsOf mem (requestFamilies mem r) \<union> {memNext mem..}"
proof -
  note g = hNewTimestampGauge_spec [OF assms(1)]
  note frame = request_frame_read [OF g(1) assms(2,3), simplified]
  show ch: "changes {} {} {r} mem mem2"
    unfolding mem2_def by (rule changes_trans [OF changes_mono [OF g(1)] changes_setRequest]) auto
  show "memTables mem2 = memTables mem" by (simp add: mem2_def g(4))
  have fam: "requestFamilies mem2 r \<subseteq> insert p (requestFamilies mem r)"
    using g(5) by (auto simp: mem2_def requestFamilies_def split: if_splits)
  have ok: "requestFamilies mem r \<subseteq> {..<memNext mem}" "r < memNext mem" using assms(3) by (simp_all add: request_ok_def)
  show "request_ok mem2 r"
    using fam ok g(2,3) changesD(1) [OF g(1)] by (force simp: request_ok_def mem2_def)
  show "readFamilies mem2 r = fmupd name (newTimestampGauge mc name help gl ts) (readFamilies mem r)"
    using frame(1) g(5,7) by (simp add: readFamilies_def mem2_def fmmap_algebra)
  have "metricsOf mem2 (insert p (requestFamilies mem r)) = metricsOf mem2 {p} \<union> metricsOf mem2 (requestFamilies mem r)"
    by (simp add: metricsOf_def)
  moreover have "metricsOf mem2 {p} \<subseteq> {memNext mem..}" using g(6) by (simp add: mem2_def metricsOf_def)
  ultimately show "metricsOf mem2 (requestFamilies mem2 r) \<subseteq> metricsOf mem (requestFamilies mem r) \<union> {memNext mem..}"
    using metricsOf_mono [OF fam, of mem2] metricsOf_frame [OF ch ok(1)] by blast
qed

lemmas push_gauge_defs = hNewPushTimestampGauge_def hNewPushFailedTimestampGauge_def

lemmas value_gauge_defs = newPushTimestampGauge_def newPushFailedTimestampGauge_def

text \<open>The two additions of a push: the second depends on the table of the group.\<close>

lemma request_gauges:
  assumes ok: "mem_ok mem" "request_ok mem r"
    and p: "hNewPushTimestampGauge mc gl ts mem = (p, mem1)"
    and m2: "mem2 = setRequest r (fmupd pushMetricName p (memRequests mem1 r)) mem1"
    and m3: "mem3 = (if absent
         then let (q, m) = hNewPushFailedTimestampGauge mc gl zeroTime mem2
              in setRequest r (fmupd pushFailedMetricName q (memRequests m r)) m
         else mem2)"
  shows "changes {} {} {r} mem mem3" "memTables mem3 = memTables mem" "request_ok mem3 r" "memTables mem2 = memTables mem"
    "readFamilies mem3 r = (let fs = fmupd pushMetricName (newPushTimestampGauge mc gl ts) (readFamilies mem r)
       in if absent then fmupd pushFailedMetricName (newPushFailedTimestampGauge mc gl zeroTime) fs else fs)"
    "metricsOf mem3 (requestFamilies mem3 r) \<subseteq> metricsOf mem (requestFamilies mem r) \<union> {memNext mem..}"
proof -
  note one = request_gauge [OF p [unfolded push_gauge_defs] ok, folded m2 value_gauge_defs]
  have ok2: "mem_ok mem2" using changesD(2) [OF one(1) ok(1)] .
  show "memTables mem2 = memTables mem" by (rule one(2))
  have "changes {} {} {r} mem mem3 \<and> memTables mem3 = memTables mem \<and> request_ok mem3 r \<and>
    readFamilies mem3 r = (let fs = fmupd pushMetricName (newPushTimestampGauge mc gl ts) (readFamilies mem r)
       in if absent then fmupd pushFailedMetricName (newPushFailedTimestampGauge mc gl zeroTime) fs else fs) \<and>
    metricsOf mem3 (requestFamilies mem3 r) \<subseteq> metricsOf mem (requestFamilies mem r) \<union> {memNext mem..}" (is ?spec)
  proof (cases absent)
    case False
    then show ?spec using one m3 by simp
  next
    case True
    obtain q m where q: "hNewPushFailedTimestampGauge mc gl zeroTime mem2 = (q, m)" by (rule prod.exhaust)
    have m3': "mem3 = setRequest r (fmupd pushFailedMetricName q (memRequests m r)) m" using m3 True q by simp
    note two = request_gauge [OF q [unfolded push_gauge_defs] ok2 one(3), folded m3' value_gauge_defs]
    have "changes {} {} {r} mem mem3" by (rule changes_trans [OF one(1) two(1)]) auto
    moreover have "{memNext mem2..} \<subseteq> {memNext mem..}" using changesD(1) [OF one(1)] by simp
    ultimately show ?spec using True one two by (auto simp: Let_def)
  qed
  then show "changes {} {} {r} mem mem3" "memTables mem3 = memTables mem" "request_ok mem3 r"
    "readFamilies mem3 r = (let fs = fmupd pushMetricName (newPushTimestampGauge mc gl ts) (readFamilies mem r)
       in if absent then fmupd pushFailedMetricName (newPushFailedTimestampGauge mc gl zeroTime) fs else fs)"
    "metricsOf mem3 (requestFamilies mem3 r) \<subseteq> metricsOf mem (requestFamilies mem r) \<union> {memNext mem..}" by blast+
qed

section \<open>Processing a request\<close>

lemma process_delete_shared:
  assumes "hProcessWriteRequest mc groups wr mem = (groups', mem')" "srFamilies wr = None" "groups_ok mem groups" "tables_distinct groups"
  shows "mem' = mem" "readGroups mem' groups' = fmdrop (groupingKeyFor mc (srLabels wr)) (readGroups mem groups)"
    "group_update key X R mem groups mem' groups'"
proof -
  have eq: "mem' = mem" "groups' = fmdrop (groupingKeyFor mc (srLabels wr)) groups"
    using assms(1,2) by (simp_all add: hProcessWriteRequest_def)
  show "mem' = mem" by (rule eq(1))
  show "readGroups mem' groups' = fmdrop (groupingKeyFor mc (srLabels wr)) (readGroups mem groups)"
    unfolding eq readGroups_def by (rule fmap_ext) simp
  have "tablesOf groups' \<subseteq> tablesOf groups" by (auto simp: tablesOf_def eq split: if_splits)
  moreover from this have "groupsFamilies mem groups' \<subseteq> groupsFamilies mem groups" by (auto simp: groupsFamilies_def)
  moreover from this have "metricsOf mem (groupsFamilies mem groups') \<subseteq> metricsOf mem (groupsFamilies mem groups)"
    by (rule metricsOf_mono)
  moreover have "tables_distinct groups'" using assms(4) unfolding tables_distinct_def eq by (simp split: if_splits)
  ultimately show "group_update key X R mem groups mem' groups'"
    using assms(3) unfolding group_update_def groups_ok_def eq(1) by blast
qed

text \<open>The group that a push starts from: entered if it is new, emptied if the push replaces.\<close>

lemma base_group_shared:
  assumes ok: "mem_ok mem" "groups_ok mem groups" "tables_distinct groups"
    and enter: "hEnterGroup lbls key groups mem = (g, groups', mem1)"
    and m2: "mem2 = (if fmlookup groups key \<noteq> None \<and> wrReplace wr
         then setTable (sgTable g) (fmfilter isPushMetric (memTables mem1 (sgTable g))) mem1 else mem1)"
    and lbls: "wrLabels wr = lbls"
  shows "changes {} {sgTable g} {} mem mem2" "groups_ok mem2 groups'" "memRequests mem2 = memRequests mem"
    "readFamily mem2 = readFamily mem" "memFamilies mem2 = memFamilies mem"
    "groupsFamilies mem2 groups' \<subseteq> groupsFamilies mem groups"
    "readGroups mem2 groups' = fmupd key (baseGroup wr (fmlookup (readGroups mem groups) key)) (readGroups mem groups)"
proof -
  note e = hEnterGroup_spec [OF enter ok]
  let ?es = "fmfilter isPushMetric (memTables mem1 (sgTable g))"
  have es: "entryFamilies ?es \<subseteq> groupsFamilies mem1 groups'"
    using entryFamilies_simps(2) tableFamilies_groups [OF e(2), of mem1] unfolding tableFamilies_def by blast
  have es_ok: "entryFamilies ?es \<subseteq> {..<memNext mem1}" using es e(3) unfolding groups_ok_def by blast
  note set = groups_setTable [OF e(3) es_ok, of "sgTable g"]
  show "changes {} {sgTable g} {} mem mem2"
    unfolding m2 using changes_trans [OF changes_mono [OF e(1)] changes_setTable] changes_mono [OF e(1)]
    by simp
  show "groups_ok mem2 groups'" unfolding m2 using set(1) e(3) by simp
  show "memRequests mem2 = memRequests mem" "memFamilies mem2 = memFamilies mem"
    unfolding m2 using e(6,7) by simp_all
  show "readFamily mem2 = readFamily mem" unfolding m2 using read_cong(1) [OF e(6,5)] by simp
  show "groupsFamilies mem2 groups' \<subseteq> groupsFamilies mem groups"
    unfolding m2 using set(2) es e(11) by auto
  show "readGroups mem2 groups' = fmupd key (baseGroup wr (fmlookup (readGroups mem groups) key)) (readGroups mem groups)"
  proof (cases "fmlookup groups key")
    case None
    then have "fmlookup (readGroups mem groups) key = None" by (simp add: readGroups_lookup)
    then show ?thesis using e(8) None by (simp add: m2 baseGroup_def lbls)
  next
    case (Some a)
    then have eq: "g = a" "groups' = groups" "mem1 = mem" using enter by (simp_all add: hEnterGroup_def)
    have og: "fmlookup (readGroups mem groups) key = Some (readGroup mem a)" by (simp add: readGroups_lookup Some)
    show ?thesis
    proof (cases "wrReplace wr")
      case True
      have "baseGroup wr (Some (readGroup mem a)) =
          \<lparr>mgLabels = sgLabels a, mgMetrics = fmmap (readEntry mem) (fmfilter isPushMetric (memTables mem (sgTable a)))\<rparr>"
        unfolding fmmap_algebra(1) readTable_def [symmetric] baseGroup_def option.case readGroup_sel using True by simp
      moreover have "mem2 = setTable (sgTable a) (fmfilter isPushMetric (memTables mem (sgTable a))) mem"
        unfolding m2 eq using True Some by simp
      ultimately show ?thesis
        unfolding og eq(2) using readGroups_setTable [OF ok(3) Some] by (simp only:)
    next
      case False
      then have "mem2 = mem" by (simp add: m2 eq)
      then show ?thesis using False og by (simp add: eq baseGroup_def)
    qed
  qed
qed

text \<open>The memory just before the table of the group is assigned: the request has its push timestamps.\<close>

lemma augmented_shared:
  assumes fs: "srFamilies wr = Some r"
    and ok: "mem_ok mem" "groups_ok mem groups" "tables_distinct groups" "request_ok mem r"
    and dms: "metricGroups dms = readGroups mem groups"
    and enter: "hEnterGroup (srLabels wr) (groupingKeyFor mc (srLabels wr)) groups mem = (g, gs, mem1)"
    and m2: "mem2 = (if fmlookup groups (groupingKeyFor mc (srLabels wr)) \<noteq> None \<and> srReplace wr
       then setTable (sgTable g) (fmfilter isPushMetric (memTables mem1 (sgTable g))) mem1 else mem1)"
    and gauge: "hNewPushTimestampGauge mc (srLabels wr) (srTimestamp wr) mem2 = (p, mem3)"
    and m4: "mem4 = setRequest r (fmupd pushMetricName p (memRequests mem3 r)) mem3"
    and m5: "mem5 = (if fmlookup (memTables mem4 (sgTable g)) pushFailedMetricName = None
       then let (q, m) = hNewPushFailedTimestampGauge mc (srLabels wr) zeroTime mem4
            in setRequest r (fmupd pushFailedMetricName q (memRequests m r)) m else mem4)"
  defines "B \<equiv> baseGroup (readRequest mem wr) (groupOf mc dms (readRequest mem wr))"
  shows "changes {} {sgTable g} {r} mem mem5" "groups_ok mem5 gs" "request_ok mem5 r"
    "readGroup mem5 g = B" "readGroups mem5 gs = fmupd (groupingKeyFor mc (srLabels wr)) B (readGroups mem groups)"
    "readFamilies mem5 r = augmented mc (readRequest mem wr) (groupOf mc dms (readRequest mem wr)) (readFamilies mem r)"
    "metricsOf mem5 (groupsFamilies mem5 gs) \<subseteq> metricsOf mem (groupsFamilies mem groups)"
    "metricsOf mem5 (requestFamilies mem5 r) \<subseteq> metricsOf mem (requestFamilies mem r) \<union> {memNext mem..}"
proof -
  let ?key = "groupingKeyFor mc (srLabels wr)" and ?wr = "readRequest mem wr"
  have wr: "wrReplace ?wr = srReplace wr" "wrLabels ?wr = srLabels wr" "wrTimestamp ?wr = srTimestamp wr"
    by (simp_all add: readRequest_def)
  have og: "groupOf mc dms ?wr = fmlookup (readGroups mem groups) ?key" by (simp add: groupOf_def keyOf_def dms wr)
  note e = hEnterGroup_spec [OF enter ok(1-3)]
  note b = base_group_shared [OF ok(1-3) enter m2 [folded wr(1)] wr(2), folded og, folded B_def]
  have ok2: "mem_ok mem2" using changesD(2) [OF b(1) ok(1)] .
  have r2: "request_ok mem2 r" "requestFamilies mem2 r = requestFamilies mem r" "metricsOf mem2 = metricsOf mem"
    using ok(4) b(3,5) changesD(1) [OF b(1)] by (force simp: request_ok_def requestFamilies_def metricsOf_def fun_eq_iff)+
  note q = request_gauges [OF ok2 r2(1) gauge m4 m5]
  note f = groups_frame_read [OF q(1) ok2 b(2), simplified]
  show "changes {} {sgTable g} {r} mem mem5" by (rule changes_trans [OF changes_mono [OF b(1)] q(1)]) auto
  show "groups_ok mem5 gs" "request_ok mem5 r" by (rule f(3), rule q(3))
  show all: "readGroups mem5 gs = fmupd ?key B (readGroups mem groups)" using f(1) b(7) by simp
  then show at: "readGroup mem5 g = B" using e(2) readGroups_lookup [of mem5 gs ?key] by simp
  have "mgMetrics B = readTable mem5 (sgTable g)" unfolding at [symmetric] by simp
  then have "(fmlookup (memTables mem4 (sgTable g)) pushFailedMetricName = None) = (fmlookup (mgMetrics B) pushFailedMetricName = None)"
    using q(2,4) by (simp add: readTable_def)
  then show "readFamilies mem5 r = augmented mc ?wr (groupOf mc dms ?wr) (readFamilies mem r)"
    using q(5) b(3,4) unfolding augmented_def B_def [symmetric] wr by (simp add: readFamilies_def Let_def)
  show "metricsOf mem5 (groupsFamilies mem5 gs) \<subseteq> metricsOf mem (groupsFamilies mem groups)"
    using metricsOf_mono [OF b(6)] f(4) r2(3) by simp
  have "{memNext mem2..} \<subseteq> {memNext mem..}" using changesD(1) [OF b(1)] by simp
  then show "metricsOf mem5 (requestFamilies mem5 r) \<subseteq> metricsOf mem (requestFamilies mem r) \<union> {memNext mem..}"
    by (rule order_trans [OF q(6) [unfolded r2(2,3)] Un_mono [OF order_refl]])
qed

text \<open>The assignment to the table: the families of the request are entered with its time.\<close>

lemma entered_shared:
  assumes ok: "groups_ok mem groups" "request_ok mem r" "tables_distinct groups" "fmlookup groups key = Some g"
    and es: "es = fmmap (\<lambda>mf. \<lparr>seTimestamp = ts, seFamily = Some mf\<rparr>) (memRequests mem r)"
    and m: "mem' = setTable (sgTable g) (memTables mem (sgTable g) ++\<^sub>f es) mem"
  shows "groups_ok mem' groups" "request_ok mem' r" "readFamilies mem' r = readFamilies mem r"
    "requestFamilies mem' r = requestFamilies mem r" "metricsOf mem' = metricsOf mem"
    "readGroups mem' groups = fmupd key \<lparr>mgLabels = sgLabels g,
       mgMetrics = mgMetrics (readGroup mem g) ++\<^sub>f fmmap (stamp ts) (readFamilies mem r)\<rparr> (readGroups mem groups)"
    "groupsFamilies mem' groups \<subseteq> groupsFamilies mem groups \<union> requestFamilies mem r"
proof -
  let ?t = "sgTable g"
  let ?new = "memTables mem ?t ++\<^sub>f es"
  have fam: "entryFamilies es = requestFamilies mem r" unfolding es by (rule entryFamilies_map)
  have "entryFamilies (memTables mem ?t) \<subseteq> groupsFamilies mem groups"
    using tableFamilies_groups [OF ok(4), of mem] by (simp add: tableFamilies_def)
  then have all: "entryFamilies ?new \<subseteq> groupsFamilies mem groups \<union> requestFamilies mem r"
    using entryFamilies_simps(3) fam by fast
  have "groupsFamilies mem groups \<subseteq> {..<memNext mem}" "requestFamilies mem r \<subseteq> {..<memNext mem}"
    using ok by (simp_all add: groups_ok_def request_ok_def)
  then have bound: "entryFamilies ?new \<subseteq> {..<memNext mem}" using all by blast
  note set = groups_setTable [OF ok(1) bound, of ?t, folded m]
  show "groups_ok mem' groups" by (rule set(1))
  show "groupsFamilies mem' groups \<subseteq> groupsFamilies mem groups \<union> requestFamilies mem r" using set(2) all by blast
  show same: "metricsOf mem' = metricsOf mem" "requestFamilies mem' r = requestFamilies mem r"
    by (simp_all add: m metricsOf_def requestFamilies_def fun_eq_iff)
  show "readFamilies mem' r = readFamilies mem r" by (simp add: m readFamilies_def)
  show "request_ok mem' r" using ok(2) by (simp add: request_ok_def same) (simp add: m)
  have "fmmap (readEntry mem) es = fmmap (stamp ts) (readFamilies mem r)"
    by (rule fmap_ext) (simp add: es readFamilies_def option.map_comp comp_def readEntry_def stamp_def)
  then show "readGroups mem' groups = fmupd key \<lparr>mgLabels = sgLabels g,
       mgMetrics = mgMetrics (readGroup mem g) ++\<^sub>f fmmap (stamp ts) (readFamilies mem r)\<rparr> (readGroups mem groups)"
    using readGroups_setTable [OF ok(3,4), of ?new mem] by (simp add: m fmmap_algebra(2) readTable_def)
qed

lemma process_update_shared:
  assumes run: "hProcessWriteRequest mc groups wr mem = (groups', mem')" and fs: "srFamilies wr = Some r"
    and ok: "mem_ok mem" "groups_ok mem groups" "tables_distinct groups" "request_ok mem r"
    and dms: "metricGroups dms = readGroups mem groups"
  shows "group_update (groupingKeyFor mc (srLabels wr)) (metricsOf mem (requestFamilies mem r)) {r} mem groups mem' groups'"
    "readGroups mem' groups' = metricGroups (fst (processWriteRequest mc dms (readRequest mem wr)))"
    "readFamilies mem' r = augmented mc (readRequest mem wr) (groupOf mc dms (readRequest mem wr)) (readFamilies mem r)"
    "request_ok mem' r" "metricsOf mem' (requestFamilies mem' r) \<subseteq> metricsOf mem (requestFamilies mem r) \<union> {memNext mem..}"
proof -
  let ?key = "groupingKeyFor mc (srLabels wr)" and ?wr = "readRequest mem wr"
  obtain g gs mem1 where enter: "hEnterGroup (srLabels wr) ?key groups mem = (g, gs, mem1)" by (rule prod_cases3)
  define mem2 where "mem2 = (if fmlookup groups ?key \<noteq> None \<and> srReplace wr
     then setTable (sgTable g) (fmfilter isPushMetric (memTables mem1 (sgTable g))) mem1 else mem1)"
  obtain p mem3 where gauge: "hNewPushTimestampGauge mc (srLabels wr) (srTimestamp wr) mem2 = (p, mem3)" by (rule prod.exhaust)
  define mem4 where "mem4 = setRequest r (fmupd pushMetricName p (memRequests mem3 r)) mem3"
  define mem5 where "mem5 = (if fmlookup (memTables mem4 (sgTable g)) pushFailedMetricName = None
     then let (q, m) = hNewPushFailedTimestampGauge mc (srLabels wr) zeroTime mem4
          in setRequest r (fmupd pushFailedMetricName q (memRequests m r)) m else mem4)"
  define es where "es = fmmap (\<lambda>mf. \<lparr>seTimestamp = srTimestamp wr, seFamily = Some mf\<rparr>) (memRequests mem5 r)"
  have "hProcessWriteRequest mc groups wr mem = (gs, setTable (sgTable g) (memTables mem5 (sgTable g) ++\<^sub>f es) mem5)"
    unfolding hProcessWriteRequest_def fs option.case Let_def enter prod.case mem2_def [symmetric]
      gauge mem4_def [symmetric] mem5_def [unfolded Let_def, symmetric] es_def [symmetric] ..
  then have out: "groups' = gs" "mem' = setTable (sgTable g) (memTables mem5 (sgTable g) ++\<^sub>f es) mem5"
    using run by simp_all
  note e = hEnterGroup_spec [OF enter ok(1-3)]
  note a = augmented_shared [OF fs ok dms enter mem2_def gauge mem4_def mem5_def]
  note n = entered_shared [OF a(2,3) e(4,2) es_def out(2)]
  have wr: "wrLabels ?wr = srLabels wr" "wrTimestamp ?wr = srTimestamp wr" "wrMetricFamilies ?wr = Some (readFamilies mem r)"
    by (simp_all add: readRequest_def fs)
  show "readFamilies mem' r = augmented mc ?wr (groupOf mc dms ?wr) (readFamilies mem r)" using n(3) a(6) by simp
  show "request_ok mem' r" by (rule n(2))
  show "metricsOf mem' (requestFamilies mem' r) \<subseteq> metricsOf mem (requestFamilies mem r) \<union> {memNext mem..}"
    unfolding n(4,5) by (rule a(8))
  have "sgLabels g = mgLabels (readGroup mem5 g)" by simp
  then have "\<lparr>mgLabels = sgLabels g, mgMetrics = mgMetrics (readGroup mem5 g) ++\<^sub>f fmmap (stamp (srTimestamp wr)) (readFamilies mem5 r)\<rparr> =
      updatedGroup mc ?wr (groupOf mc dms ?wr) (readFamilies mem r)"
    unfolding updatedGroup_def a(4,6) wr(2) by (intro MetricGroup_eqI) simp_all
  then show "readGroups mem' groups' = metricGroups (fst (processWriteRequest mc dms ?wr))"
    unfolding out(1) n(6) a(5) by (simp add: process_update [OF wr(3)] keyOf_def wr dms)
  have "metricsOf mem' (groupsFamilies mem' groups') \<subseteq>
      metricsOf mem (groupsFamilies mem groups) \<union> metricsOf mem (requestFamilies mem r) \<union> {memNext mem..}"
    using metricsOf_mono [OF n(7), of mem5] a(7,8) unfolding n(5) out(1) metricsOf_Un by blast
  moreover have "changes {} (tablesAt ?key groups) {r} mem mem'"
  proof -
    have "changes {} {sgTable g} {r} mem mem'" unfolding out(2) by (rule changes_trans [OF a(1) changes_setTable]) auto
    then show ?thesis by (rule changes_trans [OF changes_refl]) (use e(10) in auto)
  qed
  ultimately show "group_update ?key (metricsOf mem (requestFamilies mem r)) {r} mem groups mem' groups'"
    using n(1) e(4,9) unfolding group_update_def out(1) by simp
qed

section \<open>Recording a failure\<close>

lemma table_gauge:
  fixes ts :: gotime
  assumes gauge: "hNewTimestampGauge mc name help gl t mem = (q, mem1)"
    and ok: "mem_ok mem" "groups_ok mem groups" "tables_distinct groups" "fmlookup groups key = Some g"
  defines "mem2 \<equiv> setTable (sgTable g)
    (fmupd name \<lparr>seTimestamp = ts, seFamily = Some q\<rparr> (memTables mem1 (sgTable g))) mem1"
  shows "changes {} {sgTable g} {} mem mem2" "groups_ok mem2 groups"
    "readTable mem2 (sgTable g) = fmupd name (stamp ts (newTimestampGauge mc name help gl t)) (readTable mem (sgTable g))"
    "readGroups mem2 groups =
       fmupd key \<lparr>mgLabels = sgLabels g, mgMetrics = readTable mem2 (sgTable g)\<rparr> (readGroups mem groups)"
    "metricsOf mem2 (groupsFamilies mem2 groups) \<subseteq> metricsOf mem (groupsFamilies mem groups) \<union> {memNext mem..}"
proof -
  let ?t = "sgTable g"
  let ?es = "fmupd name \<lparr>seTimestamp = ts, seFamily = Some q\<rparr> (memTables mem1 ?t)"
  note n = hNewTimestampGauge_spec [OF gauge]
  note f = groups_frame_read [OF n(1) ok(1,2), simplified]
  show "changes {} {?t} {} mem mem2"
    unfolding mem2_def by (rule changes_trans [OF changes_mono [OF n(1)] changes_setTable]) auto
  have same: "readTable mem1 ?t = readTable mem ?t"
    using f(1) ok(4) readGroups_lookup [of mem1 groups key] readGroups_lookup [of mem groups key]
    by (simp add: readGroup_def)
  have "readEntry mem1 \<lparr>seTimestamp = ts, seFamily = Some q\<rparr> = stamp ts (newTimestampGauge mc name help gl t)"
    by (simp add: readEntry_def stamp_def n(7))
  then show tab: "readTable mem2 ?t = fmupd name (stamp ts (newTimestampGauge mc name help gl t)) (readTable mem ?t)"
    by (simp add: readTable_def mem2_def fmmap_algebra same [unfolded readTable_def])
  show "readGroups mem2 groups = fmupd key \<lparr>mgLabels = sgLabels g, mgMetrics = readTable mem2 ?t\<rparr> (readGroups mem groups)"
    unfolding mem2_def readGroups_setTable [OF ok(3,4)] f(1) by (simp add: readTable_def)
  have es: "entryFamilies ?es \<subseteq> insert q (groupsFamilies mem1 groups)"
    using entryFamilies_simps(4) [of name "\<lparr>seTimestamp = ts, seFamily = Some q\<rparr>" "memTables mem1 ?t"]
      tableFamilies_groups [OF ok(4), of mem1] by (auto simp: tableFamilies_def)
  have "groupsFamilies mem1 groups \<subseteq> {..<memNext mem1}" using f(3) by (simp add: groups_ok_def)
  then have bound: "entryFamilies ?es \<subseteq> {..<memNext mem1}" using es n(3) by auto
  note set = groups_setTable [OF f(3) bound, of ?t, folded mem2_def]
  show "groups_ok mem2 groups" by (rule set(1))
  have "groupsFamilies mem2 groups \<subseteq> {q} \<union> groupsFamilies mem groups" using set(2) es f(2) by auto
  then have "metricsOf mem1 (groupsFamilies mem2 groups) \<subseteq> metricsOf mem1 {q} \<union> metricsOf mem1 (groupsFamilies mem groups)"
    unfolding metricsOf_Un [symmetric] by (rule metricsOf_mono)
  moreover have "metricsOf mem2 = metricsOf mem1" by (simp add: mem2_def metricsOf_def fun_eq_iff)
  ultimately show "metricsOf mem2 (groupsFamilies mem2 groups) \<subseteq> metricsOf mem (groupsFamilies mem groups) \<union> {memNext mem..}"
    using n(6) f(2,4) by auto
qed

lemma failure_shared:
  assumes run: "hSetPushFailedTimestamp mc groups wr mem = (groups', mem')"
    and ok: "mem_ok mem" "groups_ok mem groups" "tables_distinct groups"
    and dms: "metricGroups dms = readGroups mem groups" and wr: "wrLabels wrv = srLabels wr" "wrTimestamp wrv = srTimestamp wr"
  shows "group_update (groupingKeyFor mc (srLabels wr)) {} {} mem groups mem' groups'"
    "readGroups mem' groups' = metricGroups (setPushFailedTimestamp mc dms wrv)"
proof -
  let ?key = "groupingKeyFor mc (srLabels wr)" and ?ts = "srTimestamp wr"
  let ?og = "fmlookup (readGroups mem groups) ?key"
  obtain g gs mem1 where enter: "hEnterGroup (srLabels wr) ?key groups mem = (g, gs, mem1)" by (rule prod_cases3)
  define t where "t = sgTable g"
  obtain q mem2 where gauge: "hNewPushFailedTimestampGauge mc (srLabels wr) ?ts mem1 = (q, mem2)" by (rule prod.exhaust)
  define mem3 where "mem3 = setTable t (fmupd pushFailedMetricName \<lparr>seTimestamp = ?ts, seFamily = Some q\<rparr> (memTables mem2 t)) mem2"
  define absent where "absent = (fmlookup (memTables mem3 t) pushMetricName = None)"
  define mem4 where "mem4 = (if absent then let (p, m) = hNewPushTimestampGauge mc (srLabels wr) zeroTime mem3
      in setTable t (fmupd pushMetricName \<lparr>seTimestamp = ?ts, seFamily = Some p\<rparr> (memTables m t)) m else mem3)"
  have "hSetPushFailedTimestamp mc groups wr mem = (gs, mem4)"
    unfolding hSetPushFailedTimestamp_def Let_def enter prod.case t_def [symmetric] gauge mem3_def [symmetric]
      absent_def [symmetric] mem4_def [unfolded Let_def, symmetric] ..
  then have out: "groups' = gs" "mem' = mem4" using run by simp_all
  note e = hEnterGroup_spec [OF enter ok]
  have ok1: "mem_ok mem1" using changesD(2) [OF e(1) ok(1)] .
  note one = table_gauge [OF gauge [unfolded push_gauge_defs] ok1 e(3,4,2), where ts = ?ts,
      folded t_def, folded mem3_def value_gauge_defs]
  have ok3: "mem_ok mem3" using changesD(2) [OF one(1) ok1] .
  let ?G = "case ?og of None \<Rightarrow> emptyGroup (srLabels wr) | Some a \<Rightarrow> a"
  have G1: "readGroups mem1 gs = fmupd ?key ?G (readGroups mem groups)"
    using e(8) by (auto simp: readGroups_lookup split: option.split)
  have atG: "readGroup mem1 g = ?G"
    using G1 e(2) readGroups_lookup [of mem1 gs ?key] by simp
  have g1: "sgLabels g = mgLabels ?G" "readTable mem1 t = mgMetrics ?G"
    unfolding atG [symmetric] by (simp_all add: t_def)
  let ?failed = "stamp ?ts (newPushFailedTimestampGauge mc (srLabels wr) ?ts)"
  let ?never = "stamp ?ts (newPushTimestampGauge mc (srLabels wr) zeroTime)"
  have T3: "readTable mem3 t = fmupd pushFailedMetricName ?failed (mgMetrics ?G)" using one(3) g1(2) by simp
  have "absent = (fmlookup (readTable mem3 t) pushMetricName = None)" by (simp add: absent_def readTable_def)
  then have absent: "absent = (fmlookup (mgMetrics ?G) pushMetricName = None)" by (simp add: T3)
  have key: "groupOf mc dms wrv = ?og" by (simp add: groupOf_def keyOf_def dms wr)
  have "changes {} {t} {} mem1 mem4 \<and> groups_ok mem4 gs \<and>
    readGroups mem4 gs = fmupd ?key \<lparr>mgLabels = sgLabels g, mgMetrics = readTable mem4 t\<rparr> (readGroups mem groups) \<and>
    readTable mem4 t = (if absent then fmupd pushMetricName ?never (readTable mem3 t) else readTable mem3 t) \<and>
    metricsOf mem4 (groupsFamilies mem4 gs) \<subseteq> metricsOf mem1 (groupsFamilies mem1 gs) \<union> {memNext mem1..}" (is ?spec)
  proof (cases absent)
    case False
    then show ?spec using one G1 by (simp add: mem4_def)
  next
    case True
    obtain p m where p: "hNewPushTimestampGauge mc (srLabels wr) zeroTime mem3 = (p, m)" by (rule prod.exhaust)
    have m4: "mem4 = setTable t (fmupd pushMetricName \<lparr>seTimestamp = ?ts, seFamily = Some p\<rparr> (memTables m t)) m"
      using True p by (simp add: mem4_def)
    note two = table_gauge [OF p [unfolded push_gauge_defs] ok3 one(2) e(4,2), where ts = ?ts,
        folded t_def, folded m4 value_gauge_defs]
    have "changes {} {t} {} mem1 mem4" by (rule changes_trans [OF one(1) two(1)]) auto
    moreover have "{memNext mem3..} \<subseteq> {memNext mem1..}" using changesD(1) [OF one(1)] by simp
    ultimately show ?spec using True one(4,5) two(2-5) G1 by auto
  qed
  note four = this
  have "\<lparr>mgLabels = sgLabels g, mgMetrics = readTable mem4 t\<rparr> = failedGroup mc wrv ?og"
  proof -
    have "readTable mem4 t = (if fmlookup (mgMetrics ?G) pushMetricName = None
        then fmupd pushMetricName ?never (fmupd pushFailedMetricName ?failed (mgMetrics ?G))
        else fmupd pushFailedMetricName ?failed (mgMetrics ?G))"
      using four unfolding T3 absent by (simp only:)
    then show ?thesis unfolding failedGroup_def Let_def wr g1(1) by (intro MetricGroup_eqI) simp_all
  qed
  then show "readGroups mem' groups' = metricGroups (setPushFailedTimestamp mc dms wrv)"
    using four unfolding setPushFailed_update key by (simp only: out keyOf_def wr dms) simp
  have "{t} \<subseteq> tablesAt ?key groups \<union> {memNext mem..}" using e(10) by (simp add: t_def)
  then have "changes {} (tablesAt ?key groups) {} mem mem4"
    using changes_trans [OF changes_mono [OF e(1)], of "{}" "tablesAt ?key groups" "{}" "{}" "{t}" "{}" mem4] four by simp
  moreover have "metricsOf mem4 (groupsFamilies mem4 gs) \<subseteq> metricsOf mem (groupsFamilies mem groups) \<union> {} \<union> {memNext mem..}"
  proof -
    have "metricsOf mem1 (groupsFamilies mem1 gs) = metricsOf mem (groupsFamilies mem groups)"
      using e(6,11) by (simp add: metricsOf_def)
    moreover have "{memNext mem1..} \<subseteq> {memNext mem..}" using changesD(1) [OF e(1)] by simp
    moreover have "metricsOf mem4 (groupsFamilies mem4 gs) \<subseteq> metricsOf mem1 (groupsFamilies mem1 gs) \<union> {memNext mem1..}"
      using four by (elim conjE)
    ultimately show ?thesis by auto
  qed
  ultimately show "group_update ?key {} {} mem groups mem' groups'"
    using four e(4,9) unfolding group_update_def out by simp
qed

end
