(* ===== verification/SharedReads.thy ===== *)
theory SharedReads
  imports SharedWrites
begin

text \<open>
  The two operations that hand references out: \<open>GetMetricFamiliesMap\<close>, whose tables are new and
  whose families are those of the store, and \<open>GetMetricFamilies\<close>, which returns stored families
  and new ones that share the stored metrics.  Neither assigns to an object that existed
  before; the check, which is built from them, only sanitises and extends its request.
\<close>

section \<open>Copying the groups\<close>

definition copied :: "shared_memory \<Rightarrow> shared_groups \<Rightarrow> shared_groups \<times> shared_memory \<Rightarrow> bool" where
  "copied mem0 groups st \<longleftrightarrow> (case st of (gc, mem) \<Rightarrow>
     changes {} {} {} mem0 mem \<and> memMetrics mem = memMetrics mem0 \<and> memFamilies mem = memFamilies mem0 \<and>
     memRequests mem = memRequests mem0 \<and> tables_distinct gc \<and>
     (\<forall>k c. fmlookup gc k = Some c \<longrightarrow> memNext mem0 \<le> sgTable c \<and> sgTable c < memNext mem \<and>
        (\<exists>g. fmlookup groups k = Some g \<and> sgLabels c = sgLabels g \<and>
           memTables mem (sgTable c) = memTables mem0 (sgTable g))))"

lemma copied_step:
  assumes "copied mem0 groups st" "groups_ok mem0 groups" "fmlookup groups key = Some g"
  shows "copied mem0 groups (hCopyGroup groups key st)"
    "fmdom' (fst (hCopyGroup groups key st)) = insert key (fmdom' (fst st))"
proof -
  obtain gc mem where st: "st = (gc, mem)" by (rule prod.exhaust)
  define t where "t = memNext mem"
  obtain mem1 where nt: "newTable fmempty mem = (t, mem1)" by (simp add: newTable_def t_def)
  note n = newTable_spec [OF nt]
  define c where "c = \<lparr>sgLabels = sgLabels g, sgTable = t\<rparr>"
  define mem2 where "mem2 = setTable t (memTables mem1 t ++\<^sub>f memTables mem1 (sgTable g)) mem1"
  have step: "hCopyGroup groups key st = (fmupd key c gc, mem2)"
    using nt assms(3) by (simp add: st hCopyGroup_def c_def mem2_def)
  have inv: "changes {} {} {} mem0 mem" "memMetrics mem = memMetrics mem0" "memFamilies mem = memFamilies mem0"
    "memRequests mem = memRequests mem0" "tables_distinct gc"
    and each: "\<And>k c. fmlookup gc k = Some c \<Longrightarrow> memNext mem0 \<le> sgTable c \<and> sgTable c < memNext mem \<and>
        (\<exists>g. fmlookup groups k = Some g \<and> sgLabels c = sgLabels g \<and> memTables mem (sgTable c) = memTables mem0 (sgTable g))"
    using assms(1) unfolding copied_def st by simp_all
  have "sgTable g \<in> tablesOf groups" using assms(3) by (auto simp: tablesOf_def)
  then have g: "sgTable g < memNext mem0" using assms(2) by (auto simp: groups_ok_def)
  then have "memTables mem (sgTable g) = memTables mem0 (sgTable g)" using changesD(5) [OF inv(1)] by simp
  moreover have "sgTable g \<noteq> t" using g changesD(1) [OF inv(1)] by (simp add: t_def)
  ultimately have tables: "memTables mem2 = (memTables mem)(t := memTables mem0 (sgTable g))"
    by (auto simp: mem2_def n(3) fmap_ext fun_eq_iff)
  have next2: "memNext mem2 = Suc t" using n(2) by (simp add: mem2_def t_def)
  have "changes {} {} {} mem0 mem2"
  proof (rule changes_trans [OF changes_trans [OF inv(1) n(7)]])
    show "changes {} {t} {} mem1 mem2" unfolding mem2_def by (rule changes_setTable)
    show "{t} \<subseteq> {} \<union> {memNext mem0..}" using changesD(1) [OF inv(1)] by (simp add: t_def)
  qed auto
  moreover have "tables_distinct (fmupd key c gc)"
    by (intro tables_distinct_fmupd inv(5)) (use each in \<open>force simp: c_def t_def\<close>)
  moreover have "memNext mem0 \<le> sgTable d \<and> sgTable d < memNext mem2 \<and>
        (\<exists>g. fmlookup groups k = Some g \<and> sgLabels d = sgLabels g \<and> memTables mem2 (sgTable d) = memTables mem0 (sgTable g))"
    if "fmlookup (fmupd key c gc) k = Some d" for k d
  proof (cases "k = key")
    case True
    then show ?thesis
      using that assms(3) next2 changesD(1) [OF inv(1)] by (auto simp: c_def tables t_def)
  next
    case False
    then have "fmlookup gc k = Some d" using that by simp
    with each [OF this] show ?thesis using next2 by (auto simp: tables t_def)
  qed
  ultimately show "copied mem0 groups (hCopyGroup groups key st)"
    using inv(2-4) n(4-6) unfolding copied_def step by (simp add: mem2_def)
  show "fmdom' (fst (hCopyGroup groups key st)) = insert key (fmdom' (fst st))"
    unfolding step by (simp add: st)
qed

lemma copied_fold:
  assumes "copied mem0 groups st" "groups_ok mem0 groups" "set ks \<subseteq> fmdom' groups"
  shows "copied mem0 groups (fold (hCopyGroup groups) ks st) \<and>
    fmdom' (fst (fold (hCopyGroup groups) ks st)) = set ks \<union> fmdom' (fst st)"
  using assms
proof (induction ks arbitrary: st)
  case (Cons k ks)
  then obtain g where "fmlookup groups k = Some g" by (auto simp: fmdom'_iff_Some)
  from copied_step [OF Cons.prems(1,2) this] show ?case using Cons by simp
qed simp

lemma copy_shared:
  assumes run: "hGetMetricFamiliesMap groups mem = (gc, mem')" and ok: "mem_ok mem" "groups_ok mem groups"
  shows "changes {} {} {} mem mem'" "memMetrics mem' = memMetrics mem" "memFamilies mem' = memFamilies mem"
    "memRequests mem' = memRequests mem" "readGroups mem' gc = readGroups mem groups" "tables_distinct gc"
    "groups_ok mem' gc" "tablesOf gc \<subseteq> {memNext mem..}" "groupsFamilies mem' gc = groupsFamilies mem groups"
proof -
  have "copied mem groups (fmempty, mem)" by (simp add: copied_def tables_distinct_def)
  from copied_fold [OF this ok(2), of "sortedKeys groups"]
  have cp: "copied mem groups (gc, mem')" and dom: "fmdom' gc = fmdom' groups"
    using run by (simp_all add: hGetMetricFamiliesMap_def)
  from cp show ch: "changes {} {} {} mem mem'" and "memMetrics mem' = memMetrics mem" and
    fam: "memFamilies mem' = memFamilies mem" and "memRequests mem' = memRequests mem" and "tables_distinct gc"
    by (simp_all add: copied_def)
  have each: "memNext mem \<le> sgTable c \<and> sgTable c < memNext mem' \<and>
      (\<exists>g. fmlookup groups k = Some g \<and> sgLabels c = sgLabels g \<and> memTables mem' (sgTable c) = memTables mem (sgTable g))"
    if "fmlookup gc k = Some c" for k c
    using cp that by (simp add: copied_def)
  have read: "readEntry mem' = readEntry mem" using cp by (intro read_cong(2)) (simp_all add: copied_def)
  have lookup: "fmlookup gc k = None \<longleftrightarrow> fmlookup groups k = None" for k
    using dom fmdom'_iff_not_None [of k] by metis
  show "readGroups mem' gc = readGroups mem groups"
  proof (rule fmap_ext)
    fix k
    show "fmlookup (readGroups mem' gc) k = fmlookup (readGroups mem groups) k"
    proof (cases "fmlookup gc k")
      case None
      then show ?thesis using lookup by (simp add: readGroups_lookup)
    next
      case (Some c)
      then show ?thesis using each [OF Some] by (auto simp: readGroups_lookup readGroup_def readTable_def read)
    qed
  qed
  have tab: "tablesOf gc \<subseteq> {memNext mem..<memNext mem'}" using each by (auto simp: tablesOf_def)
  then show "tablesOf gc \<subseteq> {memNext mem..}" by auto
  have "tableFamilies mem' ` tablesOf gc = tableFamilies mem ` tablesOf groups"
  proof (intro equalityI subsetI)
    fix F assume "F \<in> tableFamilies mem' ` tablesOf gc"
    then obtain k c where c: "fmlookup gc k = Some c" "F = tableFamilies mem' (sgTable c)" by (auto simp: tablesOf_def)
    with each [OF c(1)] show "F \<in> tableFamilies mem ` tablesOf groups"
      by (auto simp: tableFamilies_def intro!: imageI tablesOf_lookup)
  next
    fix F assume "F \<in> tableFamilies mem ` tablesOf groups"
    then obtain k g where g: "fmlookup groups k = Some g" "F = tableFamilies mem (sgTable g)" by (auto simp: tablesOf_def)
    then obtain c where c: "fmlookup gc k = Some c" using lookup [of k] by (cases "fmlookup gc k") auto
    then have "F = tableFamilies mem' (sgTable c)" using each [OF c] g by (auto simp: tableFamilies_def)
    then show "F \<in> tableFamilies mem' ` tablesOf gc" using c by (auto intro!: imageI tablesOf_lookup)
  qed
  then show gf: "groupsFamilies mem' gc = groupsFamilies mem groups" by (simp add: groupsFamilies_def)
  show "groups_ok mem' gc"
    using tab ok(2) changesD(1) [OF ch] unfolding groups_ok_def gf by auto
qed

section \<open>Merging the families\<close>

text \<open>
  The merge of SharedMem and the one of Families, whose families hold their metrics as values,
  take the same steps.  \<open>base\<close> is the first address that was unused before the call, \<open>X\<close> the
  metrics that the merged families refer to.
\<close>

definition valueOf :: "shared_memory \<Rightarrow> shared_family \<Rightarrow> MetricFamily" where
  "valueOf mem f = \<lparr>mfName = sfName f, mfHelp = sfHelp f, mfType = sfType f, mfMetric = map (memMetrics mem) (sfMetric f)\<rparr>"

lemma readFamily_value: "readFamily mem p = valueOf mem (memFamilies mem p)"
  by (simp add: readFamily_def valueOf_def Let_def)

lemma setFamily_sel [simp]:
  "memFamilies (setFamily p f mem) = (memFamilies mem)(p := f)" "memMetrics (setFamily p f mem) = memMetrics mem"
  "memTables (setFamily p f mem) = memTables mem" "memRequests (setFamily p f mem) = memRequests mem"
  "memNext (setFamily p f mem) = memNext mem"
  by (simp_all add: setFamily_def)

lemma valueOf_cong: "memMetrics b = memMetrics a \<Longrightarrow> valueOf b f = valueOf a f"
  by (simp add: valueOf_def)

definition merge_rel :: "nat set \<Rightarrow> shared_memory \<Rightarrow> merge_state \<Rightarrow> gmf_heap \<Rightarrow> bool" where
  "merge_rel X mem0 s hs \<longleftrightarrow>
     mgResult s = ghResult hs \<and> mgStats s = ghStats hs \<and> memNext (mgMemory s) = ghFree hs \<and>
     memMetrics (mgMemory s) = memMetrics mem0 \<and> memTables (mgMemory s) = memTables mem0 \<and>
     memRequests (mgMemory s) = memRequests mem0 \<and>
     (\<forall>p < ghFree hs. deref (ghHeap hs) p = valueOf mem0 (memFamilies (mgMemory s) p)) \<and>
     (\<forall>p. p < memNext mem0 \<or> ghFree hs \<le> p \<longrightarrow> memFamilies (mgMemory s) p = memFamilies mem0 p) \<and>
     (\<forall>p. p \<in> set (mgResult s) \<or> memNext mem0 \<le> p \<and> p < ghFree hs \<longrightarrow> set (sfMetric (memFamilies (mgMemory s) p)) \<subseteq> X)"

lemma merge_relD:
  assumes "merge_rel X mem0 s hs"
  shows "mgResult s = ghResult hs" "mgStats s = ghStats hs" "memNext (mgMemory s) = ghFree hs"
    "memMetrics (mgMemory s) = memMetrics mem0" "memTables (mgMemory s) = memTables mem0"
    "memRequests (mgMemory s) = memRequests mem0"
    "\<And>p. p < ghFree hs \<Longrightarrow> deref (ghHeap hs) p = valueOf mem0 (memFamilies (mgMemory s) p)"
    "\<And>p. p < memNext mem0 \<or> ghFree hs \<le> p \<Longrightarrow> memFamilies (mgMemory s) p = memFamilies mem0 p"
    "\<And>p. p \<in> set (mgResult s) \<or> memNext mem0 \<le> p \<and> p < ghFree hs \<Longrightarrow> set (sfMetric (memFamilies (mgMemory s) p)) \<subseteq> X"
  using assms unfolding merge_rel_def by blast+

lemma valueOf_append:
  "valueOf mem (f\<lparr>sfMetric := sfMetric f @ sfMetric g\<rparr>) =
   (valueOf mem f)\<lparr>mfMetric := mfMetric (valueOf mem f) @ mfMetric (valueOf mem g)\<rparr>"
  "valueOf mem (f\<lparr>sfHelp := Some h\<rparr>) = (valueOf mem f)\<lparr>mfHelp := Some h\<rparr>"
  by (simp_all add: valueOf_def)

text \<open>The two elementary changes: copying a family to a new address, and assigning to a new one.\<close>

lemma merge_copy:
  assumes rel: "merge_rel X mem0 s hs" and p: "p < ghFree hs" "p \<in> set (mgResult s) \<or> set (sfMetric (memFamilies mem0 p)) \<subseteq> X \<and> p < memNext mem0"
    and base: "memNext mem0 \<le> ghFree hs" and copy: "mCopyMetricFamily p (mgMemory s) = (q, mem)"
    and result: "set r \<subseteq> insert (ghFree hs) (set (ghResult hs))"
  shows "q = ghFree hs"
    "merge_rel X mem0 (s\<lparr>mgStats := stats, mgMemory := mem, mgResult := r\<rparr>)
      (hs\<lparr>ghStats := stats, ghHeap := copyMetricFamily (ghHeap hs) (ghFree hs) p, ghFree := Suc (ghFree hs), ghResult := r\<rparr>)"
proof -
  note m = merge_relD [OF rel]
  let ?n = "ghFree hs"
  show q: "q = ?n" using copy m(3) by (auto simp: mCopyMetricFamily_def newFamily_def Let_def)
  have mem: "memFamilies mem = (memFamilies (mgMemory s))(?n := memFamilies (mgMemory s) p)"
    "memNext mem = Suc ?n" "memMetrics mem = memMetrics mem0" "memTables mem = memTables mem0" "memRequests mem = memRequests mem0"
    using copy m(3-6) by (auto simp: mCopyMetricFamily_def newFamily_def Let_def)
  have px: "set (sfMetric (memFamilies (mgMemory s) p)) \<subseteq> X" using m(8,9) p(2) by auto
  have "\<forall>a < Suc ?n. deref (copyMetricFamily (ghHeap hs) ?n p) a = valueOf mem0 (memFamilies mem a)"
    using m(7) p(1) by (simp add: deref_copy mem less_Suc_eq)
  moreover have "\<forall>a. a < memNext mem0 \<or> Suc ?n \<le> a \<longrightarrow> memFamilies mem a = memFamilies mem0 a"
    using m(8) base by (auto simp: mem)
  moreover have "\<forall>a. a \<in> set r \<or> memNext mem0 \<le> a \<and> a < Suc ?n \<longrightarrow> set (sfMetric (memFamilies mem a)) \<subseteq> X"
    using m(1,9) px result by (auto simp: mem)
  ultimately show "merge_rel X mem0 (s\<lparr>mgStats := stats, mgMemory := mem, mgResult := r\<rparr>)
      (hs\<lparr>ghStats := stats, ghHeap := copyMetricFamily (ghHeap hs) ?n p, ghFree := Suc ?n, ghResult := r\<rparr>)"
    unfolding merge_rel_def by (simp add: mem(2-5))
qed

lemma merge_set:
  assumes rel: "merge_rel X mem0 s hs" and p: "memNext mem0 \<le> p" "p < ghFree hs" and f: "set (sfMetric f) \<subseteq> X"
  shows "merge_rel X mem0 (s\<lparr>mgMemory := setFamily p f (mgMemory s)\<rparr>) (hs\<lparr>ghHeap := fmupd p (valueOf mem0 f) (ghHeap hs)\<rparr>)"
  using merge_relD [OF rel] p f unfolding merge_rel_def by (auto simp: deref_upd)

lemma mStep_known:
  assumes gmf: "gmf_rel h0 (memNext mem0) hs v" and rel: "merge_rel X mem0 s hs" and p: "p < memNext mem0"
    "set (sfMetric (memFamilies mem0 p)) \<subseteq> X" and Some: "fmlookup (ghStats hs) name = Some stat"
  shows "merge_rel X mem0 (mStep pre (name, Some p) s) (hStep pre (name, Some p) hs)"
proof -
  note g = gmf_relD [OF gmf] and m = merge_relD [OF rel]
  let ?i = "statPos stat" and ?n = "ghFree hs"
  have v: "fmlookup (snd v) name = Some stat" "fmlookup (mgStats s) name = Some stat" using g(2) m(2) Some by simp_all
  have i: "?i < length (ghResult hs)" using g(7) [OF v(1) [folded g(2)]] .
  define q where "q = ghResult hs ! ?i"
  have q: "q \<in> set (ghResult hs)" "q < ?n" using i g(5) by (simp_all add: q_def)
  have add: "merge_rel X mem0
      (t\<lparr>mgMemory := setFamily a ((memFamilies (mgMemory t) a)\<lparr>sfMetric := sfMetric (memFamilies (mgMemory t) a)
           @ sfMetric (memFamilies (mgMemory t) p)\<rparr>) (mgMemory t)\<rparr>)
      (ht\<lparr>ghHeap := fmupd a ((deref (ghHeap ht) a)\<lparr>mfMetric := mfMetric (deref (ghHeap ht) a)
           @ mfMetric (deref (ghHeap ht) p)\<rparr>) (ghHeap ht)\<rparr>)"
    if rt: "merge_rel X mem0 t ht" and a: "memNext mem0 \<le> a" "a < ghFree ht" for t ht a
  proof -
    note t = merge_relD [OF rt]
    have p': "p < ghFree ht" using p(1) a by simp
    have fam: "memFamilies (mgMemory t) p = memFamilies mem0 p" using t(8) p(1) by blast
    have "set (sfMetric ((memFamilies (mgMemory t) a)\<lparr>sfMetric := sfMetric (memFamilies (mgMemory t) a)
           @ sfMetric (memFamilies (mgMemory t) p)\<rparr>)) \<subseteq> X"
      using t(9) [of a] a p(2) fam by simp
    from merge_set [OF rt a this] show ?thesis
      unfolding valueOf_append t(7) [OF a(2)] t(7) [OF p'] .
  qed
  show ?thesis
  proof (cases "statCopied stat")
    case True
    then have "memNext mem0 \<le> q" using g(8) [OF v(1) [folded g(2)]] by (simp add: q_def)
    from add [OF rel this q(2)] show ?thesis
      using Some v(2) True m(1) by (simp add: mStep_def hStep_def q_def Let_def)
  next
    case False
    let ?stats = "fmupd name \<lparr>statPos = ?i, statCopied = True\<rparr> (ghStats hs)"
    obtain b mem where copy: "mCopyMetricFamily q (mgMemory s) = (b, mem)" by (rule prod.exhaust)
    have qX: "q \<in> set (mgResult s) \<or> set (sfMetric (memFamilies mem0 q)) \<subseteq> X \<and> q < memNext mem0"
      using q(1) m(1) by simp
    have res: "set ((ghResult hs)[?i := ?n]) \<subseteq> insert ?n (set (ghResult hs))"
      by (rule set_update_subset_insert)
    note c = merge_copy(1) [OF rel q(2) qX g(3) copy res] merge_copy(2) [OF rel q(2) qX g(3) copy res, where stats = ?stats]
    have b: "memNext mem0 \<le> b" using c(1) g(3) by simp
    from add [OF c(2) b] show ?thesis
      using Some v(2) False m(1,2) i c(1) copy
      by (simp add: mStep_def hStep_def Let_def flip: q_def)
  qed
qed

lemma mStep_new:
  assumes gmf: "gmf_rel h0 (memNext mem0) hs v" and rel: "merge_rel X mem0 s hs" and p: "p < memNext mem0"
    "set (sfMetric (memFamilies mem0 p)) \<subseteq> X" and None: "fmlookup (ghStats hs) name = None"
  shows "merge_rel X mem0 (mStep pre (name, Some p) s) (hStep pre (name, Some p) hs)"
proof -
  note g = gmf_relD [OF gmf] and m = merge_relD [OF rel]
  have p': "p < ghFree hs" using p(1) g(3) by simp
  have stats: "fmlookup (mgStats s) name = None" using m(2) None by simp
  have helps: "GetHelp (readFamily (mgMemory s) p) = GetHelp (deref (ghHeap hs) p)"
    unfolding readFamily_value m(7) [OF p'] valueOf_cong [OF m(4)] ..
  define rewrite where "rewrite = (case fmlookup pre name of
      Some h \<Rightarrow> if GetHelp (deref (ghHeap hs) p) \<noteq> h then Some h else None | None \<Rightarrow> None)"
  note fold1 = rewrite_def [symmetric]
  have fold2: "(case fmlookup pre name of Some h \<Rightarrow> if GetHelp (readFamily (mgMemory s) p) \<noteq> h then Some h else None
      | None \<Rightarrow> None) = rewrite"
    unfolding helps rewrite_def ..
  show ?thesis
  proof (cases rewrite)
    case rw: None
    let ?s = "s\<lparr>mgStats := fmupd name \<lparr>statPos = length (mgResult s), statCopied = False\<rparr> (mgStats s), mgResult := mgResult s @ [p]\<rparr>"
    let ?h = "hs\<lparr>ghStats := fmupd name \<lparr>statPos = length (ghResult hs), statCopied = False\<rparr> (ghStats hs), ghResult := ghResult hs @ [p]\<rparr>"
    have "mStep pre (name, Some p) s = ?s" "hStep pre (name, Some p) hs = ?h"
      using None stats rw unfolding mStep_def hStep_def prod.case option.case Let_def fold1 fold2 by simp_all
    moreover have "merge_rel X mem0 ?s ?h"
      using m p unfolding merge_rel_def by auto
    ultimately show ?thesis by simp
  next
    case rw: (Some help')
    let ?stats = "fmupd name \<lparr>statPos = length (ghResult hs), statCopied = True\<rparr> (ghStats hs)" and ?r = "ghResult hs @ [ghFree hs]"
    obtain b mem where copy: "mCopyMetricFamily p (mgMemory s) = (b, mem)" by (rule prod.exhaust)
    have pX: "p \<in> set (mgResult s) \<or> set (sfMetric (memFamilies mem0 p)) \<subseteq> X \<and> p < memNext mem0" using p by simp
    have res: "set ?r \<subseteq> insert (ghFree hs) (set (ghResult hs))" by simp
    note c = merge_copy(1) [OF rel p' pX g(3) copy res] merge_copy(2) [OF rel p' pX g(3) copy res, where stats = ?stats]
    note t = merge_relD [OF c(2)]
    let ?f = "(memFamilies mem b)\<lparr>sfHelp := Some help'\<rparr>"
    have b: "memNext mem0 \<le> b" "b < Suc (ghFree hs)" using c(1) g(3) by simp_all
    have "set (sfMetric ?f) \<subseteq> X" using t(9) [of b] b by simp
    from merge_set [OF c(2) b(1) _ this] b(2) show ?thesis
      using None stats rw m(1,2) c(1) copy t(7) [of b] b
      unfolding mStep_def hStep_def prod.case option.case Let_def fold1 fold2 valueOf_append
      by (simp add: merge_rel_def)
  qed
qed

lemma mStep_rel:
  assumes "gmf_rel h0 (memNext mem0) hs v" "merge_rel X mem0 s hs" "entry_old (memNext mem0) e"
    and "\<And>p. snd e = Some p \<Longrightarrow> set (sfMetric (memFamilies mem0 p)) \<subseteq> X"
  shows "merge_rel X mem0 (mStep pre e s) (hStep pre e hs)"
proof (cases "snd e")
  case None
  then show ?thesis using assms(2) by (cases e) (simp add: mStep_def hStep_def)
next
  case (Some p)
  then have p: "p < memNext mem0" "set (sfMetric (memFamilies mem0 p)) \<subseteq> X"
    using assms(3,4) by (simp_all add: entry_old_def)
  have e: "e = (fst e, Some p)" using Some by (cases e) simp
  show ?thesis
    using mStep_known [OF assms(1,2) p] mStep_new [OF assms(1,2) p] e
    by (cases "fmlookup (ghStats hs) (fst e)") metis+
qed

text \<open>A heap of family values that agrees with a memory.\<close>

definition heapOf :: "shared_memory \<Rightarrow> heap" where
  "heapOf mem = fmap_of_list (map (\<lambda>p. (p, readFamily mem p)) [0..<memNext mem])"

lemma deref_heapOf: "p < memNext mem \<Longrightarrow> deref (heapOf mem) p = readFamily mem p"
proof -
  assume "p < memNext mem"
  then have "map_of (map (\<lambda>p. (p, readFamily mem p)) [0..<memNext mem]) p = Some (readFamily mem p)"
    by (simp add: map_of_eq_Some_iff comp_def)
  then show ?thesis by (simp add: heapOf_def deref_def fmlookup_of_list)
qed

lemma hRanged_entries:
  assumes "e \<in> set (hRanged mem groups order)" "snd e = Some f"
  shows "f \<in> groupsFamilies mem groups"
proof -
  obtain k g n en where "fmlookup groups k = Some g" "fmlookup (memTables mem (sgTable g)) n = Some en" "seFamily en = Some f"
    using assms by (auto simp: hRanged_def split: option.splits)
  then show ?thesis using tableFamilies_groups by (fastforce simp: tableFamilies_def entryFamilies_def)
qed

lemma hRanged_values:
  assumes "groups_ok mem groups"
  shows "map (entryVal (heapOf mem)) (hRanged mem groups order) = ranged (readGroups mem groups) order"
proof -
  let ?look = "\<lambda>key name. case fmlookup groups key of None \<Rightarrow> None
     | Some g \<Rightarrow> (case fmlookup (memTables mem (sgTable g)) name of None \<Rightarrow> None | Some e \<Rightarrow> seFamily e)"
  have "map_option (deref (heapOf mem)) (?look key name) =
      (case fmlookup (readGroups mem groups) key of None \<Rightarrow> None | Some g \<Rightarrow> familyOf g name)" for key name
  proof (cases "?look key name")
    case None
    then show ?thesis
      by (auto simp: readGroups_lookup familyOf_def readTable_def readEntry_def split: option.splits)
  next
    case (Some f)
    then obtain g e where ge: "fmlookup groups key = Some g" "fmlookup (memTables mem (sgTable g)) name = Some e" "seFamily e = Some f"
      by (auto split: option.splits)
    then have "f \<in> groupsFamilies mem groups"
      using tableFamilies_groups by (fastforce simp: tableFamilies_def entryFamilies_def)
    then have "f < memNext mem" using assms by (auto simp: groups_ok_def)
    then show ?thesis
      using ge by (simp add: deref_heapOf readGroups_lookup familyOf_def readTable_def readEntry_def)
  qed
  then have "(\<lambda>name. (name, map_option (deref (heapOf mem)) (?look key name))) = (\<lambda>name.
      (name, case fmlookup (readGroups mem groups) key of None \<Rightarrow> None | Some g \<Rightarrow> familyOf g name))" for key
    by auto
  then show ?thesis
    unfolding hRanged_def ranged_def map_concat by (simp add: comp_def entryVal_def split_def)
qed

lemma merge_shared:
  assumes run: "mGetMetricFamilies pre groups order mem = (ps, mem')" and ok: "mem_ok mem" "groups_ok mem groups"
  shows "changes {} {} {} mem mem'" "memMetrics mem' = memMetrics mem" "memTables mem' = memTables mem"
    "memRequests mem' = memRequests mem" "set ps \<subseteq> {..<memNext mem'}"
    "map (readFamily mem') ps = GetMetricFamilies pre (readGroups mem groups) order"
    "metricsOf mem' (set ps) \<subseteq> metricsOf mem (groupsFamilies mem groups)"
proof -
  let ?es = "hRanged mem groups order" and ?X = "metricsOf mem (groupsFamilies mem groups)" and ?h0 = "heapOf mem"
  let ?sinit = "\<lparr>mgMemory = mem, mgResult = [], mgStats = fmempty\<rparr>"
  let ?hinit = "\<lparr>ghHeap = ?h0, ghFree = memNext mem, ghResult = [], ghStats = fmempty\<rparr>"
  have old: "entry_old (memNext mem) e" "snd e = Some p \<Longrightarrow> set (sfMetric (memFamilies mem p)) \<subseteq> ?X" if "e \<in> set ?es" for e p
    using hRanged_entries [OF that] ok(2) by (auto simp: entry_old_def groups_ok_def metricsOf_def split: option.split)
  have fold: "gmf_rel ?h0 (memNext mem) (fold (hStep pre) es hs) (fold (gmfStep pre) (map (entryVal ?h0) es) v) \<and>
      merge_rel X mem (fold (mStep pre) es s) (fold (hStep pre) es hs)"
    if "gmf_rel ?h0 (memNext mem) hs v" "merge_rel X mem s hs"
      "\<forall>e \<in> set es. entry_old (memNext mem) e \<and> (\<forall>p. snd e = Some p \<longrightarrow> set (sfMetric (memFamilies mem p)) \<subseteq> X)"
    for es s hs v X
    using that
  proof (induction es arbitrary: s hs v)
    case (Cons e es)
    then show ?case using hStep_rel [of ?h0 "memNext mem" hs v e pre] mStep_rel [of ?h0 mem hs v X s e pre] by simp
  qed simp
  let ?hs = "fold (hStep pre) ?es ?hinit" and ?s = "fold (mStep pre) ?es ?sinit"
  have "gmf_rel ?h0 (memNext mem) ?hinit ([], fmempty)" by (simp add: gmf_rel_def)
  moreover have "merge_rel ?X mem ?sinit ?hinit"
    by (auto simp: merge_rel_def deref_heapOf readFamily_value)
  ultimately have rel: "gmf_rel ?h0 (memNext mem) ?hs (fold (gmfStep pre) (ranged (readGroups mem groups) order) ([], fmempty))"
    "merge_rel ?X mem ?s ?hs"
    using fold old unfolding hRanged_values [OF ok(2), symmetric] by blast+
  note g = gmf_relD [OF rel(1)] and m = merge_relD [OF rel(2)]
  have out: "ps = ghResult ?hs" "mem' = mgMemory ?s"
    using run m(1) by (auto simp: mGetMetricFamilies_def Let_def)
  show mets: "memMetrics mem' = memMetrics mem" "memTables mem' = memTables mem" "memRequests mem' = memRequests mem"
    using m(4-6) by (simp_all add: out)
  show bound: "set ps \<subseteq> {..<memNext mem'}" using g(5) m(3) by (auto simp: out)
  have "readFamily mem' p = deref (ghHeap ?hs) p" if "p \<in> set ps" for p
  proof -
    have "p < ghFree ?hs" using that bound m(3) by (auto simp: out)
    then show ?thesis unfolding readFamily_value out(2) valueOf_cong [OF m(4)] using m(7) by simp
  qed
  then have "map (readFamily mem') ps = map (deref (ghHeap ?hs)) ps" by simp
  then show "map (readFamily mem') ps = GetMetricFamilies pre (readGroups mem groups) order"
    using g(1) by (simp add: out GetMetricFamilies_def)
  show X: "metricsOf mem' (set ps) \<subseteq> ?X" using m(1,9) by (fastforce simp: metricsOf_def out)
  have "mem_ok mem'"
    unfolding mem_ok_def
  proof
    fix f
    have bd: "{..<memNext mem} \<subseteq> {..<memNext mem'}" using g(3) m(3) by (simp add: out)
    consider "f < memNext mem \<or> memNext mem' \<le> f" | "memNext mem \<le> f" "f < memNext mem'" by linarith
    then have "set (sfMetric (memFamilies mem' f)) \<subseteq> {..<memNext mem}"
    proof cases
      case 1
      then have "memFamilies mem' f = memFamilies mem f" using m(3,8) by (simp add: out)
      then show ?thesis using ok(1) by (simp add: mem_ok_def)
    next
      case 2
      then have "set (sfMetric (memFamilies mem' f)) \<subseteq> ?X" using m(3,9) by (simp add: out)
      also have "?X \<subseteq> {..<memNext mem}" by (rule metricsOf_ok [OF ok(1)])
      finally show ?thesis .
    qed
    then show "set (sfMetric (memFamilies mem' f)) \<subseteq> {..<memNext mem'}" using bd by (rule order_trans)
  qed
  then show "changes {} {} {} mem mem'"
    using mets m(3,8) g(3) by (simp add: changes_def out)
qed

section \<open>The check\<close>

text \<open>What belongs to a request: its map of families and the metrics that the map reaches.\<close>

definition mapsOf :: "shared_request \<Rightarrow> nat set" where
  "mapsOf wr = set_option (srFamilies wr)"

definition ownMetrics :: "shared_memory \<Rightarrow> shared_request \<Rightarrow> nat set" where
  "ownMetrics mem wr = (\<Union>r \<in> mapsOf wr. metricsOf mem (requestFamilies mem r))"

lemma own_simps:
  "srFamilies wr = None \<Longrightarrow> mapsOf wr = {}" "srFamilies wr = None \<Longrightarrow> ownMetrics mem wr = {}"
  "srFamilies wr = Some r \<Longrightarrow> mapsOf wr = {r}"
  "srFamilies wr = Some r \<Longrightarrow> ownMetrics mem wr = metricsOf mem (requestFamilies mem r)"
  by (simp_all add: mapsOf_def ownMetrics_def)

text \<open>The trial of a push: its request processed on a copy of the groups, and the families of the result merged.\<close>

lemma trial_shared:
  assumes fs: "srFamilies wr = Some r" and ok: "mem_ok mem" "groups_ok mem groups" "request_ok mem r"
    and copy: "hGetMetricFamiliesMap groups mem = (tg, mem2)"
    and proc: "hProcessWriteRequest mc tg wr mem2 = (tg', mem3)"
    and merge: "mGetMetricFamilies pre tg' order mem3 = (mfs, mem4)"
    and t: "metricGroups t = readGroups mem groups"
  shows "changes {} {} {r} mem mem4" "request_ok mem4 r"
    "processWriteRequest mc t (readRequest mem wr) = (tdms, wr2) \<Longrightarrow>
      readGroups mem3 tg' = metricGroups tdms \<and> readRequest mem4 wr = wr2 \<and>
      map (readFamily mem4) mfs = GetMetricFamilies pre (metricGroups tdms) order"
    "metricsOf mem4 (requestFamilies mem4 r) \<subseteq> metricsOf mem (requestFamilies mem r) \<union> {memNext mem..}"
proof -
  note c = copy_shared [OF copy ok(1,2)]
  have ok2: "mem_ok mem2" using changesD(2) [OF c(1) ok(1)] .
  have req2: "requestFamilies mem2 r = requestFamilies mem r" "metricsOf mem2 = metricsOf mem" "request_ok mem2 r"
    using c(2-4) ok(3) changesD(1) [OF c(1)]
    by (auto simp: requestFamilies_def metricsOf_def request_ok_def fun_eq_iff)
  have read2: "readRequest mem2 wr = readRequest mem wr"
    unfolding readRequest_def fs readFamilies_def c(4) read_cong(1) [OF c(3,2)] ..
  note p = process_update_shared [OF proc fs ok2 c(7,6) req2(3) t [folded c(5)]]
  have up: "changes {} (tablesAt (groupingKeyFor mc (srLabels wr)) tg) {r} mem2 mem3" "groups_ok mem3 tg'"
    using p(1) by (simp_all add: group_update_def)
  have ok3: "mem_ok mem3" using changesD(2) [OF up(1) ok2] .
  note m = merge_shared [OF merge ok3 up(2)]
  have same: "readFamilies mem4 r = readFamilies mem3 r" "requestFamilies mem4 r = requestFamilies mem3 r" "request_ok mem4 r"
    using request_frame_read [OF m(1) ok3 p(4)] by simp_all
  show "request_ok mem4 r" by (rule same(3))
  show "readGroups mem3 tg' = metricGroups tdms \<and> readRequest mem4 wr = wr2 \<and>
      map (readFamily mem4) mfs = GetMetricFamilies pre (metricGroups tdms) order"
    if "processWriteRequest mc t (readRequest mem wr) = (tdms, wr2)"
  proof -
    have "snd (processWriteRequest mc t (readRequest mem2 wr)) = readRequest mem3 wr"
      using p(3) process_update [of "readRequest mem2 wr" "readFamilies mem2 r" mc t] by (simp add: readRequest_def fs)
    then have "wr2 = readRequest mem3 wr" using that unfolding read2 by simp
    moreover have "readRequest mem4 wr = readRequest mem3 wr" using same(1) by (simp add: readRequest_def fs)
    ultimately show ?thesis using p(2) m(6) that unfolding read2 by simp
  qed
  show "changes {} {} {r} mem mem4"
  proof -
    have "tablesAt (groupingKeyFor mc (srLabels wr)) tg \<subseteq> {memNext mem..}"
      using tablesAt_of [of "groupingKeyFor mc (srLabels wr)" tg] c(8) by (rule order_trans)
    then have "changes {} {} {r} mem mem3" by (intro changes_trans [OF changes_mono [OF c(1)] up(1)]) auto
    then show ?thesis by (rule changes_trans [OF _ m(1)]) auto
  qed
  have "requestFamilies mem3 r \<subseteq> {..<memNext mem3}" using p(4) by (simp add: request_ok_def)
  then have "metricsOf mem4 (requestFamilies mem4 r) = metricsOf mem3 (requestFamilies mem3 r)"
    unfolding same(2) by (rule metricsOf_frame [OF m(1)])
  also have "\<dots> \<subseteq> metricsOf mem (requestFamilies mem r) \<union> {memNext mem..}"
    using p(5) changesD(1) [OF c(1)] unfolding req2 by auto
  finally show "metricsOf mem4 (requestFamilies mem4 r) \<subseteq> metricsOf mem (requestFamilies mem r) \<union> {memNext mem..}" .
qed

text \<open>The check of a push, from its value on; \<open>mem1\<close> is the memory with the request sanitised.\<close>

lemma check_value:
  assumes "wrMetricFamilies wr = Some fams"
  shows "checkWriteRequest mc gather order dms wr =
    (if timestampsPresent fams then (False, wr, sentTo wr errTimestamp)
     else let wr1 = sanitizeRequest mc wr fams in
       if wrDone wr = None then (True, wr1, None)
       else (case processWriteRequest mc (testStore dms) wr1 of (tdms, wr2) \<Rightarrow>
         (case gatherStore gather tdms (order (metricGroups tdms)) of
            Some err \<Rightarrow> (False, wr2, sentTo wr err) | None \<Rightarrow> (True, wr2, None))))"
  unfolding checkWriteRequest_def assms option.case ..

lemma check_push_shared:
  assumes run: "hCheckWriteRequest mc rng gather order pre groups wr mem = (verdict, err, mem')"
    and fs: "srFamilies wr = Some r" and ok: "mem_ok mem" "groups_ok mem groups" "tables_distinct groups" "map_order rng"
    and rok: "request_ok mem r" "distinct (requestMetrics mem r)"
    and own: "metricsOf mem (groupsFamilies mem groups) \<inter> metricsOf mem (requestFamilies mem r) = {}"
    and dms: "metricGroups dms = readGroups mem groups" "predefinedHelp dms = pre"
  shows "checkWriteRequest mc gather order dms (readRequest mem wr) = (verdict, readRequest mem' wr, err) \<and>
    changes (metricsOf mem (requestFamilies mem r)) {} {r} mem mem' \<and> request_ok mem' r \<and>
    metricsOf mem' (requestFamilies mem' r) \<subseteq> metricsOf mem (requestFamilies mem r) \<union> {memNext mem..}" (is ?spec)
proof -
  let ?wr = "readRequest mem wr" and ?fams = "readFamilies mem r" and ?M = "metricsOf mem (requestFamilies mem r)"
  have wr: "wrMetricFamilies ?wr = Some ?fams" "wrDone ?wr = srDone wr" by (simp_all add: readRequest_def fs)
  note chk = check_value [OF wr(1), of mc gather order dms, unfolded wr(2)]
  have sent: "sentTo ?wr e = (if srDone wr \<noteq> None then Some e else None)" for e by (simp add: sentTo_def wr)
  show ?thesis
  proof (cases "timestampsPresent ?fams")
    case True
    have "verdict = False \<and> mem' = mem \<and> err = sentTo ?wr errTimestamp"
      using run fs True unfolding sent by (auto simp: hCheckWriteRequest_def)
    then show ?spec using True fs rok unfolding chk by simp
  next
    case False
    define mem1 where "mem1 = hSanitizeRequest mc rng (srLabels wr) r mem"
    note s = hSanitizeRequest_spec [OF ok(4) rok(2), of mc "srLabels wr", folded mem1_def]
    have wr1: "readRequest mem1 wr = sanitizeRequest mc ?wr ?fams"
      using s(6) by (simp add: readRequest_def fs sanitizeRequest_def)
    have req1: "requestFamilies mem1 r = requestFamilies mem r" "metricsOf mem1 = metricsOf mem" "request_ok mem1 r"
      using s(2,3,5) rok(1) by (simp_all add: requestFamilies_def metricsOf_def request_ok_def fun_eq_iff)
    have one: "changes ?M {} {r} mem mem1" by (rule changes_mono [OF s(1)]) auto
    show ?spec
    proof (cases "srDone wr")
      case None
      have "verdict = True \<and> mem' = mem1 \<and> err = None"
        using run False fs None by (auto simp: hCheckWriteRequest_def mem1_def)
      then show ?spec using False None req1 one unfolding chk by (simp add: Let_def wr1)
    next
      case (Some d)
      have ok1: "mem_ok mem1" using changesD(2) [OF s(1) ok(1)] .
      note f1 = groups_frame_read [OF s(1) ok(1,2) _ own, simplified]
      obtain tg mem2 where copy: "hGetMetricFamiliesMap groups mem1 = (tg, mem2)" by (rule prod.exhaust)
      obtain tg' mem3 where proc: "hProcessWriteRequest mc tg wr mem2 = (tg', mem3)" by (rule prod.exhaust)
      obtain mfs mem4 where merge: "mGetMetricFamilies pre tg' (order (readGroups mem3 tg')) mem3 = (mfs, mem4)"
        by (rule prod.exhaust)
      obtain tdms wr2 where val: "processWriteRequest mc (testStore dms) (readRequest mem1 wr) = (tdms, wr2)" by (rule prod.exhaust)
      have t: "metricGroups (testStore dms) = readGroups mem1 groups" using dms f1(1) by simp
      note tr = trial_shared [OF fs ok1 f1(3) req1(3) copy proc merge t]
      note res = tr(3) [OF val]
      have "hCheckWriteRequest mc rng gather order pre groups wr mem = (case gather (map (readFamily mem4) mfs) of
          Some e \<Rightarrow> (False, Some e, mem4) | None \<Rightarrow> (True, None, mem4))"
        using False fs Some copy proc merge by (simp add: hCheckWriteRequest_def mem1_def cong: option.case_cong)
      then have out: "(verdict, err, mem') = (case gather (map (readFamily mem4) mfs) of
          Some e \<Rightarrow> (False, Some e, mem4) | None \<Rightarrow> (True, None, mem4))"
        using run by simp
      then have mem': "mem' = mem4" by (auto split: option.splits)
      have "predefinedHelp tdms = pre"
        using dms(2) process_update [of "readRequest mem1 wr" "readFamilies mem1 r" mc "testStore dms"] val
        by (auto simp: readRequest_def fs)
      then have "gatherStore gather tdms (order (metricGroups tdms)) = gather (map (readFamily mem4) mfs)"
        using res by (simp add: gatherStore_def)
      then have "checkWriteRequest mc gather order dms ?wr = (verdict, readRequest mem4 wr, err)"
        using out res False Some val unfolding chk sent wr1 by (auto simp: Let_def split: option.splits)
      moreover have "changes ?M {} {r} mem mem4" by (rule changes_trans [OF one tr(1)]) auto
      ultimately show ?spec using tr(2,4) s(5) unfolding mem' req1 by simp
    qed
  qed
qed

lemma check_shared:
  assumes run: "hCheckWriteRequest mc rng gather order pre groups wr mem = (verdict, err, mem')"
    and ok: "mem_ok mem" "groups_ok mem groups" "tables_distinct groups" "map_order rng"
    and req: "\<And>r. srFamilies wr = Some r \<Longrightarrow> request_ok mem r \<and> distinct (requestMetrics mem r)"
    and own: "ownMetrics mem wr \<inter> metricsOf mem (groupsFamilies mem groups) = {}"
    and dms: "metricGroups dms = readGroups mem groups" "predefinedHelp dms = pre"
  shows "checkWriteRequest mc gather order dms (readRequest mem wr) = (verdict, readRequest mem' wr, err)"
    "changes (ownMetrics mem wr) {} (mapsOf wr) mem mem'"
    "\<And>r. srFamilies wr = Some r \<Longrightarrow> request_ok mem' r"
    "ownMetrics mem' wr \<subseteq> ownMetrics mem wr \<union> {memNext mem..}"
proof -
  have "checkWriteRequest mc gather order dms (readRequest mem wr) = (verdict, readRequest mem' wr, err) \<and>
    changes (ownMetrics mem wr) {} (mapsOf wr) mem mem' \<and> (\<forall>r. srFamilies wr = Some r \<longrightarrow> request_ok mem' r) \<and>
    ownMetrics mem' wr \<subseteq> ownMetrics mem wr \<union> {memNext mem..}" (is ?spec)
  proof (cases "srFamilies wr")
    case None
    then show ?spec using run by (simp add: hCheckWriteRequest_def checkWriteRequest_def readRequest_def own_simps)
  next
    case fs: (Some r)
    note own_fs = own_simps(3,4) [OF fs]
    have "metricsOf mem (groupsFamilies mem groups) \<inter> metricsOf mem (requestFamilies mem r) = {}"
      using own own_fs by blast
    from check_push_shared [OF run fs ok _ _ this dms] req [OF fs] show ?spec using fs unfolding own_fs by simp
  qed
  then show "checkWriteRequest mc gather order dms (readRequest mem wr) = (verdict, readRequest mem' wr, err)"
    "changes (ownMetrics mem wr) {} (mapsOf wr) mem mem'"
    "\<And>r. srFamilies wr = Some r \<Longrightarrow> request_ok mem' r"
    "ownMetrics mem' wr \<subseteq> ownMetrics mem wr \<union> {memNext mem..}" by blast+
qed

end
