(* ===== verification/SharedRun.thy ===== *)
theory SharedRun
  imports SharedReads WriteLoop
begin

text \<open>
  The store in operation on shared objects.  Handlers parse requests, which allocates their
  objects; the write loop checks one of the waiting requests and then applies it, with other
  events in between, because the check holds the lock for the copy of the groups only;
  scrapes and the status page and API handlers take references out of the store at any time and
  keep them.  \<open>hEvent\<close> runs these events on a shared memory, \<open>vEvent\<close> on values, where nothing is
  shared.  The theorems show that reading the memory turns every run of the first into the
  same run of the second: no aliasing between requests, stored families, scrape results and
  copies of the groups can be observed.
\<close>

section \<open>The two machines\<close>

datatype store_event = Parse WriteRequest | Check nat order_choice | Apply | Scrape order_choice | CopyGroups

text \<open>
  What the machines depend on: the constants and the gatherer of the write loop, the order of iteration over a
  map of families, the standard help strings, the name of the persistence file, and the parser, which builds the
  objects of a request in the memory.  The order of iteration over the groups comes with each event.
\<close>

record shared_env =
  shLoop :: loop_env
  shRange :: "(string, nat) fmap \<Rightarrow> string list"
  shHelp :: "(string, string) fmap"
  shFile :: string
  shParse :: "WriteRequest \<Rightarrow> shared_memory \<Rightarrow> shared_request \<times> shared_memory"

text \<open>
  \<open>rsOwned\<close> holds the requests that are parsed and not yet taken by the loop, \<open>rsCurrent\<close> the
  one that is checked and not yet applied, with its verdict and its error; \<open>rsScrapes\<close> and
  \<open>rsCopies\<close> hold all references that were ever handed out.
\<close>

record shared_state =
  rsMem :: shared_memory
  rsGroups :: shared_groups
  rsOwned :: "shared_request list"
  rsCurrent :: "(shared_request \<times> bool \<times> string option) option"
  rsScrapes :: "nat list list"
  rsCopies :: "shared_groups list"
  rsAnswers :: "string option list"

definition without :: "nat \<Rightarrow> 'a list \<Rightarrow> 'a list" where
  "without i xs = take i xs @ drop (Suc i) xs"

definition hEvent :: "shared_env \<Rightarrow> store_event \<Rightarrow> shared_state \<Rightarrow> shared_state" where
  "hEvent env ev s =
     (case ev of
        Parse wr \<Rightarrow>
          (case shParse env wr (rsMem s) of (req, mem) \<Rightarrow> s\<lparr>rsMem := mem, rsOwned := rsOwned s @ [req]\<rparr>)
      | Check i order \<Rightarrow>
          if rsCurrent s = None \<and> i < length (rsOwned s) then
            (case hCheckWriteRequest (envConsts (shLoop env)) (shRange env) (envGather (shLoop env)) order (shHelp env)
                    (rsGroups s) (rsOwned s ! i) (rsMem s) of
               (ok, err, mem) \<Rightarrow>
                 s\<lparr>rsMem := mem, rsOwned := without i (rsOwned s), rsCurrent := Some (rsOwned s ! i, ok, err)\<rparr>)
          else s
      | Apply \<Rightarrow>
          (case rsCurrent s of
             None \<Rightarrow> s
           | Some (wr, ok, err) \<Rightarrow>
               (case (if ok then hProcessWriteRequest (envConsts (shLoop env)) (rsGroups s) wr (rsMem s)
                      else hSetPushFailedTimestamp (envConsts (shLoop env)) (rsGroups s) wr (rsMem s)) of
                  (groups, mem) \<Rightarrow>
                    s\<lparr>rsMem := mem, rsGroups := groups, rsCurrent := None, rsAnswers := rsAnswers s @ [err]\<rparr>))
      | Scrape order \<Rightarrow>
          (case mGetMetricFamilies (shHelp env) (rsGroups s) (order (readGroups (rsMem s) (rsGroups s))) (rsMem s) of
             (mfs, mem) \<Rightarrow> s\<lparr>rsMem := mem, rsScrapes := rsScrapes s @ [mfs]\<rparr>)
      | CopyGroups \<Rightarrow>
          (case hGetMetricFamiliesMap (rsGroups s) (rsMem s) of
             (groups, mem) \<Rightarrow> s\<lparr>rsMem := mem, rsCopies := rsCopies s @ [groups]\<rparr>))"

record value_state =
  vsStore :: DiskMetricStore
  vsOwned :: "WriteRequest list"
  vsCurrent :: "(WriteRequest \<times> bool \<times> string option) option"
  vsScrapes :: "MetricFamily list list"
  vsCopies :: "GroupingKeyToMetricGroup list"
  vsAnswers :: "string option list"

definition vEvent :: "shared_env \<Rightarrow> store_event \<Rightarrow> value_state \<Rightarrow> value_state" where
  "vEvent env ev v =
     (case ev of
        Parse wr \<Rightarrow> v\<lparr>vsOwned := vsOwned v @ [wr]\<rparr>
      | Check i order \<Rightarrow>
          if vsCurrent v = None \<and> i < length (vsOwned v) then
            (case checkWriteRequest (envConsts (shLoop env)) (envGather (shLoop env)) order (vsStore v) (vsOwned v ! i) of
               (ok, wr, err) \<Rightarrow> v\<lparr>vsOwned := without i (vsOwned v), vsCurrent := Some (wr, ok, err)\<rparr>)
          else v
      | Apply \<Rightarrow>
          (case vsCurrent v of
             None \<Rightarrow> v
           | Some (wr, ok, err) \<Rightarrow>
               v\<lparr>vsStore := (if ok then fst (processWriteRequest (envConsts (shLoop env)) (vsStore v) wr)
                   else setPushFailedTimestamp (envConsts (shLoop env)) (vsStore v) wr),
                 vsCurrent := None, vsAnswers := vsAnswers v @ [err]\<rparr>)
      | Scrape order \<Rightarrow>
          v\<lparr>vsScrapes := vsScrapes v @ [GetMetricFamilies (predefinedHelp (vsStore v)) (metricGroups (vsStore v))
               (order (metricGroups (vsStore v)))]\<rparr>
      | CopyGroups \<Rightarrow> v\<lparr>vsCopies := vsCopies v @ [GetMetricFamiliesMap (vsStore v)]\<rparr>)"

definition readStore :: "shared_env \<Rightarrow> shared_memory \<Rightarrow> shared_groups \<Rightarrow> DiskMetricStore" where
  "readStore env mem groups =
     \<lparr>metricGroups = readGroups mem groups, persistenceFile = shFile env, predefinedHelp = shHelp env\<rparr>"

definition readState :: "shared_env \<Rightarrow> shared_state \<Rightarrow> value_state" where
  "readState env s =
     \<lparr>vsStore = readStore env (rsMem s) (rsGroups s), vsOwned = map (readRequest (rsMem s)) (rsOwned s),
      vsCurrent = map_option (\<lambda>(wr, ok, err). (readRequest (rsMem s) wr, ok, err)) (rsCurrent s),
      vsScrapes = map (map (readFamily (rsMem s))) (rsScrapes s),
      vsCopies = map (readGroups (rsMem s)) (rsCopies s), vsAnswers = rsAnswers s\<rparr>"

section \<open>The parser\<close>

text \<open>
  The decoders of \<open>prometheus/common\<close> and of \<open>protodelim\<close> build every request from new objects
  and share none of them between metrics or families.
\<close>

locale fresh_parser =
  fixes parse :: "WriteRequest \<Rightarrow> shared_memory \<Rightarrow> shared_request \<times> shared_memory"
  assumes parse_frame: "parse wr mem = (req, mem') \<Longrightarrow> mem_ok mem \<Longrightarrow> changes {} {} {} mem mem'"
    and parse_reads: "parse wr mem = (req, mem') \<Longrightarrow> mem_ok mem \<Longrightarrow> readRequest mem' req = wr"
    and parse_fresh: "parse wr mem = (req, mem') \<Longrightarrow> mem_ok mem \<Longrightarrow> srFamilies req = Some r \<Longrightarrow>
      memNext mem \<le> r \<and> request_ok mem' r \<and> distinct (requestMetrics mem' r) \<and>
      set (requestMetrics mem' r) \<subseteq> {memNext mem..}"

section \<open>The invariant\<close>

definition ownList :: "shared_memory \<Rightarrow> shared_request \<Rightarrow> nat list" where
  "ownList mem wr = (case srFamilies wr of None \<Rightarrow> [] | Some r \<Rightarrow> requestMetrics mem r)"

definition mapList :: "shared_request \<Rightarrow> nat list" where
  "mapList wr = (case srFamilies wr of None \<Rightarrow> [] | Some r \<Rightarrow> [r])"

lemma own_lists [simp]: "set (ownList mem wr) = ownMetrics mem wr" "set (mapList wr) = mapsOf wr"
  by (cases "srFamilies wr"; simp add: ownList_def ownMetrics_def mapList_def mapsOf_def requestMetrics_set)+

text \<open>The waiting requests share nothing with each other.\<close>

definition owned_ok :: "shared_memory \<Rightarrow> shared_request list \<Rightarrow> bool" where
  "owned_ok mem wrs \<longleftrightarrow> (\<forall>wr \<in> set wrs. \<forall>r \<in> mapsOf wr. request_ok mem r) \<and>
     distinct (concat (map (ownList mem) wrs)) \<and> distinct (concat (map mapList wrs))"

definition ownedMetrics :: "shared_memory \<Rightarrow> shared_request list \<Rightarrow> nat set" where
  "ownedMetrics mem wrs = set (concat (map (ownList mem) wrs))"

definition ownedMaps :: "shared_request list \<Rightarrow> nat set" where
  "ownedMaps wrs = set (concat (map mapList wrs))"

text \<open>The families that somebody other than a waiting request can reach.\<close>

definition requestsFamilies :: "shared_memory \<Rightarrow> shared_request option \<Rightarrow> nat set" where
  "requestsFamilies mem cur = (\<Union>wr \<in> set_option cur. \<Union>r \<in> mapsOf wr. requestFamilies mem r)"

definition frozenFamilies ::
  "shared_memory \<Rightarrow> shared_groups \<Rightarrow> shared_groups list \<Rightarrow> nat list list \<Rightarrow> shared_request option \<Rightarrow> nat set" where
  "frozenFamilies mem groups copies scrapes cur =
     groupsFamilies mem groups \<union> (\<Union>c \<in> set copies. groupsFamilies mem c) \<union> (\<Union>ps \<in> set scrapes. set ps) \<union>
     requestsFamilies mem cur"

definition live ::
  "shared_memory \<Rightarrow> shared_groups \<Rightarrow> shared_groups list \<Rightarrow> nat list list \<Rightarrow> shared_request option \<Rightarrow> shared_request list \<Rightarrow> bool" where
  "live mem groups copies scrapes cur wrs \<longleftrightarrow>
     mem_ok mem \<and> groups_ok mem groups \<and> tables_distinct groups \<and>
     (\<forall>c \<in> set copies. groups_ok mem c \<and> tablesOf c \<inter> tablesOf groups = {}) \<and>
     frozenFamilies mem groups copies scrapes cur \<subseteq> {..<memNext mem} \<and>
     (\<forall>wr \<in> set_option cur. \<forall>r \<in> mapsOf wr. request_ok mem r \<and> r \<notin> ownedMaps wrs) \<and>
     owned_ok mem wrs \<and> metricsOf mem (frozenFamilies mem groups copies scrapes cur) \<inter> ownedMetrics mem wrs = {}"

definition shared_ok :: "shared_state \<Rightarrow> bool" where
  "shared_ok s \<longleftrightarrow> live (rsMem s) (rsGroups s) (rsCopies s) (rsScrapes s) (map_option fst (rsCurrent s)) (rsOwned s)"

lemma liveD:
  assumes "live mem groups copies scrapes cur wrs"
  shows "mem_ok mem" "groups_ok mem groups" "tables_distinct groups"
    "c \<in> set copies \<Longrightarrow> groups_ok mem c" "c \<in> set copies \<Longrightarrow> tablesOf c \<inter> tablesOf groups = {}"
    "frozenFamilies mem groups copies scrapes cur \<subseteq> {..<memNext mem}"
    "cur = Some wr \<Longrightarrow> r \<in> mapsOf wr \<Longrightarrow> request_ok mem r \<and> r \<notin> ownedMaps wrs"
    "owned_ok mem wrs" "metricsOf mem (frozenFamilies mem groups copies scrapes cur) \<inter> ownedMetrics mem wrs = {}"
  using assms unfolding live_def by auto

lemma owned_bound:
  assumes "mem_ok mem" "owned_ok mem wrs"
  shows "ownedMetrics mem wrs \<subseteq> {..<memNext mem}" "ownedMaps wrs \<subseteq> {..<memNext mem}"
  using assms metricsOf_ok [OF assms(1)]
  by (auto simp: ownedMetrics_def ownMetrics_def ownedMaps_def owned_ok_def request_ok_def)

lemma requestMetrics_frame:
  assumes "changes M T R a b" "request_ok a r" "r \<notin> R"
  shows "requestMetrics b r = requestMetrics a r"
proof -
  have r: "r < memNext a" "requestFamilies a r \<subseteq> {..<memNext a}" using assms(2) by (simp_all add: request_ok_def)
  have req: "memRequests b r = memRequests a r" using changesD(6) [OF assms(1) r(1) assms(3)] .
  have "memFamilies b f = memFamilies a f" if "fmlookup (memRequests a r) n = Some f" for n f
    using changesD(3) [OF assms(1)] r(2) that by (auto simp: requestFamilies_def)
  then have "namedMetrics b (memRequests a r) n = namedMetrics a (memRequests a r) n" for n
    by (cases "fmlookup (memRequests a r) n") (simp_all add: namedMetrics_def)
  then have "namedMetrics b (memRequests a r) = namedMetrics a (memRequests a r)" by (rule ext)
  then show ?thesis unfolding requestMetrics_def req by simp
qed

text \<open>Requests that an operation does not touch read the same and stay apart.\<close>

lemma owned_frame:
  assumes ch: "changes M T R a b" and ok: "mem_ok a" "owned_ok a wrs"
    and apart: "M \<inter> ownedMetrics a wrs = {}" "R \<inter> ownedMaps wrs = {}"
  shows "map (readRequest b) wrs = map (readRequest a) wrs" "owned_ok b wrs" "ownedMetrics b wrs = ownedMetrics a wrs"
proof -
  have one: "readRequest b wr = readRequest a wr \<and> ownList b wr = ownList a wr \<and> (\<forall>r \<in> mapsOf wr. request_ok b r)"
    if "wr \<in> set wrs" for wr
  proof (cases "srFamilies wr")
    case None
    then show ?thesis by (simp add: readRequest_def ownList_def mapsOf_def)
  next
    case (Some r)
    have r: "request_ok a r" "r \<notin> R" "metricsOf a (requestFamilies a r) \<inter> M = {}"
    proof -
      have "mapsOf wr \<subseteq> ownedMaps wrs" "ownMetrics a wr \<subseteq> ownedMetrics a wrs"
        using that by (auto simp: ownedMaps_def ownedMetrics_def)
      then show "request_ok a r" "r \<notin> R" "metricsOf a (requestFamilies a r) \<inter> M = {}"
        using that ok(2) apart unfolding own_simps(3,4) [OF Some] owned_ok_def
        by (auto simp: own_simps(3) [OF Some] dest!: bspec)
    qed
    then show ?thesis
      using request_frame_read [OF ch ok(1) r] requestMetrics_frame [OF ch r(1,2)] Some
      by (simp add: readRequest_def ownList_def mapsOf_def)
  qed
  then show "map (readRequest b) wrs = map (readRequest a) wrs" by simp
  have lists: "map (ownList b) wrs = map (ownList a) wrs" using one by simp
  then show "ownedMetrics b wrs = ownedMetrics a wrs" unfolding ownedMetrics_def by (simp only:)
  show "owned_ok b wrs" using ok(2) one unfolding owned_ok_def lists by blast
qed

lemma scrapes_frame:
  assumes "changes M T R a b" "mem_ok a" "set ps \<subseteq> {..<memNext a}" "metricsOf a (set ps) \<inter> M = {}"
  shows "map (readFamily b) ps = map (readFamily a) ps"
proof -
  have "readFamily b p = readFamily a p" if "p \<in> set ps" for p
    using assms(3,4) that by (intro readFamily_frame [OF assms(1,2)]) (auto simp: metricsOf_def)
  then show ?thesis by simp
qed

text \<open>
  The common part of every event: \<open>M\<close>, \<open>T\<close> and \<open>R\<close> are what it assigns to, \<open>wrs'\<close> the requests
  that keep waiting.
\<close>

lemma live_frame:
  assumes live: "live mem groups copies scrapes cur wrs" and ch: "changes M T R mem mem'"
    and M: "M \<inter> metricsOf mem (frozenFamilies mem groups copies scrapes cur) = {}" "M \<inter> ownedMetrics mem wrs' = {}"
    and T: "T \<subseteq> tablesOf groups" and R: "R \<inter> ownedMaps wrs' = {}" and wrs': "owned_ok mem wrs'"
  shows "mem_ok mem'" "map (map (readFamily mem')) scrapes = map (map (readFamily mem)) scrapes"
    "map (readGroups mem') copies = map (readGroups mem) copies"
    "\<And>c. c \<in> set copies \<Longrightarrow> groups_ok mem' c \<and> groupsFamilies mem' c = groupsFamilies mem c"
    "map (readRequest mem') wrs' = map (readRequest mem) wrs'" "owned_ok mem' wrs'"
    "ownedMetrics mem' wrs' = ownedMetrics mem wrs'"
proof -
  note l = liveD [OF live]
  show "mem_ok mem'" using changesD(2) [OF ch l(1)] .
  show "map (readRequest mem') wrs' = map (readRequest mem) wrs'" "owned_ok mem' wrs'"
    "ownedMetrics mem' wrs' = ownedMetrics mem wrs'"
    using owned_frame [OF ch l(1) wrs' M(2) R] by simp_all
  have "map (readFamily mem') ps = map (readFamily mem) ps" if "ps \<in> set scrapes" for ps
  proof (rule scrapes_frame [OF ch l(1)])
    have "set ps \<subseteq> frozenFamilies mem groups copies scrapes cur" using that by (auto simp: frozenFamilies_def)
    then show "set ps \<subseteq> {..<memNext mem}" "metricsOf mem (set ps) \<inter> M = {}"
      using l(6) M(1) metricsOf_mono [of "set ps" _ mem] by blast+
  qed
  then show "map (map (readFamily mem')) scrapes = map (map (readFamily mem)) scrapes" by simp
  have c: "readGroups mem' c = readGroups mem c \<and> groups_ok mem' c \<and> groupsFamilies mem' c = groupsFamilies mem c"
    if "c \<in> set copies" for c
  proof -
    have "groupsFamilies mem c \<subseteq> frozenFamilies mem groups copies scrapes cur" using that by (auto simp: frozenFamilies_def)
    then have "metricsOf mem (groupsFamilies mem c) \<inter> M = {}" using M(1) metricsOf_mono by blast
    moreover have "tablesOf c \<inter> T = {}" using l(5) [OF that] T by blast
    ultimately show ?thesis using groups_frame_read [OF ch l(1) l(4) [OF that]] by simp
  qed
  then show "map (readGroups mem') copies = map (readGroups mem) copies"
    "\<And>c. c \<in> set copies \<Longrightarrow> groups_ok mem' c \<and> groupsFamilies mem' c = groupsFamilies mem c" by simp_all
qed

section \<open>The invariant is kept\<close>

lemma requestsFamilies_simps:
  "requestsFamilies mem None = {}" "metricsOf mem (requestsFamilies mem (Some wr)) = ownMetrics mem wr"
  "srFamilies wr = Some r \<Longrightarrow> requestsFamilies mem (Some wr) = requestFamilies mem r"
  "srFamilies wr = None \<Longrightarrow> requestsFamilies mem (Some wr) = {}"
  by (auto simp: requestsFamilies_def ownMetrics_def metricsOf_def mapsOf_def)

lemma owned_split:
  assumes "owned_ok mem wrs" "i < length wrs"
  shows "owned_ok mem (without i wrs)" "ownMetrics mem (wrs ! i) \<inter> ownedMetrics mem (without i wrs) = {}"
    "mapsOf (wrs ! i) \<inter> ownedMaps (without i wrs) = {}" "ownedMetrics mem (without i wrs) \<subseteq> ownedMetrics mem wrs"
    "srFamilies (wrs ! i) = Some r \<Longrightarrow> request_ok mem r \<and> distinct (requestMetrics mem r)"
    "ownMetrics mem (wrs ! i) \<subseteq> ownedMetrics mem wrs"
proof -
  define xs ys where "xs = take i wrs" and "ys = drop (Suc i) wrs"
  have wrs: "wrs = xs @ wrs ! i # ys" using id_take_nth_drop [OF assms(2)] by (simp add: xs_def ys_def)
  have wo: "without i wrs = xs @ ys" by (simp add: without_def xs_def ys_def)
  have sets: "set (ownList mem (wrs ! i)) = ownMetrics mem (wrs ! i)" "set (mapList (wrs ! i)) = mapsOf (wrs ! i)"
    by simp_all
  have ok: "owned_ok mem (xs @ wrs ! i # ys)" using assms(1) wrs by simp
  then show "owned_ok mem (without i wrs)" unfolding wo owned_ok_def by auto
  show "ownMetrics mem (wrs ! i) \<inter> ownedMetrics mem (without i wrs) = {}"
    using ok unfolding wo owned_ok_def ownedMetrics_def sets [symmetric] by auto
  show "mapsOf (wrs ! i) \<inter> ownedMaps (without i wrs) = {}"
    using ok unfolding wo owned_ok_def ownedMaps_def sets [symmetric] by auto
  have "ownedMetrics mem (xs @ wrs ! i # ys) = ownedMetrics mem (without i wrs) \<union> ownMetrics mem (wrs ! i)"
    unfolding wo ownedMetrics_def sets [symmetric] by auto
  then show "ownedMetrics mem (without i wrs) \<subseteq> ownedMetrics mem wrs" "ownMetrics mem (wrs ! i) \<subseteq> ownedMetrics mem wrs"
    using wrs by auto
  show "srFamilies (wrs ! i) = Some r \<Longrightarrow> request_ok mem r \<and> distinct (requestMetrics mem r)"
    using ok by (simp add: owned_ok_def mapsOf_def ownList_def)
qed

text \<open>Nothing but allocation.\<close>

lemma live_quiet:
  assumes live: "live mem groups copies scrapes cur wrs" and ch: "changes {} {} {} mem mem'"
  shows "live mem' groups copies scrapes cur wrs" "readGroups mem' groups = readGroups mem groups"
    "map_option (readRequest mem') cur = map_option (readRequest mem) cur"
    "map (map (readFamily mem')) scrapes = map (map (readFamily mem)) scrapes"
    "map (readGroups mem') copies = map (readGroups mem) copies"
    "map (readRequest mem') wrs = map (readRequest mem) wrs"
    "metricsOf mem' (frozenFamilies mem' groups copies scrapes cur) = metricsOf mem (frozenFamilies mem groups copies scrapes cur)"
    "ownedMetrics mem' wrs = ownedMetrics mem wrs" "groupsFamilies mem' groups = groupsFamilies mem groups"
proof -
  note l = liveD [OF live]
  note f = live_frame [OF live ch, of wrs, simplified, OF l(8)]
  note g = groups_frame_read [OF ch l(1,2), simplified]
  have cur: "readRequest mem' wr = readRequest mem wr \<and>
      (\<forall>r \<in> mapsOf wr. request_ok mem' r \<and> requestFamilies mem' r = requestFamilies mem r)" if "cur = Some wr" for wr
  proof (cases "srFamilies wr")
    case (Some r)
    then have "request_ok mem r" using l(7) [OF that, of r] by (simp add: mapsOf_def)
    from request_frame_read [OF ch l(1) this] Some show ?thesis by (simp add: readRequest_def mapsOf_def)
  qed (simp add: readRequest_def mapsOf_def)
  show "readGroups mem' groups = readGroups mem groups" "groupsFamilies mem' groups = groupsFamilies mem groups" using g by simp_all
  show "map_option (readRequest mem') cur = map_option (readRequest mem) cur" using cur by (cases cur) simp_all
  show "map (map (readFamily mem')) scrapes = map (map (readFamily mem)) scrapes"
    "map (readGroups mem') copies = map (readGroups mem) copies"
    "map (readRequest mem') wrs = map (readRequest mem) wrs" "ownedMetrics mem' wrs = ownedMetrics mem wrs"
    using f by simp_all
  have "requestsFamilies mem' cur = requestsFamilies mem cur"
    using cur by (cases cur) (simp_all add: requestsFamilies_def)
  then have fr: "frozenFamilies mem' groups copies scrapes cur = frozenFamilies mem groups copies scrapes cur"
    using g(2) f(4) by (simp add: frozenFamilies_def)
  show met: "metricsOf mem' (frozenFamilies mem' groups copies scrapes cur) = metricsOf mem (frozenFamilies mem groups copies scrapes cur)"
    unfolding fr by (rule metricsOf_frame [OF ch l(6)])
  have "frozenFamilies mem groups copies scrapes cur \<subseteq> {..<memNext mem'}"
    using l(6) changesD(1) [OF ch] by auto
  then show "live mem' groups copies scrapes cur wrs"
    using f(1,4,6,7) g(3) l(3,5,7,9) cur unfolding live_def met unfolding fr by (auto simp del: own_lists)
qed

lemma live_add_scrape:
  assumes "live mem groups copies scrapes cur wrs" "set ps \<subseteq> {..<memNext mem}"
    and "metricsOf mem (set ps) \<subseteq> metricsOf mem (groupsFamilies mem groups)"
  shows "live mem groups copies (scrapes @ [ps]) cur wrs"
proof -
  have fr: "frozenFamilies mem groups copies (scrapes @ [ps]) cur = set ps \<union> frozenFamilies mem groups copies scrapes cur"
    by (auto simp: frozenFamilies_def)
  have "groupsFamilies mem groups \<subseteq> frozenFamilies mem groups copies scrapes cur" by (auto simp: frozenFamilies_def)
  then have "metricsOf mem (set ps) \<subseteq> metricsOf mem (frozenFamilies mem groups copies scrapes cur)"
    using assms(3) metricsOf_mono by blast
  then show ?thesis using assms(1,2) unfolding live_def fr metricsOf_Un by auto
qed

lemma live_add_copy:
  assumes "live mem groups copies scrapes cur wrs" "groups_ok mem c" "tablesOf c \<inter> tablesOf groups = {}"
    and "groupsFamilies mem c = groupsFamilies mem groups"
  shows "live mem groups (copies @ [c]) scrapes cur wrs"
proof -
  have "frozenFamilies mem groups (copies @ [c]) scrapes cur = frozenFamilies mem groups copies scrapes cur"
    using assms(4) by (auto simp: frozenFamilies_def)
  then show ?thesis using assms(1-3) unfolding live_def by auto
qed

lemma live_add_request:
  assumes "live mem groups copies scrapes cur wrs"
    and "\<And>r. srFamilies wr = Some r \<Longrightarrow> request_ok mem r \<and> distinct (requestMetrics mem r)"
    and "ownMetrics mem wr \<inter> metricsOf mem (frozenFamilies mem groups copies scrapes cur) = {}"
    and "ownMetrics mem wr \<inter> ownedMetrics mem wrs = {}" "mapsOf wr \<inter> ownedMaps wrs = {}"
    and "\<And>w. cur = Some w \<Longrightarrow> mapsOf w \<inter> mapsOf wr = {}"
  shows "live mem groups copies scrapes cur (wrs @ [wr])"
proof -
  have add: "ownedMetrics mem (wrs @ [wr]) = ownedMetrics mem wrs \<union> ownMetrics mem wr"
    "ownedMaps (wrs @ [wr]) = ownedMaps wrs \<union> mapsOf wr"
    by (simp_all add: ownedMetrics_def ownedMaps_def)
  have "distinct (ownList mem wr) \<and> distinct (mapList wr) \<and> (\<forall>r \<in> mapsOf wr. request_ok mem r)"
    using assms(2) by (cases "srFamilies wr") (simp_all add: ownList_def mapList_def mapsOf_def)
  then have "owned_ok mem (wrs @ [wr])"
    using liveD(8) [OF assms(1)] assms(4,5) unfolding owned_ok_def ownedMetrics_def ownedMaps_def
    by (auto simp: Int_commute)
  then show ?thesis
    using assms(1,3,6) unfolding live_def add by (auto simp: Int_Un_distrib Int_commute)
qed

lemma disjoint_new: "A \<subseteq> B \<union> {n..} \<Longrightarrow> B \<inter> C = {} \<Longrightarrow> C \<subseteq> {..<n} \<Longrightarrow> A \<inter> C = {}" for n :: nat
  by (meson disjoint_iff UnE atLeast_iff lessThan_iff not_less subset_iff)

text \<open>Applying the current request, in either way.\<close>

lemma live_update:
  assumes live: "live mem groups copies scrapes (Some wr) wrs"
    and up: "group_update key X R mem groups mem' groups'" and X: "X \<subseteq> ownMetrics mem wr" and R: "R \<subseteq> mapsOf wr"
  shows "live mem' groups' copies scrapes None wrs"
    "map (map (readFamily mem')) scrapes = map (map (readFamily mem)) scrapes"
    "map (readGroups mem') copies = map (readGroups mem) copies" "map (readRequest mem') wrs = map (readRequest mem) wrs"
proof -
  let ?F = "frozenFamilies mem groups copies scrapes (Some wr)"
  note l = liveD [OF live]
  have ch: "changes {} (tablesAt key groups) R mem mem'" and g: "groups_ok mem' groups'" "tables_distinct groups'"
    and tab: "tablesOf groups' \<subseteq> tablesOf groups \<union> {memNext mem..}"
    and met: "metricsOf mem' (groupsFamilies mem' groups') \<subseteq> metricsOf mem (groupsFamilies mem groups) \<union> X \<union> {memNext mem..}"
    using up by (simp_all add: group_update_def)
  have "R \<inter> ownedMaps wrs = {}" using l(7) R by blast
  note f = live_frame [OF live ch _ _ tablesAt_of this l(8), simplified]
  show "map (map (readFamily mem')) scrapes = map (map (readFamily mem)) scrapes"
    "map (readGroups mem') copies = map (readGroups mem) copies" "map (readRequest mem') wrs = map (readRequest mem) wrs"
    using f by simp_all
  let ?rest = "(\<Union>c \<in> set copies. groupsFamilies mem c) \<union> (\<Union>ps \<in> set scrapes. set ps)"
  have rest: "?rest \<subseteq> ?F" by (auto simp: frozenFamilies_def)
  have fr: "frozenFamilies mem' groups' copies scrapes None = groupsFamilies mem' groups' \<union> ?rest"
    using f(4) by (auto simp: frozenFamilies_def requestsFamilies_simps)
  have "groupsFamilies mem groups \<subseteq> ?F" by (auto simp: frozenFamilies_def)
  moreover have "X \<subseteq> metricsOf mem ?F"
    using X unfolding frozenFamilies_def metricsOf_Un requestsFamilies_simps by blast
  moreover have "metricsOf mem' ?rest = metricsOf mem ?rest" by (rule metricsOf_frame [OF ch]) (use rest l(6) in blast)
  ultimately have "metricsOf mem' (frozenFamilies mem' groups' copies scrapes None) \<subseteq> metricsOf mem ?F \<union> {memNext mem..}"
    using met metricsOf_mono [OF rest, of mem] metricsOf_mono [of "groupsFamilies mem groups" ?F mem]
    unfolding fr metricsOf_Un by blast
  then have apart: "metricsOf mem' (frozenFamilies mem' groups' copies scrapes None) \<inter> ownedMetrics mem' wrs = {}"
    using l(9) owned_bound(1) [OF l(1,8)] unfolding f(7) by (rule disjoint_new)
  have "tablesOf c \<inter> tablesOf groups' = {}" if "c \<in> set copies" for c
    using l(4,5) [OF that] tab unfolding groups_ok_def by force
  moreover have "frozenFamilies mem' groups' copies scrapes None \<subseteq> {..<memNext mem'}"
  proof -
    have "{..<memNext mem} \<subseteq> {..<memNext mem'}" using changesD(1) [OF ch] by simp
    then show ?thesis using g(1) rest l(6) unfolding fr groups_ok_def by (meson Un_least order_trans)
  qed
  ultimately show "live mem' groups' copies scrapes None wrs"
    unfolding live_def using f(1,4,6) g apart by simp
qed

lemma live_check:
  assumes live: "live mem groups copies scrapes None wrs" and i: "i < length wrs"
    and ch: "changes (ownMetrics mem (wrs ! i)) {} (mapsOf (wrs ! i)) mem mem'"
    and req: "\<And>r. srFamilies (wrs ! i) = Some r \<Longrightarrow> request_ok mem' r"
    and own: "ownMetrics mem' (wrs ! i) \<subseteq> ownMetrics mem (wrs ! i) \<union> {memNext mem..}"
  shows "live mem' groups copies scrapes (Some (wrs ! i)) (without i wrs)" "readGroups mem' groups = readGroups mem groups"
    "map (map (readFamily mem')) scrapes = map (map (readFamily mem)) scrapes"
    "map (readGroups mem') copies = map (readGroups mem) copies"
    "map (readRequest mem') (without i wrs) = map (readRequest mem) (without i wrs)"
proof -
  let ?wr = "wrs ! i" and ?F = "frozenFamilies mem groups copies scrapes None" and ?wrs = "without i wrs"
  note l = liveD [OF live] and o = owned_split [OF liveD(8) [OF live] i]
  have apart: "ownMetrics mem ?wr \<inter> metricsOf mem ?F = {}" using o(6) l(9) by blast
  note f = live_frame [OF live ch apart o(2) _ o(3,1), simplified]
  show "map (map (readFamily mem')) scrapes = map (map (readFamily mem)) scrapes"
    "map (readGroups mem') copies = map (readGroups mem) copies"
    "map (readRequest mem') ?wrs = map (readRequest mem) ?wrs"
    using f by simp_all
  have "groupsFamilies mem groups \<subseteq> ?F" by (auto simp: frozenFamilies_def)
  then have "metricsOf mem (groupsFamilies mem groups) \<inter> ownMetrics mem ?wr = {}"
    using apart metricsOf_mono [of "groupsFamilies mem groups" ?F mem] by blast
  note g = groups_frame_read [OF ch l(1,2) _ this, simplified]
  show "readGroups mem' groups = readGroups mem groups" by (rule g(1))
  have fr: "frozenFamilies mem' groups copies scrapes (Some ?wr) = ?F \<union> requestsFamilies mem' (Some ?wr)"
    using f(4) g(2) by (auto simp: frozenFamilies_def requestsFamilies_simps(1))
  have "metricsOf mem' ?F = metricsOf mem ?F" by (rule metricsOf_frame [OF ch l(6)])
  then have "metricsOf mem' (frozenFamilies mem' groups copies scrapes (Some ?wr)) \<subseteq>
      metricsOf mem ?F \<union> ownMetrics mem ?wr \<union> {memNext mem..}"
    using own unfolding fr metricsOf_Un requestsFamilies_simps by blast
  moreover have "(metricsOf mem ?F \<union> ownMetrics mem ?wr) \<inter> ownedMetrics mem ?wrs = {}" using l(9) o(2,4) by blast
  moreover have "ownedMetrics mem ?wrs \<subseteq> {..<memNext mem}" using owned_bound(1) [OF l(1,8)] o(4) by blast
  ultimately have disj: "metricsOf mem' (frozenFamilies mem' groups copies scrapes (Some ?wr)) \<inter> ownedMetrics mem' ?wrs = {}"
    unfolding f(7) by (rule disjoint_new)
  have req': "\<forall>r \<in> mapsOf ?wr. request_ok mem' r" using req by (auto simp: mapsOf_def)
  then have "requestsFamilies mem' (Some ?wr) \<subseteq> {..<memNext mem'}"
    by (auto simp: requestsFamilies_def request_ok_def)
  moreover have "{..<memNext mem} \<subseteq> {..<memNext mem'}" using changesD(1) [OF ch] by simp
  ultimately have "frozenFamilies mem' groups copies scrapes (Some ?wr) \<subseteq> {..<memNext mem'}"
    using l(6) unfolding fr by (meson Un_least order_trans)
  then show "live mem' groups copies scrapes (Some ?wr) ?wrs"
    unfolding live_def using f(1,4,6) g(3) l(3,5) req' o(3) disj by auto
qed

section \<open>One event\<close>

text \<open>The parts of the environment that are not the program's own code.\<close>

definition env_ok :: "shared_env \<Rightarrow> bool" where
  "env_ok env \<longleftrightarrow> map_order (shRange env) \<and> fresh_parser (shParse env)"

lemma readStore_sel [simp]:
  "metricGroups (readStore env mem groups) = readGroups mem groups" "predefinedHelp (readStore env mem groups) = shHelp env"
  "persistenceFile (readStore env mem groups) = shFile env"
  by (simp_all add: readStore_def)

lemma store_of_groups:
  "metricGroups dms = readGroups mem groups \<Longrightarrow> predefinedHelp dms = shHelp env \<Longrightarrow> persistenceFile dms = shFile env \<Longrightarrow>
   readStore env mem groups = dms"
  by (rule store_eqI) simp_all

lemma event_parse:
  assumes "env_ok env" "shared_ok s"
  shows "shared_ok (hEvent env (Parse wr) s)" "readState env (hEvent env (Parse wr) s) = vEvent env (Parse wr) (readState env s)"
proof -
  obtain req mem where p: "shParse env wr (rsMem s) = (req, mem)" by (rule prod.exhaust)
  have fp: "fresh_parser (shParse env)" using assms(1) by (simp add: env_ok_def)
  let ?n = "memNext (rsMem s)"
  have live: "live (rsMem s) (rsGroups s) (rsCopies s) (rsScrapes s) (map_option fst (rsCurrent s)) (rsOwned s)"
    using assms(2) by (simp add: shared_ok_def)
  note l = liveD [OF live]
  have ch: "changes {} {} {} (rsMem s) mem" and rd: "readRequest mem req = wr"
    using fresh_parser.parse_frame [OF fp p l(1)] fresh_parser.parse_reads [OF fp p l(1)] .
  note fresh = fresh_parser.parse_fresh [OF fp p l(1)]
  note q = live_quiet [OF live ch]
  have own: "ownMetrics mem req \<subseteq> {?n..}" "mapsOf req \<subseteq> {?n..}"
    using fresh by (cases "srFamilies req"; simp add: own_simps flip: requestMetrics_set)+
  have "metricsOf (rsMem s) (frozenFamilies (rsMem s) (rsGroups s) (rsCopies s) (rsScrapes s) (map_option fst (rsCurrent s))) \<subseteq> {..<?n}"
    "ownedMetrics (rsMem s) (rsOwned s) \<subseteq> {..<?n}" "ownedMaps (rsOwned s) \<subseteq> {..<?n}"
    using metricsOf_ok [OF l(1)] owned_bound [OF l(1,8)] by blast+
  then have "live mem (rsGroups s) (rsCopies s) (rsScrapes s) (map_option fst (rsCurrent s)) (rsOwned s @ [req])"
  proof (intro live_add_request [OF q(1)])
    show "mapsOf w \<inter> mapsOf req = {}" if "map_option fst (rsCurrent s) = Some w" for w
      using l(7) [OF that] own(2) by (fastforce simp: request_ok_def)
  qed (use fresh own q(7,8) in \<open>fastforce+\<close>)
  then show "shared_ok (hEvent env (Parse wr) s)" by (simp add: hEvent_def p shared_ok_def)
  have "map_option (\<lambda>(wr, ok, err). (readRequest mem wr, ok, err)) (rsCurrent s) =
      map_option (\<lambda>(wr, ok, err). (readRequest (rsMem s) wr, ok, err)) (rsCurrent s)"
    using q(3) by (cases "rsCurrent s") auto
  then show "readState env (hEvent env (Parse wr) s) = vEvent env (Parse wr) (readState env s)"
    using q(2,4-6) rd by (simp add: hEvent_def vEvent_def p readState_def readStore_def)
qed

lemma event_scrape:
  assumes "env_ok env" "shared_ok s"
  shows "shared_ok (hEvent env (Scrape order) s)" "readState env (hEvent env (Scrape order) s) = vEvent env (Scrape order) (readState env s)"
proof -
  let ?order = "order (readGroups (rsMem s) (rsGroups s))"
  obtain ps mem where p: "mGetMetricFamilies (shHelp env) (rsGroups s) ?order (rsMem s) = (ps, mem)" by (rule prod.exhaust)
  have live: "live (rsMem s) (rsGroups s) (rsCopies s) (rsScrapes s) (map_option fst (rsCurrent s)) (rsOwned s)"
    using assms(2) by (simp add: shared_ok_def)
  note l = liveD [OF live]
  note m = merge_shared [OF p l(1,2)]
  note q = live_quiet [OF live m(1)]
  have "metricsOf mem (groupsFamilies mem (rsGroups s)) = metricsOf (rsMem s) (groupsFamilies (rsMem s) (rsGroups s))"
    unfolding q(9) by (rule metricsOf_frame [OF m(1)]) (use l(2) in \<open>simp add: groups_ok_def\<close>)
  then have "live mem (rsGroups s) (rsCopies s) (rsScrapes s @ [ps]) (map_option fst (rsCurrent s)) (rsOwned s)"
    using m(5,7) by (intro live_add_scrape [OF q(1)]) simp_all
  then show "shared_ok (hEvent env (Scrape order) s)" by (simp add: hEvent_def p shared_ok_def)
  have "map_option (\<lambda>(wr, ok, err). (readRequest mem wr, ok, err)) (rsCurrent s) =
      map_option (\<lambda>(wr, ok, err). (readRequest (rsMem s) wr, ok, err)) (rsCurrent s)"
    using q(3) by (cases "rsCurrent s") auto
  then show "readState env (hEvent env (Scrape order) s) = vEvent env (Scrape order) (readState env s)"
    using q(2,4-6) m(6) by (simp add: hEvent_def vEvent_def p readState_def readStore_def)
qed

lemma event_copy:
  assumes "env_ok env" "shared_ok s"
  shows "shared_ok (hEvent env CopyGroups s)" "readState env (hEvent env CopyGroups s) = vEvent env CopyGroups (readState env s)"
proof -
  obtain gc mem where p: "hGetMetricFamiliesMap (rsGroups s) (rsMem s) = (gc, mem)" by (rule prod.exhaust)
  have live: "live (rsMem s) (rsGroups s) (rsCopies s) (rsScrapes s) (map_option fst (rsCurrent s)) (rsOwned s)"
    using assms(2) by (simp add: shared_ok_def)
  note l = liveD [OF live]
  note c = copy_shared [OF p l(1,2)]
  note q = live_quiet [OF live c(1)]
  have "tablesOf (rsGroups s) \<subseteq> {..<memNext (rsMem s)}" using l(2) by (simp add: groups_ok_def)
  then have "tablesOf gc \<inter> tablesOf (rsGroups s) = {}" using c(8) by fastforce
  then have "live mem (rsGroups s) (rsCopies s @ [gc]) (rsScrapes s) (map_option fst (rsCurrent s)) (rsOwned s)"
    using c(7,9) q(9) by (intro live_add_copy [OF q(1)]) simp_all
  then show "shared_ok (hEvent env CopyGroups s)" by (simp add: hEvent_def p shared_ok_def)
  have "map_option (\<lambda>(wr, ok, err). (readRequest mem wr, ok, err)) (rsCurrent s) =
      map_option (\<lambda>(wr, ok, err). (readRequest (rsMem s) wr, ok, err)) (rsCurrent s)"
    using q(3) by (cases "rsCurrent s") auto
  then show "readState env (hEvent env CopyGroups s) = vEvent env CopyGroups (readState env s)"
    using q(2,4-6) c(5) by (simp add: hEvent_def vEvent_def p readState_def readStore_def)
qed

lemma event_check:
  assumes "env_ok env" "shared_ok s"
  shows "shared_ok (hEvent env (Check i order) s)" "readState env (hEvent env (Check i order) s) = vEvent env (Check i order) (readState env s)"
proof -
  let ?wr = "rsOwned s ! i"
  have "shared_ok (hEvent env (Check i order) s) \<and> readState env (hEvent env (Check i order) s) = vEvent env (Check i order) (readState env s)"
  proof (cases "rsCurrent s = None \<and> i < length (rsOwned s)")
    case False
    then show ?thesis using assms(2) by (auto simp: hEvent_def vEvent_def readState_def)
  next
    case True
    obtain ok err mem where p: "hCheckWriteRequest (envConsts (shLoop env)) (shRange env) (envGather (shLoop env)) order (shHelp env)
        (rsGroups s) ?wr (rsMem s) = (ok, err, mem)" by (rule prod_cases3)
    have rng: "map_order (shRange env)" using assms(1) by (simp add: env_ok_def)
    have live: "live (rsMem s) (rsGroups s) (rsCopies s) (rsScrapes s) None (rsOwned s)"
      using assms(2) True by (simp add: shared_ok_def)
    have i: "i < length (rsOwned s)" using True by simp
    note l = liveD [OF live] and o = owned_split [OF liveD(8) [OF live] i]
    let ?F = "frozenFamilies (rsMem s) (rsGroups s) (rsCopies s) (rsScrapes s) None"
    have "groupsFamilies (rsMem s) (rsGroups s) \<subseteq> ?F" by (auto simp: frozenFamilies_def)
    then have "ownMetrics (rsMem s) ?wr \<inter> metricsOf (rsMem s) (groupsFamilies (rsMem s) (rsGroups s)) = {}"
      using o(6) l(9) metricsOf_mono [of _ ?F "rsMem s"] by blast
    note c = check_shared [OF p l(1-3) rng o(5) this, of "readStore env (rsMem s) (rsGroups s)", simplified readStore_sel, OF _ refl refl]
    note k = live_check [OF live i c(2) c(3) c(4)]
    have "shared_ok (hEvent env (Check i order) s)" using k(1) True by (simp add: hEvent_def p shared_ok_def)
    moreover have "map (readRequest (rsMem s)) (without i (rsOwned s)) = without i (map (readRequest (rsMem s)) (rsOwned s))"
      by (simp add: without_def take_map drop_map)
    then have "readState env (hEvent env (Check i order) s) = vEvent env (Check i order) (readState env s)"
      using k(2-5) c(1) True by (simp add: hEvent_def vEvent_def p readState_def readStore_def)
    ultimately show ?thesis by simp
  qed
  then show "shared_ok (hEvent env (Check i order) s)" "readState env (hEvent env (Check i order) s) = vEvent env (Check i order) (readState env s)"
    by simp_all
qed

lemma event_apply:
  assumes "env_ok env" "shared_ok s"
  shows "shared_ok (hEvent env Apply s)" "readState env (hEvent env Apply s) = vEvent env Apply (readState env s)"
proof -
  have "shared_ok (hEvent env Apply s) \<and> readState env (hEvent env Apply s) = vEvent env Apply (readState env s)"
  proof (cases "rsCurrent s")
    case None
    then show ?thesis using assms(2) by (simp add: hEvent_def vEvent_def readState_def)
  next
    case (Some cur)
    then obtain wr ok err where cur: "rsCurrent s = Some (wr, ok, err)" by (cases cur) auto
    let ?mc = "envConsts (shLoop env)" and ?dms = "readStore env (rsMem s) (rsGroups s)" and ?wr = "readRequest (rsMem s) wr"
    let ?key = "groupingKeyFor ?mc (srLabels wr)"
    obtain groups mem where p: "(if ok then hProcessWriteRequest ?mc (rsGroups s) wr (rsMem s)
        else hSetPushFailedTimestamp ?mc (rsGroups s) wr (rsMem s)) = (groups, mem)" by (rule prod.exhaust)
    have live: "live (rsMem s) (rsGroups s) (rsCopies s) (rsScrapes s) (Some wr) (rsOwned s)"
      using assms(2) cur by (simp add: shared_ok_def)
    note l = liveD [OF live]
    let ?new = "if ok then fst (processWriteRequest ?mc ?dms ?wr) else setPushFailedTimestamp ?mc ?dms ?wr"
    obtain X R where up: "group_update ?key X R (rsMem s) (rsGroups s) mem groups" "X \<subseteq> ownMetrics (rsMem s) wr" "R \<subseteq> mapsOf wr"
      and val: "readGroups mem groups = metricGroups ?new"
    proof (cases ok)
      case False
      then have "hSetPushFailedTimestamp ?mc (rsGroups s) wr (rsMem s) = (groups, mem)" using p by simp
      from failure_shared [OF this l(1-3), of ?dms ?wr] show ?thesis
        using that [of "{}" "{}"] False by (simp add: readRequest_def)
    next
      case True
      then have run: "hProcessWriteRequest ?mc (rsGroups s) wr (rsMem s) = (groups, mem)" using p by simp
      show ?thesis
      proof (cases "srFamilies wr")
        case None
        have "wrMetricFamilies ?wr = None" "wrLabels ?wr = srLabels wr" by (simp_all add: readRequest_def None)
        then show ?thesis
          using process_delete_shared [OF run None l(2,3)] that [of "{}" "{}"] True
          by (simp add: process_delete keyOf_def)
      next
        case (Some r)
        have "request_ok (rsMem s) r" using l(7) [OF refl, of r] Some by (simp add: mapsOf_def)
        from process_update_shared [OF run Some l(1-3) this, of ?dms] show ?thesis
          using that [of "ownMetrics (rsMem s) wr" "{r}"] True by (simp add: own_simps(3,4) [OF Some])
      qed
    qed
    note k = live_update [OF live up]
    have "shared_ok (hEvent env Apply s)" using k(1) by (simp add: hEvent_def cur p shared_ok_def)
    moreover have "readStore env mem groups = ?new" using val by (intro store_of_groups) simp_all
    then have "readState env (hEvent env Apply s) = vEvent env Apply (readState env s)"
      using k(2-4) by (simp add: hEvent_def vEvent_def cur p readState_def)
    ultimately show ?thesis by simp
  qed
  then show "shared_ok (hEvent env Apply s)" "readState env (hEvent env Apply s) = vEvent env Apply (readState env s)"
    by simp_all
qed

lemma event_simulates:
  assumes "env_ok env" "shared_ok s"
  shows "shared_ok (hEvent env ev s)" "readState env (hEvent env ev s) = vEvent env ev (readState env s)"
  using event_parse [OF assms] event_check [OF assms] event_apply [OF assms] event_scrape [OF assms] event_copy [OF assms]
  by (cases ev; simp)+

lemma run_simulates:
  assumes "env_ok env" "shared_ok s"
  shows "shared_ok (fold (hEvent env) evs s) \<and>
    readState env (fold (hEvent env) evs s) = fold (vEvent env) evs (readState env s)"
  using assms(2) by (induction evs arbitrary: s) (simp_all add: event_simulates [OF assms(1)])

end
