(* ===== verification/SharedProps.thy ===== *)
theory SharedProps
  imports SharedRun ProcessProps
begin

text \<open>
  The properties of the store on shared objects, and a decoder that allocates as the parsers
  of the libraries do, on which the interface of the parser is interpreted.
\<close>

section \<open>Building the objects of a request\<close>

fun newMetrics :: "Metric list \<Rightarrow> shared_memory \<Rightarrow> nat list \<times> shared_memory" where
  "newMetrics [] mem = ([], mem)"
| "newMetrics (m # ms) mem =
     (case newMetric m mem of (p, mem1) \<Rightarrow> (case newMetrics ms mem1 of (ps, mem2) \<Rightarrow> (p # ps, mem2)))"

definition newFamilyOf :: "MetricFamily \<Rightarrow> shared_memory \<Rightarrow> nat \<times> shared_memory" where
  "newFamilyOf mf mem =
     (case newMetrics (mfMetric mf) mem of
        (ps, mem1) \<Rightarrow> newFamily \<lparr>sfName = mfName mf, sfHelp = mfHelp mf, sfType = mfType mf, sfMetric = ps\<rparr> mem1)"

fun newFamilies :: "(string \<times> MetricFamily) list \<Rightarrow> shared_memory \<Rightarrow> (string \<times> nat) list \<times> shared_memory" where
  "newFamilies [] mem = ([], mem)"
| "newFamilies ((n, mf) # rest) mem =
     (case newFamilyOf mf mem of (p, mem1) \<Rightarrow>
        (case newFamilies rest mem1 of (ps, mem2) \<Rightarrow> ((n, p) # ps, mem2)))"

definition namedFamilies :: "(string, MetricFamily) fmap \<Rightarrow> (string \<times> MetricFamily) list" where
  "namedFamilies fs = concat (map (\<lambda>n. case fmlookup fs n of None \<Rightarrow> [] | Some mf \<Rightarrow> [(n, mf)]) (sortedKeys fs))"

definition buildRequest :: "WriteRequest \<Rightarrow> shared_memory \<Rightarrow> shared_request \<times> shared_memory" where
  "buildRequest wr mem =
     (let req = (\<lambda>fams. \<lparr>srLabels = wrLabels wr, srTimestamp = wrTimestamp wr, srFamilies = fams,
            srReplace = wrReplace wr, srDone = wrDone wr\<rparr>)
      in case wrMetricFamilies wr of
           None \<Rightarrow> (req None, mem)
         | Some fs \<Rightarrow>
             (case newFamilies (namedFamilies fs) mem of
                (ps, mem1) \<Rightarrow>
                  (req (Some (memNext mem1)),
                   (setRequest (memNext mem1) (fmap_of_list ps) mem1)\<lparr>memNext := Suc (memNext mem1)\<rparr>)))"

lemma newMetrics_spec:
  assumes "newMetrics ms mem = (ps, mem')"
  shows "ps = [memNext mem..<memNext mem']" "memNext mem' = memNext mem + length ms" "map (memMetrics mem') ps = ms"
    "memFamilies mem' = memFamilies mem" "memTables mem' = memTables mem" "memRequests mem' = memRequests mem"
    "p < memNext mem \<Longrightarrow> memMetrics mem' p = memMetrics mem p"
proof -
  have "ps = [memNext mem..<memNext mem'] \<and> memNext mem' = memNext mem + length ms \<and> map (memMetrics mem') ps = ms \<and>
    memFamilies mem' = memFamilies mem \<and> memTables mem' = memTables mem \<and> memRequests mem' = memRequests mem \<and>
    (\<forall>p < memNext mem. memMetrics mem' p = memMetrics mem p)"
    using assms
  proof (induction ms arbitrary: mem ps)
    case (Cons m ms)
    obtain p mem1 where one: "newMetric m mem = (p, mem1)" by (rule prod.exhaust)
    obtain qs mem2 where two: "newMetrics ms mem1 = (qs, mem2)" by (rule prod.exhaust)
    have s: "p = memNext mem" "memNext mem1 = Suc (memNext mem)" "memMetrics mem1 = (memMetrics mem)(p := m)"
      "memFamilies mem1 = memFamilies mem" "memTables mem1 = memTables mem" "memRequests mem1 = memRequests mem"
      using one by (auto simp: newMetric_def)
    have out: "ps = p # qs" "mem' = mem2" using Cons.prems one two by simp_all
    note ih = Cons.IH [OF two [folded out(2)]]
    have "[memNext mem..<memNext mem'] = memNext mem # [Suc (memNext mem)..<memNext mem']"
      using ih s(2) by (intro upt_conv_Cons) simp
    then have ps: "ps = [memNext mem..<memNext mem']" using ih s(1,2) out(1) by metis
    have "memMetrics mem' p = m" using ih s(1-3) by simp
    moreover have "map (memMetrics mem') qs = ms" using ih by (elim conjE)
    ultimately have "map (memMetrics mem') ps = m # ms" by (simp only: out(1) list.map)
    moreover have "memNext mem' = memNext mem + length (m # ms)" using ih s(2) by simp
    moreover have "\<forall>q < memNext mem. memMetrics mem' q = memMetrics mem q" using ih s(1-3) by simp
    ultimately show ?case using ih s(4-6) ps by simp
  qed simp
  then show "ps = [memNext mem..<memNext mem']" "memNext mem' = memNext mem + length ms" "map (memMetrics mem') ps = ms"
    "memFamilies mem' = memFamilies mem" "memTables mem' = memTables mem" "memRequests mem' = memRequests mem"
    "p < memNext mem \<Longrightarrow> memMetrics mem' p = memMetrics mem p" by blast+
qed

lemma newFamilyOf_spec:
  assumes "newFamilyOf mf mem = (f, mem')"
  shows "changes {} {} {} mem mem'" "memRequests mem' = memRequests mem" "memNext mem \<le> f" "f < memNext mem'"
    "readFamily mem' f = mf" "sfMetric (memFamilies mem' f) = [memNext mem..<f]"
proof -
  obtain ps mem1 where ms: "newMetrics (mfMetric mf) mem = (ps, mem1)" by (rule prod.exhaust)
  note m = newMetrics_spec [OF ms]
  let ?fam = "\<lparr>sfName = mfName mf, sfHelp = mfHelp mf, sfType = mfType mf, sfMetric = ps\<rparr>"
  have f: "f = memNext mem1" and mem': "mem' = mem1\<lparr>memFamilies := (memFamilies mem)(f := ?fam), memNext := Suc f\<rparr>"
    using assms ms m(4) by (auto simp: newFamilyOf_def newFamily_def)
  show "memRequests mem' = memRequests mem" "memNext mem \<le> f" "f < memNext mem'"
    using m(2,6) f by (simp_all add: mem')
  show "sfMetric (memFamilies mem' f) = [memNext mem..<f]" using m(1) by (simp add: mem' f)
  show "readFamily mem' f = mf" using m(3) by (simp add: readFamily_def mem')
  have "mem_ok mem'" if "mem_ok mem"
    unfolding mem_ok_def
  proof
    fix g
    have "set (sfMetric (memFamilies mem g)) \<subseteq> {..<memNext mem}" using that by (simp add: mem_ok_def)
    then have "set (sfMetric (memFamilies mem g)) \<subseteq> {..<Suc f}" using m(2) f by force
    then show "set (sfMetric (memFamilies mem' g)) \<subseteq> {..<memNext mem'}" using m(1) by (auto simp: mem' f)
  qed
  then show "changes {} {} {} mem mem'" using m f by (simp add: changes_def mem')
qed

lemma newFamilies_spec:
  assumes "newFamilies nfs mem = (nps, mem')" "mem_ok mem"
  shows "changes {} {} {} mem mem' \<and> memRequests mem' = memRequests mem \<and> map fst nps = map fst nfs \<and>
    (\<forall>p \<in> snd ` set nps. p < memNext mem') \<and> map (\<lambda>(n, p). readFamily mem' p) nps = map snd nfs \<and>
    distinct (concat (map (\<lambda>(n, p). sfMetric (memFamilies mem' p)) nps)) \<and>
    set (concat (map (\<lambda>(n, p). sfMetric (memFamilies mem' p)) nps)) \<subseteq> {memNext mem..}"
  using assms
proof (induction nfs arbitrary: mem nps)
  case (Cons nf nfs)
  obtain n mf where nf: "nf = (n, mf)" by (rule prod.exhaust)
  obtain p mem1 where one: "newFamilyOf mf mem = (p, mem1)" by (rule prod.exhaust)
  obtain qs mem2 where two: "newFamilies nfs mem1 = (qs, mem2)" by (rule prod.exhaust)
  note s = newFamilyOf_spec [OF one]
  have out: "nps = (n, p) # qs" "mem' = mem2" using Cons.prems(1) one two by (simp_all add: nf)
  have ok1: "mem_ok mem1" using changesD(2) [OF s(1) Cons.prems(2)] .
  note ih = Cons.IH [OF two [folded out(2)] ok1]
  then have ch: "changes {} {} {} mem1 mem'" by blast
  have fam: "memFamilies mem' p = memFamilies mem1 p" using changesD(3) [OF ch s(4)] .
  have "readFamily mem' p = mf" using readFamily_frame [OF ch ok1 s(4)] s(5) by simp
  moreover have "p < memNext mem'" using s(4) changesD(1) [OF ch] by simp
  moreover have "changes {} {} {} mem mem'" by (rule changes_trans [OF s(1) ch]) auto
  moreover have "sfMetric (memFamilies mem' p) = [memNext mem..<p]" using fam s(6) by simp
  moreover have "memNext mem \<le> memNext mem1" using changesD(1) [OF s(1)] .
  ultimately show ?case using ih s(2,4) by (fastforce simp: out(1) nf)
qed simp

lemma namedFamilies_map:
  "namedFamilies fs = map (\<lambda>n. (n, case fmlookup fs n of Some mf \<Rightarrow> mf)) (sortedKeys fs)"
proof -
  have "concat (map (\<lambda>n. case fmlookup fs n of None \<Rightarrow> [] | Some mf \<Rightarrow> [(n, mf)]) ns) =
      map (\<lambda>n. (n, case fmlookup fs n of Some mf \<Rightarrow> mf)) ns" if "set ns \<subseteq> fmdom' fs" for ns
    using that by (induction ns) (auto simp: fmdom'_iff_Some)
  then show ?thesis unfolding namedFamilies_def by simp
qed

text \<open>The map that a list of named families with ascending names becomes.\<close>

lemma sortedKeys_of_list:
  assumes "map fst nps = sortedKeys (fs :: (string, 'b) fmap)"
  shows "sortedKeys (fmap_of_list nps) = sortedKeys fs" "(n, p) \<in> set nps \<Longrightarrow> fmlookup (fmap_of_list nps) n = Some p"
proof -
  have "fmdom' (fmap_of_list nps) = fst ` set nps"
    by (metis dom_map_of_conv_image_fst fmdom'.rep_eq fmap_of_list.rep_eq)
  also have "\<dots> = set (map fst nps)" by simp
  also have "\<dots> = fmdom' fs" unfolding assms by simp
  finally show "sortedKeys (fmap_of_list nps) = sortedKeys fs" by (simp add: sortedKeys_def)
  have "distinct (map fst nps)" unfolding assms by simp
  then show "(n, p) \<in> set nps \<Longrightarrow> fmlookup (fmap_of_list nps) n = Some p"
    by (simp add: fmlookup_of_list)
qed

lemma buildRequest_families:
  assumes run: "newFamilies (namedFamilies fs) mem = (nps, mem1)" and ok: "mem_ok mem"
  defines "mem' \<equiv> (setRequest (memNext mem1) (fmap_of_list nps) mem1)\<lparr>memNext := Suc (memNext mem1)\<rparr>"
  shows "changes {} {} {} mem mem'" "memNext mem \<le> memNext mem1" "request_ok mem' (memNext mem1)"
    "readFamilies mem' (memNext mem1) = fs" "distinct (requestMetrics mem' (memNext mem1))"
    "set (requestMetrics mem' (memNext mem1)) \<subseteq> {memNext mem..}"
proof -
  let ?r = "memNext mem1" and ?fm = "fmap_of_list nps"
  have nf: "changes {} {} {} mem mem1" "map fst nps = sortedKeys fs" "\<forall>p \<in> snd ` set nps. p < ?r"
    "map (\<lambda>(n, p). readFamily mem1 p) nps = map snd (namedFamilies fs)"
    "distinct (concat (map (\<lambda>(n, p). sfMetric (memFamilies mem1 p)) nps))"
    "set (concat (map (\<lambda>(n, p). sfMetric (memFamilies mem1 p)) nps)) \<subseteq> {memNext mem..}"
    using newFamilies_spec [OF run ok] by (simp_all add: namedFamilies_map comp_def)
  note keys = sortedKeys_of_list [OF nf(2)]
  have sel: "memFamilies mem' = memFamilies mem1" "memMetrics mem' = memMetrics mem1" "memNext mem' = Suc ?r"
    "memRequests mem' = (memRequests mem1)(?r := ?fm)" "memTables mem' = memTables mem1"
    by (simp_all add: mem'_def)
  have "changes {} {} {} mem1 mem'"
    using mem_ok_cong [of mem' mem1] by (simp add: changes_def sel)
  then show "changes {} {} {} mem mem'" by (intro changes_trans [OF nf(1)]) auto
  show "memNext mem \<le> ?r" using changesD(1) [OF nf(1)] .
  have vals: "fmlookup ?fm n = Some p \<Longrightarrow> (n, p) \<in> set nps" for n p
    by (simp add: fmlookup_of_list map_of_SomeD)
  show "request_ok mem' ?r"
    using nf(3) vals by (force simp: request_ok_def requestFamilies_def sel)
  have "map (namedMetrics mem' ?fm) (map fst nps) = map (\<lambda>(n, p). sfMetric (memFamilies mem1 p)) nps"
    using keys(2) by (auto simp: namedMetrics_def sel)
  then have "requestMetrics mem' ?r = concat (map (\<lambda>(n, p). sfMetric (memFamilies mem1 p)) nps)"
    unfolding requestMetrics_def sel fun_upd_same keys(1) nf(2) [symmetric] by (simp only:)
  then show "distinct (requestMetrics mem' ?r)" "set (requestMetrics mem' ?r) \<subseteq> {memNext mem..}"
    using nf(5,6) by simp_all
  show "readFamilies mem' ?r = fs"
  proof (rule fmap_ext)
    fix n
    have rd: "readFamily mem' = readFamily mem1" by (rule read_cong) (simp_all add: sel)
    show "fmlookup (readFamilies mem' ?r) n = fmlookup fs n"
    proof (cases "n \<in> fmdom' fs")
      case False
      then have "n \<notin> fmdom' ?fm" using keys(1) by (metis set_sortedKeys)
      then show ?thesis using False by (simp add: readFamilies_def sel fmdom'_iff_not_None)
    next
      case True
      then have "n \<in> set (map fst nps)" unfolding nf(2) by simp
      then obtain i where i: "i < length nps" "fst (nps ! i) = n" by (auto simp: in_set_conv_nth)
      define p where "p = snd (nps ! i)"
      have np: "nps ! i = (n, p)" using i(2) by (simp add: p_def prod_eq_iff)
      then have look: "fmlookup ?fm n = Some p" using keys(2) i(1) nth_mem by metis
      have len: "length (sortedKeys fs) = length nps" using nf(2) by (metis length_map)
      then have "sortedKeys fs ! i = n" using i nf(2) by (metis nth_map)
      then have "map snd (namedFamilies fs) ! i = (case fmlookup fs n of Some mf \<Rightarrow> mf)"
        using i(1) len by (simp add: namedFamilies_map)
      then have "readFamily mem1 p = (case fmlookup fs n of Some mf \<Rightarrow> mf)"
        using i(1) np by (simp flip: nf(4))
      then show ?thesis using True look by (auto simp: readFamilies_def sel rd fmdom'_iff_Some)
    qed
  qed
qed

interpretation built: fresh_parser buildRequest
proof
  fix wr mem req mem'
  assume run: "buildRequest wr mem = (req, mem')" and ok: "mem_ok mem"
  have "changes {} {} {} mem mem' \<and> readRequest mem' req = wr \<and> (\<forall>r. srFamilies req = Some r \<longrightarrow>
      memNext mem \<le> r \<and> request_ok mem' r \<and> distinct (requestMetrics mem' r) \<and> set (requestMetrics mem' r) \<subseteq> {memNext mem..})"
  proof (cases "wrMetricFamilies wr")
    case None
    then show ?thesis using run by (auto simp: buildRequest_def readRequest_def)
  next
    case (Some fs)
    obtain nps mem1 where nf: "newFamilies (namedFamilies fs) mem = (nps, mem1)" by (rule prod.exhaust)
    note b = buildRequest_families [OF nf ok]
    have out: "mem' = (setRequest (memNext mem1) (fmap_of_list nps) mem1)\<lparr>memNext := Suc (memNext mem1)\<rparr>"
      "srFamilies req = Some (memNext mem1)" "srLabels req = wrLabels wr" "srTimestamp req = wrTimestamp wr"
      "srReplace req = wrReplace wr" "srDone req = wrDone wr"
      using run Some nf by (auto simp: buildRequest_def Let_def)
    then show ?thesis using b Some unfolding out(1) [symmetric] by (simp add: readRequest_def)
  qed
  then show "changes {} {} {} mem mem'" "readRequest mem' req = wr"
    "srFamilies req = Some r \<Longrightarrow> memNext mem \<le> r \<and> request_ok mem' r \<and> distinct (requestMetrics mem' r) \<and>
      set (requestMetrics mem' r) \<subseteq> {memNext mem..}" for r by blast+
qed

section \<open>What the runs have in common\<close>

lemma hEvent_appends:
  "\<exists>ps cs. rsScrapes (hEvent env ev s) = rsScrapes s @ ps \<and> rsCopies (hEvent env ev s) = rsCopies s @ cs"
  by (auto simp: hEvent_def split: store_event.split option.split prod.split)

lemma vEvent_appends:
  "\<exists>ps cs. vsScrapes (vEvent env ev v) = vsScrapes v @ ps \<and> vsCopies (vEvent env ev v) = vsCopies v @ cs"
  by (auto simp: vEvent_def split: store_event.split option.split prod.split)

text \<open>One event leaves everything that was handed out before as it reads.\<close>

lemma event_keeps_references:
  assumes "env_ok env" "shared_ok s"
  shows "map (map (readFamily (rsMem (hEvent env ev s)))) (rsScrapes s) = map (map (readFamily (rsMem s))) (rsScrapes s)"
    "map (readGroups (rsMem (hEvent env ev s))) (rsCopies s) = map (readGroups (rsMem s)) (rsCopies s)"
proof -
  let ?s = "hEvent env ev s"
  obtain ps cs where h: "rsScrapes ?s = rsScrapes s @ ps" "rsCopies ?s = rsCopies s @ cs" using hEvent_appends by blast
  obtain vs ds where v: "vsScrapes (vEvent env ev (readState env s)) = vsScrapes (readState env s) @ vs"
    "vsCopies (vEvent env ev (readState env s)) = vsCopies (readState env s) @ ds" using vEvent_appends by blast
  have "vsScrapes (readState env ?s) = vsScrapes (readState env s) @ vs" "vsCopies (readState env ?s) = vsCopies (readState env s) @ ds"
    using event_simulates(2) [OF assms, of ev] v by simp_all
  then show "map (map (readFamily (rsMem ?s))) (rsScrapes s) = map (map (readFamily (rsMem s))) (rsScrapes s)"
    "map (readGroups (rsMem ?s)) (rsCopies s) = map (readGroups (rsMem s)) (rsCopies s)"
    using h by (simp_all add: readState_def append_eq_append_conv)
qed

text \<open>
  The requests that a run takes from the waiting ones, in that order and with the order of iteration that their check
  used, and the store once the request that is checked last has been applied as well.
\<close>

fun checkedRequests :: "shared_env \<Rightarrow> store_event list \<Rightarrow> value_state \<Rightarrow> (WriteRequest \<times> order_choice) list" where
  "checkedRequests env [] v = []"
| "checkedRequests env (ev # evs) v =
     (case ev of Check i order \<Rightarrow> if vsCurrent v = None \<and> i < length (vsOwned v) then [(vsOwned v ! i, order)] else [] | _ \<Rightarrow> []) @
     checkedRequests env evs (vEvent env ev v)"

definition settled :: "shared_env \<Rightarrow> value_state \<Rightarrow> DiskMetricStore" where
  "settled env v = vsStore (vEvent env Apply v)"

lemma settled_event:
  "settled env (vEvent env ev v) = runWrites (shLoop env) (checkedRequests env [ev] v) (settled env v)"
proof (cases ev)
  case (Check i order)
  then show ?thesis
    by (auto simp: settled_def runWrites_def vEvent_def handleWrite_def split: option.split prod.split)
qed (auto simp: settled_def runWrites_def vEvent_def split: option.split)

lemma settled_run:
  "settled env (fold (vEvent env) evs v) = runWrites (shLoop env) (checkedRequests env evs v) (settled env v)"
proof (induction evs arbitrary: v)
  case (Cons ev evs)
  then show ?case using settled_event [of env ev v] by (simp add: runWrites_append)
qed (simp add: runWrites_Nil)

text \<open>A store that has just started: nothing allocated, nothing waiting.\<close>

definition emptyMemory :: shared_memory where
  "emptyMemory = \<lparr>memMetrics = (\<lambda>p. gaugeMetric (F64 0 0)),
     memFamilies = (\<lambda>p. \<lparr>sfName = None, sfHelp = None, sfType = None, sfMetric = []\<rparr>),
     memTables = (\<lambda>p. fmempty), memRequests = (\<lambda>p. fmempty), memNext = 0\<rparr>"

definition startState :: shared_state where
  "startState = \<lparr>rsMem = emptyMemory, rsGroups = fmempty, rsOwned = [], rsCurrent = None, rsScrapes = [],
     rsCopies = [], rsAnswers = []\<rparr>"

definition sampleEnv :: shared_env where
  "sampleEnv = \<lparr>shLoop = \<lparr>envConsts = prom_consts, envGather = (\<lambda>mfs. None), envInterval = 0\<rparr>, shRange = sortedKeys,
     shHelp = fmempty, shFile = '''', shParse = buildRequest\<rparr>"

lemma sampleEnv_ok: "env_ok sampleEnv"
  using built.fresh_parser_axioms by (simp add: env_ok_def sampleEnv_def map_order_sortedKeys)

lemma startState_ok: "shared_ok startState"
  by (simp add: shared_ok_def live_def startState_def emptyMemory_def mem_ok_def groups_ok_def tables_distinct_def
      tablesOf_def groupsFamilies_def frozenFamilies_def requestsFamilies_def owned_ok_def ownedMetrics_def metricsOf_def)

text \<open>
  The interleaving is harmless: once the request in the loop's hands is applied, the shared
  store reads as the store that the write loop makes of the requests when it handles them one after the other, in the
  order in which they were taken, no matter what else ran in between.
\<close>

lemma interleaving_is_sequential:
  assumes "env_ok env" "shared_ok s" "rsCurrent s = None"
  shows "let s' = hEvent env Apply (fold (hEvent env) evs s) in
    readStore env (rsMem s') (rsGroups s') =
      runWrites (shLoop env) (checkedRequests env evs (readState env s)) (readStore env (rsMem s) (rsGroups s))"
proof -
  let ?s = "fold (hEvent env) evs s"
  have run: "shared_ok ?s" "readState env ?s = fold (vEvent env) evs (readState env s)"
    using run_simulates [OF assms(1,2)] by blast+
  have store: "vsStore (readState env t) = readStore env (rsMem t) (rsGroups t)" for t by (simp add: readState_def)
  have "settled env (readState env s) = readStore env (rsMem s) (rsGroups s)"
    using assms(3) by (simp add: settled_def vEvent_def readState_def)
  then show ?thesis
    using settled_run [of env evs "readState env s"] event_simulates(2) [OF assms(1) run(1), of Apply]
    by (simp add: settled_def run(2) flip: store)
qed

text \<open>Events that handle given requests one by one.\<close>

definition handleEvents :: "(WriteRequest \<times> order_choice) list \<Rightarrow> store_event list" where
  "handleEvents ws = concat (map (\<lambda>(wr, order). [Parse wr, Check 0 order, Apply]) ws)"

lemma handleEvents_checked:
  "vsOwned v = [] \<Longrightarrow> vsCurrent v = None \<Longrightarrow> checkedRequests env (handleEvents ws) v = ws"
proof (induction ws arbitrary: v)
  case (Cons w ws)
  obtain wr order where w: "w = (wr, order)" by (cases w)
  let ?v = "fold (vEvent env) [Parse wr, Check 0 order, Apply] v"
  have "vsOwned ?v = []" "vsCurrent ?v = None"
    using Cons.prems by (simp_all add: vEvent_def without_def split: prod.split)
  from Cons.IH [OF this] show ?case
    using Cons.prems by (simp add: handleEvents_def w) (simp add: vEvent_def)
qed (simp add: handleEvents_def)

section \<open>Properties\<close>

text \<open>
  C3. References cannot be told from values: whatever is parsed, checked, applied, scraped and
  copied, and in whatever order, reading the shared memory afterwards gives the state of the same
  run on values.  In particular the request that the check changes through its references, the
  families that the test store shares with the real one and the metrics that scrape results
  share with the store never show through.
\<close>

theorem references_refine_values:
  assumes "env_ok env" "shared_ok s"
  shows "readState env (fold (hEvent env) evs s) = fold (vEvent env) evs (readState env s)"
  using run_simulates [OF assms] by blast

theorem references_refine_values_witness:
  "let evs = [Parse (push_of ''j'' 5 fmempty True), Scrape sortedOrder, Check 0 sortedOrder, CopyGroups, Apply, Scrape sortedOrder] in
   readState sampleEnv (fold (hEvent sampleEnv) evs startState) = fold (vEvent sampleEnv) evs (readState sampleEnv startState)"
  unfolding Let_def by (rule references_refine_values [OF sampleEnv_ok startState_ok])

text \<open>
  C11. What a scrape or a copy of the groups has handed out stays as it was: every family of an
  earlier scrape and every group of an earlier copy reads the same after any further requests,
  although they are the objects that the store goes on using.
\<close>

theorem handed_out_references_stay:
  assumes "env_ok env" "shared_ok s"
  shows "(\<forall>ps \<in> set (rsScrapes s). map (readFamily (rsMem (fold (hEvent env) evs s))) ps = map (readFamily (rsMem s)) ps) \<and>
    (\<forall>c \<in> set (rsCopies s). readGroups (rsMem (fold (hEvent env) evs s)) c = readGroups (rsMem s) c)"
  using assms(2)
proof (induction evs arbitrary: s)
  case (Cons ev evs)
  let ?s = "hEvent env ev s"
  obtain ps cs where "rsScrapes ?s = rsScrapes s @ ps" "rsCopies ?s = rsCopies s @ cs" using hEvent_appends by blast
  then show ?case
    using Cons.IH [OF event_simulates(1) [OF assms(1) Cons.prems], of ev] event_keeps_references [OF assms(1) Cons.prems, of ev]
    by (simp add: ball_Un)
qed simp

theorem handed_out_references_stay_witness:
  "let s = fold (hEvent sampleEnv) [Parse (push_of ''j'' 5 fmempty True), Check 0 sortedOrder, Apply, Scrape sortedOrder, CopyGroups] startState;
       s' = fold (hEvent sampleEnv) [Parse (push_of ''j'' 7 fmempty True), Check 0 sortedOrder, Apply] s
   in (\<forall>ps \<in> set (rsScrapes s). map (readFamily (rsMem s')) ps = map (readFamily (rsMem s)) ps) \<and>
      (\<forall>c \<in> set (rsCopies s). readGroups (rsMem s') c = readGroups (rsMem s) c)"
  unfolding Let_def
  by (rule handed_out_references_stay [OF sampleEnv_ok]) (rule conjunct1 [OF run_simulates [OF sampleEnv_ok startState_ok]])

text \<open>
  C18. The process can run on shared objects.  For a process that has started with the store that a shared memory
  reads as, the requests that its loop has applied can be handled on that memory; and whenever they are, in whatever way
  parsing, scrapes and copies come in between, the memory then reads as the store of the process.
\<close>

theorem process_runs_on_shared_objects:
  assumes "env_ok env" "shared_ok s" "rsOwned s = []" "rsCurrent s = None" "zeroTime \<le> t" "peLoop penv = shLoop env"
    and "(process_step penv)\<^sup>*\<^sup>* (initProcess (readStore env (rsMem s) (rsGroups s)) t disk) p"
  shows "(\<exists>evs. checkedRequests env evs (readState env s) = lsApplied (psLoop p)) \<and>
    (\<forall>evs. checkedRequests env evs (readState env s) = lsApplied (psLoop p) \<longrightarrow>
      (let s' = hEvent env Apply (fold (hEvent env) evs s) in
       readStore env (rsMem s') (rsGroups s') = lsStore (psLoop p)))"
proof -
  have "vsOwned (readState env s) = []" "vsCurrent (readState env s) = None" using assms(3,4) by (simp_all add: readState_def)
  then have "\<exists>evs. checkedRequests env evs (readState env s) = lsApplied (psLoop p)" using handleEvents_checked by blast
  moreover have "lsStore (psLoop p) = runWrites (shLoop env) (lsApplied (psLoop p)) (readStore env (rsMem s) (rsGroups s))"
    using process_invD(1) [OF reachable_process_inv [OF assms(5,7)]] assms(6) by (simp add: answer_inv_def fifo_inv_def)
  ultimately show ?thesis
    using interleaving_is_sequential [OF assms(1,2,4)] by (simp add: Let_def)
qed

theorem process_runs_on_shared_objects_witness:
  "\<exists>p. (process_step \<lparr>peLoop = shLoop sampleEnv, peHandlers = sample_handlers\<rparr>)\<^sup>*\<^sup>*
      (initProcess (readStore sampleEnv emptyMemory fmempty) 5 None) p \<and> map fst (lsApplied (psLoop p)) = [sample_push] \<and>
    (\<exists>evs. let s' = hEvent sampleEnv Apply (fold (hEvent sampleEnv) evs startState) in
      readStore sampleEnv (rsMem s') (rsGroups s') = lsStore (psLoop p))"
proof -
  let ?penv = "\<lparr>peLoop = shLoop sampleEnv, peHandlers = sample_handlers\<rparr>" and ?dms = "readStore sampleEnv emptyMemory fmempty"
  have z: "zeroTime \<le> 5" by (simp add: zeroTime_def)
  have "pushRequest (peHandlers ?penv) True True False 5 0 sample_request = Inr sample_push"
    using sample_pushRequest by (simp add: sample_push_def)
  from reach_waiting [OF this, of ?dms None]
  obtain p where p: "(process_step ?penv)\<^sup>*\<^sup>* (initProcess ?dms 5 None) p" "psMain p = Serving"
    "psLoop p = SubmitWriteRequest sample_push (initLoop ?dms 5 None)" by blast
  then have "\<not> draining (lsPc (psLoop p))" by (simp add: SubmitWriteRequest_def initLoop_def)
  from reach_idle [OF this, of "peLoop ?penv"]
  obtain l where l: "(internal_step (peLoop ?penv))\<^sup>*\<^sup>* (psLoop p) l" "lsPc l = AtSelect" "lsQueue l = []" by blast
  let ?q = "p\<lparr>psLoop := l\<rparr>"
  have "(process_step ?penv)\<^sup>*\<^sup>* p ?q" using l(1) p(2) by (intro internal_run) simp_all
  then have run: "(process_step ?penv)\<^sup>*\<^sup>* (initProcess ?dms 5 None) ?q" using p(1) by (rule rtranclp_trans [rotated])
  have "lsSubmitted l = [sample_push]"
    using internal_run_keeps [OF l(1)] by (simp add: p(3) SubmitWriteRequest_def initLoop_def)
  then have "map fst (lsApplied (psLoop ?q)) = [sample_push]"
    using process_invD(1) [OF reachable_process_inv [OF z run]] l(2,3) by (simp add: answer_inv_def fifo_inv_def)
  moreover have "rsOwned startState = []" "rsCurrent startState = None" "peLoop ?penv = shLoop sampleEnv"
      "(process_step ?penv)\<^sup>*\<^sup>* (initProcess (readStore sampleEnv (rsMem startState) (rsGroups startState)) 5 None) ?q"
    using run by (simp_all add: startState_def)
  note both = process_runs_on_shared_objects [OF sampleEnv_ok startState_ok this(1,2) z this(3,4)]
  obtain evs where "checkedRequests sampleEnv evs (readState sampleEnv startState) = lsApplied (psLoop ?q)"
    using conjunct1 [OF both] by (elim exE)
  from conjunct2 [OF both, rule_format, OF this]
  have "\<exists>evs. let s' = hEvent sampleEnv Apply (fold (hEvent sampleEnv) evs startState) in
      readStore sampleEnv (rsMem s') (rsGroups s') = lsStore (psLoop ?q)" by (rule exI [where x = evs])
  ultimately show ?thesis using run by (intro exI [of _ ?q] conjI)
qed

end
