(* ===== verification/Dispatch.thy ===== *)
theory Dispatch
  imports MainCfg AssetFS
begin

text \<open>
  From a URL to a write request: the server of main.go (\<open>http.ServeMux\<close>, \<open>decodeRequest\<close>, the router
  with its table of routes) in front of the handlers.  The router is library code
  (\<open>prometheus/common/route\<close> over \<open>httprouter\<close>); it is the argument \<open>lookup\<close>, and the hypothesis \<open>router_ok\<close>
  states its documented behaviour: it finds a registered pattern that matches whenever there is one.
  The mux cleans the escaped form of the path, and the router and the API read the decoded one.
\<close>

section \<open>Patterns\<close>

text \<open>
  The documented meaning of a pattern, segment by segment: \<open>:name\<close> matches one segment that is not empty,
  \<open>*name\<close> everything that is left with the slash in front of it, and any other segment itself.
\<close>

fun matchSegs :: "string list \<Rightarrow> string list \<Rightarrow> (string, string) fmap option" where
  "matchSegs [] [] = Some fmempty"
| "matchSegs [] (s # ss) = None"
| "matchSegs (p # ps) [] = None"
| "matchSegs (p # ps) (s # ss) =
     (if HasPrefix p '':'' then
        (if s = '''' then None else map_option (fmupd (drop 1 p) s) (matchSegs ps ss))
      else if HasPrefix p ''*'' then
        (if ps = [] then Some (fmupd (drop 1 p) (CHR ''/'' # joinSep CHR ''/'' (s # ss)) fmempty) else None)
      else if p = s then matchSegs ps ss else None)"

definition matchPattern :: "string \<Rightarrow> string \<Rightarrow> (string, string) fmap option" where
  "matchPattern pat path = matchSegs (splitOn CHR ''/'' pat) (splitOn CHR ''/'' path)"

type_synonym router = "route list \<Rightarrow> http_method \<Rightarrow> string \<Rightarrow> (route_handler \<times> (string, string) fmap) option"

definition router_ok :: "router \<Rightarrow> bool" where
  "router_ok lookup \<longleftrightarrow> (\<forall>table m path.
     (case lookup table m path of
        None \<Rightarrow> \<forall>pat h. (m, pat, h) \<in> set table \<longrightarrow> matchPattern pat path = None
      | Some (h, params) \<Rightarrow> \<exists>pat. (m, pat, h) \<in> set table \<and> matchPattern pat path = Some params))"

lemma router_okD:
  assumes "router_ok lookup"
  shows "lookup table m path = None \<Longrightarrow> (m, pat, h) \<in> set table \<Longrightarrow> matchPattern pat path = None"
    "lookup table m path = Some (h, params) \<Longrightarrow> \<exists>pat. (m, pat, h) \<in> set table \<and> matchPattern pat path = Some params"
proof -
  have "case lookup table m path of
      None \<Rightarrow> \<forall>pat h. (m, pat, h) \<in> set table \<longrightarrow> matchPattern pat path = None
    | Some (h, params) \<Rightarrow> \<exists>pat. (m, pat, h) \<in> set table \<and> matchPattern pat path = Some params"
    using assms unfolding router_ok_def by (elim allE)
  then show "lookup table m path = None \<Longrightarrow> (m, pat, h) \<in> set table \<Longrightarrow> matchPattern pat path = None"
    "lookup table m path = Some (h, params) \<Longrightarrow> \<exists>pat. (m, pat, h) \<in> set table \<and> matchPattern pat path = Some params"
    by auto
qed

section \<open>The server\<close>

text \<open>The decoded form of an escaped path, \<open>None\<close> if an escape is malformed.\<close>

definition hexDigit :: "char \<Rightarrow> nat option" where
  "hexDigit c =
     (let n = of_char c :: nat in
      if 48 \<le> n \<and> n \<le> 57 then Some (n - 48)
      else if 65 \<le> n \<and> n \<le> 70 then Some (n - 55)
      else if 97 \<le> n \<and> n \<le> 102 then Some (n - 87)
      else None)"

fun unescapePath :: "string \<Rightarrow> string option" where
  "unescapePath [] = Some []"
| "unescapePath (c # s) =
     (if c = CHR ''%'' then
        (case s of
           a # b # t \<Rightarrow>
             (case (hexDigit a, hexDigit b) of
                (Some x, Some y) \<Rightarrow> map_option ((#) (char_of (16 * x + y))) (unescapePath t)
              | _ \<Rightarrow> None)
         | _ \<Rightarrow> None)
      else map_option ((#) c) (unescapePath s))"

lemma unescapePath_plain: "CHR ''%'' \<notin> set s \<Longrightarrow> unescapePath s = Some s"
  by (induction s) auto

text \<open>\<open>cleanPath\<close> of \<open>net/http\<close>: rooted, cleaned, with the slash at the end put back.\<close>

definition muxCleanPath :: "string \<Rightarrow> string" where
  "muxCleanPath path =
     (if path = '''' then ''/''
      else let p = (if \<not> HasPrefix path ''/'' then ''/'' @ path else path); np = CleanRooted p
           in if HasSuffix p ''/'' \<and> np \<noteq> ''/'' then np @ ''/'' else np)"

definition muxTarget :: "string \<Rightarrow> string \<Rightarrow> mux_target" where
  "muxTarget rp path =
     (case serveMux rp (muxCleanPath path) of
        MuxRedirect to \<Rightarrow> MuxRedirect to
      | target \<Rightarrow> if muxCleanPath path \<noteq> path then MuxRedirect (muxCleanPath path) else target)"

text \<open>A message with the escaped form of its path.\<close>

record http_message =
  hmMethod :: http_method
  hmPath :: string
  hmContentType :: string
  hmContentEncoding :: string
  hmBody :: body

text \<open>
  What becomes of a message: it is malformed, redirected, handed to the API, answered by \<open>decodeRequest\<close>, or its path is
  looked up, and found or not.
\<close>

datatype served =
    ServedMalformed
  | ServedRedirect string
  | ServedAPI string
  | ServedReply reply
  | ServedNotFound
  | ServedBy route_handler "(string, string) fmap" body

definition serveMain ::
  "router \<Rightarrow> (body \<Rightarrow> string + body) \<Rightarrow> (body \<Rightarrow> body) \<Rightarrow> string \<Rightarrow> route list \<Rightarrow> http_message \<Rightarrow> served" where
  "serveMain lookup ungzip unsnappy rp table msg =
     (case unescapePath (hmPath msg) of
        None \<Rightarrow> ServedMalformed
      | Some path \<Rightarrow>
          (case muxTarget rp (hmPath msg) of
             MuxRedirect to \<Rightarrow> ServedRedirect to
           | MuxAPI rest \<Rightarrow>
               let mount = apiPath rp @ ''/v1'' in
               if HasPrefix path mount then ServedAPI (drop (length mount) path) else ServedNotFound
           | MuxMain _ \<Rightarrow>
               (case decodeRequest ungzip unsnappy
                       (\<lambda>body. case lookup table (hmMethod msg) path of
                          None \<Rightarrow> ServedNotFound | Some (h, params) \<Rightarrow> ServedBy h params body)
                       (hmContentEncoding msg) (hmBody msg) of
                  Inl r \<Rightarrow> ServedReply r | Inr out \<Rightarrow> out)))"

text \<open>
  \<open>route.Param\<close>, which is empty for a parameter that the pattern does not have, and the parts of the message that the
  push and delete handlers read.
\<close>

definition Param :: "(string, string) fmap \<Rightarrow> string \<Rightarrow> string" where
  "Param params name = getStr (fmlookup params name)"

definition handlerRequest :: "http_message \<Rightarrow> (string, string) fmap \<Rightarrow> body \<Rightarrow> http_request" where
  "handlerRequest msg params body =
     \<lparr>reqJob = Param params ''job'', reqLabels = Param params ''labels'', reqContentType = hmContentType msg, reqBody = body\<rparr>"

text \<open>The write request that a message leads to, if it leads to one.\<close>

definition submittedBy :: "handler_env \<Rightarrow> gotime \<Rightarrow> nat \<Rightarrow> http_message \<Rightarrow> served \<Rightarrow> WriteRequest option" where
  "submittedBy env now ch msg out =
     (case out of
        ServedBy (RoutePush replace check b64) params body \<Rightarrow>
          fst (Push env replace check b64 now ch (handlerRequest msg params body))
      | ServedBy (RouteDelete b64) params body \<Rightarrow>
          fst (Delete env b64 now (handlerRequest msg params body))
      | _ \<Rightarrow> None)"

section \<open>Paths as lists of segments\<close>

definition slashed :: "string list \<Rightarrow> string" where
  "slashed segs = concat (map (\<lambda>s. CHR ''/'' # s) segs)"

lemma slashed_simps [simp]: "slashed [] = ''''" "slashed (s # ss) = CHR ''/'' # s @ slashed ss"
  "slashed (ss @ ts) = slashed ss @ slashed ts"
  by (simp_all add: slashed_def)

lemma slashed_join: "ss \<noteq> [] \<Longrightarrow> slashed ss = CHR ''/'' # joinSep CHR ''/'' ss"
  unfolding slashed_def by (rule joinSep_concat)

lemma splitOn_slashed:
  assumes "\<forall>s \<in> set ss. CHR ''/'' \<notin> set s"
  shows "splitOn CHR ''/'' (slashed ss) = [] # ss"
proof (cases "ss = []")
  case False
  then show ?thesis unfolding slashed_join [OF False] using splitOn_joinSep [OF False assms] by simp
qed simp

lemma labelPath_slashed: "labelPath pls = slashed (concat (map segments pls))"
  by (simp add: labelPath_def slashed_def)

text \<open>A segment of a pattern that stands for itself.\<close>

definition plain_seg :: "string \<Rightarrow> bool" where
  "plain_seg s \<longleftrightarrow> proper_part s \<and> \<not> HasPrefix s '':'' \<and> \<not> HasPrefix s ''*''"

definition plain_prefix :: "string \<Rightarrow> bool" where
  "plain_prefix rp \<longleftrightarrow> rp = slashed (tl (splitOn CHR ''/'' rp)) \<and> list_all plain_seg (tl (splitOn CHR ''/'' rp))"

lemma matchSegs_prefix: "list_all plain_seg rs \<Longrightarrow> matchSegs (rs @ ps) (rs @ ss) = matchSegs ps ss"
  by (induction rs) (auto simp: plain_seg_def)

lemma matchPattern_slashed:
  assumes "list_all plain_seg rs" "\<forall>s \<in> set (ps @ ss). CHR ''/'' \<notin> set s"
  shows "matchPattern (slashed rs @ slashed ps) (slashed rs @ slashed ss) = matchSegs ps ss"
proof -
  have "\<forall>s \<in> set rs. CHR ''/'' \<notin> set s" using assms(1) by (auto simp: list_all_iff plain_seg_def proper_part_def)
  then have "splitOn CHR ''/'' (slashed (rs @ ps)) = [] # rs @ ps" "splitOn CHR ''/'' (slashed (rs @ ss)) = [] # rs @ ss"
    using assms(2) splitOn_slashed [of "rs @ ps"] splitOn_slashed [of "rs @ ss"] by auto
  then show ?thesis
    using matchSegs_prefix [OF assms(1)] by (simp add: matchPattern_def HasPrefix_def)
qed

text \<open>The mux leaves a path of proper segments alone.\<close>

lemma clean_slashed:
  assumes "list_all proper_part ss" "ss \<noteq> []"
  shows "muxCleanPath (slashed ss) = slashed ss"
proof -
  have "CleanRooted (slashed ss) = slashed ss"
    using assms CleanRooted_joinSep [of ss] unfolding slashed_join [OF assms(2)] CleanRooted_slash by (simp add: list_all_iff)
  moreover obtain ts s where ss: "ss = ts @ [s]" using assms(2) by (cases ss rule: rev_cases) auto
  have "\<not> HasSuffix (slashed ss) ''/''"
  proof -
    have s: "s \<noteq> ''''" "CHR ''/'' \<notin> set s" using assms(1) by (auto simp: ss proper_part_def)
    then obtain s' c where "s = s' @ [c]" by (cases s rule: rev_cases) auto
    then show ?thesis using s HasSuffix_snoc [of "slashed ts @ CHR ''/'' # s'" c] by (auto simp: ss)
  qed
  moreover have "HasPrefix (slashed ss) ''/''" using assms(2) by (cases ss) (simp_all add: HasPrefix_def)
  moreover have "slashed ss \<noteq> ''''" using assms(2) by (cases ss) simp_all
  ultimately show ?thesis by (simp add: muxCleanPath_def Let_def)
qed

section \<open>The path of a group\<close>

definition groupPath :: "string \<Rightarrow> nat option \<Rightarrow> path_label list \<Rightarrow> string" where
  "groupPath job b pls =
     ''/metrics/job'' @ (if b = None then '''' else Base64Suffix) @ ''/'' @ writtenValue job b @ labelPath pls"

definition groupSegs :: "string \<Rightarrow> nat option \<Rightarrow> path_label list \<Rightarrow> string list" where
  "groupSegs job b pls =
     ''metrics'' # (''job'' @ (if b = None then '''' else Base64Suffix)) # writtenValue job b # concat (map segments pls)"

lemma groupPath_slashed: "groupPath job b pls = slashed (groupSegs job b pls)"
  by (simp add: groupPath_def groupSegs_def labelPath_slashed)

text \<open>The patterns of the push routes, below the prefix, and what they make of the path: exactly one matches.\<close>

definition pushSegs :: "bool \<Rightarrow> bool \<Rightarrow> string list" where
  "pushSegs c lbls = [''metrics'', ''job'' @ (if c then Base64Suffix else ''''), '':job''] @ (if lbls then [''*labels''] else [])"

lemma group_matches:
  assumes "writtenValue job b \<noteq> ''''"
  shows "matchSegs (pushSegs c lbls) (groupSegs job b pls) =
      (if c = (b \<noteq> None) \<and> lbls = (concat (map segments pls) \<noteq> [])
       then Some (fmupd ''job'' (writtenValue job b) (if lbls then fmupd ''labels'' (labelPath pls) fmempty else fmempty))
       else None)"
    "matchSegs [''-'', ''quit''] (groupSegs job b pls) = None"
proof -
  define L where "L = concat (map segments pls)"
  have label: "L = s # ss \<Longrightarrow> CHR ''/'' # joinSep CHR ''/'' (s # ss) = labelPath pls" for s ss
    unfolding labelPath_slashed L_def [symmetric] using slashed_join [of "s # ss"] by simp
  show "matchSegs (pushSegs c lbls) (groupSegs job b pls) =
      (if c = (b \<noteq> None) \<and> lbls = (concat (map segments pls) \<noteq> [])
       then Some (fmupd ''job'' (writtenValue job b) (if lbls then fmupd ''labels'' (labelPath pls) fmempty else fmempty))
       else None)"
    using assms label unfolding groupSegs_def pushSegs_def L_def [symmetric]
    by (cases L; cases lbls; cases c; cases b) (auto simp: HasPrefix_def Base64Suffix_def)
  show "matchSegs [''-'', ''quit''] (groupSegs job b pls) = None"
    by (simp add: groupSegs_def HasPrefix_def)
qed

text \<open>The routes that are not for GET: the push routes in their four forms, and the one for quitting.\<close>

definition targetRoute :: "http_method \<Rightarrow> bool \<Rightarrow> bool \<Rightarrow> route_handler" where
  "targetRoute m pushUnchecked c = (if m = MethodDelete then RouteDelete c else RoutePush (m = MethodPut) (\<not> pushUnchecked) c)"

lemma pushSegs_slashed:
  "''/metrics/job'' @ (if c then Base64Suffix else '''') @ ''/:job/*labels'' = slashed (pushSegs c True)"
  "''/metrics/job'' @ (if c then Base64Suffix else '''') @ ''/:job'' = slashed (pushSegs c False)"
  by (simp_all add: pushSegs_def)

lemma routes_not_get:
  assumes "m \<noteq> MethodGet"
  shows "(m, pat, h) \<in> set (routes pathJoin rp mp unchecked lifecycle) \<Longrightarrow>
      (\<exists>c lbls. pat = rp @ slashed (pushSegs c lbls) \<and> h = targetRoute m unchecked c) \<or> pat = rp @ slashed [''-'', ''quit'']"
    "(m, rp @ slashed (pushSegs c lbls), targetRoute m unchecked c) \<in> set (routes pathJoin rp mp unchecked lifecycle)"
proof -
  note forms = pushSegs_slashed [of False, simplified] pushSegs_slashed [of True, simplified]
  have suffix: "'''' \<noteq> Base64Suffix" by (simp add: Base64Suffix_def)
  show "(m, rp @ slashed (pushSegs c lbls), targetRoute m unchecked c) \<in> set (routes pathJoin rp mp unchecked lifecycle)"
    using assms
    by (cases m; cases c; cases lbls)
      (simp_all add: routes_def pushRoutes_def Let_def targetRoute_def pushSegs_def suffix)
  assume "(m, pat, h) \<in> set (routes pathJoin rp mp unchecked lifecycle)"
  then have "pat = rp @ ''/-/quit'' \<or> (\<exists>c. h = targetRoute m unchecked c \<and>
      (pat = rp @ ''/metrics/job'' @ (if c then Base64Suffix else '''') @ ''/:job/*labels'' \<or>
       pat = rp @ ''/metrics/job'' @ (if c then Base64Suffix else '''') @ ''/:job''))"
    using assms suffix unfolding ex_bool_eq
    by (cases m) (auto simp: routes_def pushRoutes_def Let_def targetRoute_def split: if_splits)
  then show "(\<exists>c lbls. pat = rp @ slashed (pushSegs c lbls) \<and> h = targetRoute m unchecked c) \<or> pat = rp @ slashed [''-'', ''quit'']"
    unfolding pushSegs_slashed by auto
qed

lemma b64encode_Nil_iff: "b64encode bs = '''' \<longleftrightarrow> bs = []"
  by (cases bs rule: b64encode.cases) simp_all

lemma writtenValue_nonempty: "job \<noteq> '''' \<Longrightarrow> writtenValue job b \<noteq> ''''"
  by (cases b) (simp_all add: writtenValue_def encodeBase64_def b64encode_Nil_iff bytes_def)

lemma lookup_group:
  assumes router: "router_ok lookup" and rp: "plain_prefix rp" and m: "m \<noteq> MethodGet"
    and job: "job \<noteq> ''''" and segs: "list_all (\<lambda>s. CHR ''/'' \<notin> set s) (writtenValue job b # concat (map segments pls))"
  shows "\<exists>params. lookup (routes pathJoin rp mp unchecked lifecycle) m (rp @ groupPath job b pls) =
      Some (targetRoute m unchecked (b \<noteq> None), params) \<and>
    Param params ''job'' = writtenValue job b \<and> Param params ''labels'' = labelPath pls"
proof -
  let ?table = "routes pathJoin rp mp unchecked lifecycle" and ?path = "rp @ groupPath job b pls"
  let ?L = "concat (map segments pls)"
  define rs where "rs = tl (splitOn CHR ''/'' rp)"
  have rs: "rp = slashed rs" "list_all plain_seg rs" using rp by (simp_all add: plain_prefix_def rs_def)
  have j: "writtenValue job b \<noteq> ''''" using job by (rule writtenValue_nonempty)
  have ns: "\<forall>s \<in> set (groupSegs job b pls). CHR ''/'' \<notin> set s"
    using segs by (auto simp: groupSegs_def list_all_iff Base64Suffix_def)
  have pat: "matchPattern (rp @ slashed ps) ?path = matchSegs ps (groupSegs job b pls)" if "\<forall>s \<in> set ps. CHR ''/'' \<notin> set s" for ps
    unfolding groupPath_slashed rs(1) using that ns by (intro matchPattern_slashed [OF rs(2)]) auto
  have push: "matchPattern (rp @ slashed (pushSegs c lbls)) ?path =
      (if c = (b \<noteq> None) \<and> lbls = (?L \<noteq> []) then Some (fmupd ''job'' (writtenValue job b)
         (if lbls then fmupd ''labels'' (labelPath pls) fmempty else fmempty)) else None)" for c lbls
  proof -
    have ns: "\<forall>s \<in> set (pushSegs c lbls). CHR ''/'' \<notin> set s" by (auto simp: pushSegs_def Base64Suffix_def)
    show ?thesis
      unfolding pat [OF ns] by (rule group_matches(1) [OF j])
  qed
  have quit: "matchPattern (rp @ slashed [''-'', ''quit'']) ?path = None"
    by (subst pat) (simp_all add: group_matches(2) [OF j])
  have found: "lookup ?table m ?path \<noteq> None"
  proof
    assume "lookup ?table m ?path = None"
    then have "matchPattern (rp @ slashed (pushSegs (b \<noteq> None) (?L \<noteq> []))) ?path = None"
      using routes_not_get(2) [OF m] router_okD(1) [OF router] by blast
    then show False unfolding push by simp
  qed
  then obtain h params where hp: "lookup ?table m ?path = Some (h, params)" by auto
  then obtain p where p: "(m, p, h) \<in> set ?table" "matchPattern p ?path = Some params"
    using router_okD(2) [OF router] by blast
  from routes_not_get(1) [OF m p(1)] obtain c lbls where c: "p = rp @ slashed (pushSegs c lbls)" "h = targetRoute m unchecked c"
    using p(2) quit by auto
  have cl: "c = (b \<noteq> None) \<and> lbls = (?L \<noteq> []) \<and> params = fmupd ''job'' (writtenValue job b)
         (if lbls then fmupd ''labels'' (labelPath pls) fmempty else fmempty)"
  proof (cases "c = (b \<noteq> None) \<and> lbls = (?L \<noteq> [])")
    case True
    then show ?thesis using p(2) unfolding c(1) push by (simp only: if_P option.inject)
  next
    case False
    then show ?thesis using p(2) unfolding c(1) push by (simp only: if_False option.distinct)
  qed
  have "labelPath pls = ''''" if "?L = []" unfolding labelPath_slashed that by simp
  then show ?thesis using hp c(2) cl by (auto simp: Param_def)
qed

text \<open>The mux hands a clean path below the metrics to the router; without escapes, that of a group is one.\<close>

lemma mux_group:
  assumes rp: "plain_prefix rp" and path: "muxCleanPath path = path" "HasPrefix path (rp @ ''/metrics/'')"
  shows "muxTarget rp path = MuxMain path"
proof -
  define rs where "rs = tl (splitOn CHR ''/'' rp)"
  have rs: "rp = slashed rs" "list_all plain_seg rs" using rp by (simp_all add: plain_prefix_def rs_def)
  have "rp \<noteq> ''/''"
    using rs by (cases rs) (auto simp: plain_seg_def proper_part_def)
  then have "serveMux rp path = MuxMain path"
    using path(2) by (auto simp: serveMux_def apiPath_def HasPrefix_iff Let_def)
  then show ?thesis by (simp add: muxTarget_def path(1))
qed

lemma group_clean:
  assumes rp: "plain_prefix rp" and segs: "list_all proper_part (writtenValue job b # concat (map segments pls))"
  shows "muxCleanPath (rp @ groupPath job b pls) = rp @ groupPath job b pls"
proof -
  define rs where "rs = tl (splitOn CHR ''/'' rp)"
  have rs: "rp = slashed rs" "list_all plain_seg rs" using rp by (simp_all add: plain_prefix_def rs_def)
  have path: "rp @ groupPath job b pls = slashed (rs @ groupSegs job b pls)" by (simp add: groupPath_slashed rs(1))
  have "list_all proper_part (rs @ groupSegs job b pls)"
    using rs(2) segs by (auto simp: groupSegs_def list_all_iff plain_seg_def proper_part_def Base64Suffix_def)
  then show ?thesis unfolding path by (rule clean_slashed) (simp add: groupSegs_def)
qed

text \<open>The labels of the target that the handlers read from the route's parameters.\<close>

lemma target_of_group:
  assumes "list_all (writable (hvConsts env) (hvSyntax env)) pls" "job \<noteq> ''''"
    and "reqJob r = writtenValue job b" "reqLabels r = labelPath pls"
  shows "targetLabels env (b \<noteq> None) r = Inr (fmupd ''job'' job (labelsOf pls))"
  using assms splitLabels_roundtrip [OF assms(1)] decode_encode_padded [of job]
  by (cases b) (simp_all add: targetLabels_def writtenValue_def)

text \<open>A router: the first pattern of the table that matches.\<close>

fun firstMatch :: router where
  "firstMatch [] m path = None"
| "firstMatch ((m', pat, h) # rest) m path =
     (if m' = m then (case matchPattern pat path of None \<Rightarrow> firstMatch rest m path | Some params \<Rightarrow> Some (h, params))
      else firstMatch rest m path)"

lemma firstMatch_None: "firstMatch table m path = None \<Longrightarrow> (m, pat, h) \<in> set table \<Longrightarrow> matchPattern pat path = None"
  by (induction table m path rule: firstMatch.induct) (auto split: if_splits option.splits)

lemma firstMatch_Some:
  "firstMatch table m path = Some (h, params) \<Longrightarrow> \<exists>pat. (m, pat, h) \<in> set table \<and> matchPattern pat path = Some params"
  by (induction table m path rule: firstMatch.induct) (auto split: if_splits option.splits)

lemma firstMatch_ok: "router_ok firstMatch"
  unfolding router_ok_def by (auto split: option.splits dest: firstMatch_None firstMatch_Some)

section \<open>Properties\<close>

text \<open>
  C4. A URL reaches its group: for every job that is not empty and every list of labels, written
  in plain or in base64 form, a message with a clean path that decodes to what this writes goes through the mux, the
  decoding of the body, the routes and the handler to exactly one write request, with exactly these labels; it replaces
  for PUT, adds for POST, deletes for DELETE, and asks for an answer as configured.
\<close>

theorem url_reaches_its_group:
  assumes "router_ok lookup" "plain_prefix rp" "hmMethod msg \<noteq> MethodGet"
    and "muxCleanPath (hmPath msg) = hmPath msg" "HasPrefix (hmPath msg) (rp @ ''/metrics/'')"
    and "unescapePath (hmPath msg) = Some (rp @ groupPath job b pls)"
    and "job \<noteq> ''''" "list_all (\<lambda>s. CHR ''/'' \<notin> set s) (writtenValue job b # concat (map segments pls))"
    and "list_all (writable (hvConsts env) (hvSyntax env)) pls"
    and "decodeRequest ungzip unsnappy id (hmContentEncoding msg) (hmBody msg) = Inr body"
    and "parseBody env \<lparr>reqJob = writtenValue job b, reqLabels = labelPath pls, reqContentType = hmContentType msg, reqBody = body\<rparr>
      = Inr families"
  shows "submittedBy env now ch msg (serveMain lookup ungzip unsnappy rp (routes pathJoin rp mp unchecked lifecycle) msg) =
    Some (if hmMethod msg = MethodDelete then deleteRequest (fmupd ''job'' job (labelsOf pls)) now
      else \<lparr>wrLabels = fmupd ''job'' job (labelsOf pls), wrTimestamp = now, wrMetricFamilies = Some families,
             wrReplace = (hmMethod msg = MethodPut), wrDone = (if unchecked then None else Some ch)\<rparr>)"
proof -
  let ?table = "routes pathJoin rp mp unchecked lifecycle" and ?m = "hmMethod msg"
  obtain params where look: "lookup ?table ?m (rp @ groupPath job b pls) = Some (targetRoute ?m unchecked (b \<noteq> None), params)"
    and par: "Param params ''job'' = writtenValue job b" "Param params ''labels'' = labelPath pls"
    using lookup_group [OF assms(1-3,7,8)] by blast
  have "serveMain lookup ungzip unsnappy rp ?table msg = ServedBy (targetRoute ?m unchecked (b \<noteq> None)) params body"
    using mux_group [OF assms(2,4,5)] assms(6,10) look
    by (auto simp: serveMain_def decodeRequest_def split: body_decoder.splits sum.splits)
  moreover have "targetLabels env (b \<noteq> None) (handlerRequest msg params body) = Inr (fmupd ''job'' job (labelsOf pls))"
    by (rule target_of_group [OF assms(9,7)]) (simp_all add: handlerRequest_def par)
  moreover have "parseBody env (handlerRequest msg params body) = Inr families"
    using assms(11) by (simp add: handlerRequest_def par)
  ultimately show ?thesis
    using assms(3) by (simp add: submittedBy_def targetRoute_def Push_def Delete_def pushRequest_def)
qed

definition sample_message :: http_message where
  "sample_message = \<lparr>hmMethod = MethodPut, hmPath = ''/pg/metrics/job@base64/am9i/path@base64/L3Zhci90bXA/dc/eu%20west/x@base64/='',
     hmContentType = '''', hmContentEncoding = '''', hmBody = ('''', None)\<rparr>"

theorem url_reaches_its_group_witness:
  "submittedBy sample_handlers 5 7 sample_message
     (serveMain firstMatch (\<lambda>b. Inr b) (\<lambda>b. b) ''/pg'' (routes (\<lambda>a b. a @ b) ''/pg'' ''/metrics'' False False) sample_message) =
   Some \<lparr>wrLabels = fmupd ''job'' ''job'' (fmupd ''x'' '''' (fmupd ''dc'' ''eu west'' (fmupd ''path'' ''/var/tmp'' fmempty))),
     wrTimestamp = 5, wrMetricFamilies = Some fmempty, wrReplace = True, wrDone = Some 7\<rparr>"
proof -
  let ?pls = "[(''path'', ''/var/tmp'', Some 0), (''dc'', ''eu west'', None), (''x'', '''', Some 1)]"
  have enc: "encodeBase64 ''/var/tmp'' = ''L3Zhci90bXA''" "encodeBase64 ''job'' = ''am9i''" "encodeBase64 '''' = ''''"
    by code_simp+
  note val = writtenValue_def segments_def enc
  have "plain_prefix ''/pg''" by code_simp
  moreover have "muxCleanPath (hmPath sample_message) = hmPath sample_message" "HasPrefix (hmPath sample_message) (''/pg'' @ ''/metrics/'')"
    by code_simp+
  moreover have "unescapePath (hmPath sample_message) = Some ''/pg/metrics/job@base64/am9i/path@base64/L3Zhci90bXA/dc/eu west/x@base64/=''"
    by code_simp
  then have "unescapePath (hmPath sample_message) = Some (''/pg'' @ groupPath ''job'' (Some 0) ?pls)"
    by (simp add: groupPath_def labelPath_def val Base64Suffix_def)
  moreover have "list_all (\<lambda>s. CHR ''/'' \<notin> set s) (writtenValue ''job'' (Some 0) # concat (map segments ?pls))"
    by (simp add: val Base64Suffix_def)
  moreover have "list_all (writable (hvConsts sample_handlers) (hvSyntax sample_handlers)) ?pls"
    by (simp add: writable_def sample_handlers_def HasPrefix_def HasSuffix_def Base64Suffix_def)
  moreover have "decodeRequest (\<lambda>b. Inr b) (\<lambda>b. b) id (hmContentEncoding sample_message) (hmBody sample_message) = Inr ('''', None)"
    by code_simp
  moreover have "parseBody sample_handlers \<lparr>reqJob = j, reqLabels = l, reqContentType = c, reqBody = b\<rparr> = Inr fmempty" for j l c b
    by (simp add: parseBody_def sample_handlers_def isDelimitedProto_def)
  ultimately show ?thesis
    using url_reaches_its_group [OF firstMatch_ok, of "''/pg''" sample_message "''job''" "Some 0" ?pls sample_handlers
        "\<lambda>b. Inr b" "\<lambda>b. b" "('''', None)" fmempty 5 7 "\<lambda>a b. a @ b" "''/metrics''" False False]
    by (simp add: labelsOf_def sample_message_def)
qed

end
