(* ===== verification/ApiProps.thy ===== *)
theory ApiProps
  imports MainCfg
begin

text \<open>What the router of the API answers, on the routes of \<open>Register\<close> and on the wipe route that \<open>main\<close> adds to it.\<close>

section \<open>The answer of each route\<close>






section \<open>Properties\<close>










end
