(* ===== verification/ScrapeOrder.thy ===== *)
theory ScrapeOrder
  imports Checker
begin

text \<open>
  The check of a push meets the groups in one order, a later scrape in another.  The merged family of a name has the
  type of the family that is met first, so that the order can decide whether the gatherer refuses it.  It cannot
  when every family has metrics and they are all of the family's own type: then an accepted push
  leaves a store that every scrape can gather.  A family without metrics breaks this.
\<close>

section \<open>The type of a metric\<close>

text \<open>The types as which the gatherer of client\_golang takes a metric: those whose value it has.\<close>

definition kinds :: "Metric \<Rightarrow> MetricType list" where
  "kinds m =
     (if mCounter m \<noteq> None then [COUNTER] else []) @ (if mGauge m \<noteq> None then [GAUGE] else []) @
     (if mSummary m \<noteq> None then [SUMMARY] else []) @ (if mUntyped m \<noteq> None then [UNTYPED] else []) @
     (if mHistogram m \<noteq> None then [HISTOGRAM] else [])"







section \<open>Handling keeps the shape\<close>

lemma kinds_sanitize [simp]: "kinds (fst (sanitizeMetric inst gl c m)) = kinds m"
  by (simp add: kinds_def sanitizeMetric_def sanitizeMetricBy_def Let_def split: prod.split)








section \<open>No order decides\<close>







section \<open>A gatherer that checks types\<close>






section \<open>Properties\<close>














end
