(* ===== verification/Spec2Isabelle.thy ===== *)
theory Spec2Isabelle
  imports ShutdownProps ReadProps Restart Responses AssetGen SharedProps Dispatch ApiProps ScrapeOrder
begin

text \<open>
  A verification library for the Prometheus Pushgateway (Go).

  The program accepts metrics over HTTP, keeps them in groups keyed by grouping labels, exposes the
  union of all groups for scraping, and writes the groups to a file.  A push travels through
  main.go (routes, body decoding), handler/push.go (labels from the URL, parsing, a write request),
  the write queue, and the goroutine \<open>loop\<close> of storage/diskmetricstore.go, which checks the request
  against a copy of the store and then applies it; a timer goroutine writes the file.  Readers
  (scrapes, api/v1, the status page) copy or merge what the store holds.

  Theories, from the ground up:

  \<^item> PgPrelude: maps, label sets, the constants of package \<open>model\<close> as a record of parameters,
    the contract of \<open>sort.Sort\<close> as the locale \<open>key_sorter\<close>.
  \<^item> GoStrings, GoNum, FloatFacts: what the program uses of \<open>strings\<close>, \<open>time\<close> and binary64: a float
    is an integer times a power of two, rounding is to nearest, ties to even.
    FloatFacts proves that seconds computed from nanoseconds are monotone and separate instants 3000 ns apart.
  \<^item> Dto: the protobuf messages as records.
  \<^item> GroupKey (\<open>groupingKeyFor\<close>, \<open>SortedLabels\<close>), LabelSan (\<open>sanitizeLabels\<close>).
  \<^item> Storage: groups, write requests, \<open>processWriteRequest\<close>, \<open>setPushFailedTimestamp\<close>,
    \<open>LastPushSuccess\<close>, \<open>GetMetricFamiliesMap\<close>; StoreProps: the effect of PUT, POST, DELETE and of a
    rejected push, isolation of groups, repeated and reordered pushes, the outcome of the last push.
  \<^item> Families: \<open>GetMetricFamilies\<close> with its copy-on-write, on a heap of family objects and on values;
    the heap version refines the value version, which equals a merge by name.
  \<^item> Checker: \<open>checkWriteRequest\<close> and what the loop does with its verdict (\<open>handleWrite\<close>).  The check meets the
    groups in one order, a later scrape in another.  ScrapeOrder: when an accepted push can be scraped in every
    order, and an empty family with which it cannot.
  \<^item> SharedMem: the same operations on an explicit memory, in which metrics, families, tables and the maps
    of requests are objects that the store, the requests, the test store of a check and the results of
    scrapes share.  SharedFrame, SharedWrites, SharedReads: what each of them changes, and what it reads
    as.  SharedRun, SharedProps: runs of parsing, checks, applications, scrapes and copies in any order, and that the
    process can run on shared objects; the locale \<open>fresh_parser\<close> is what the store relies on from the parser of a request.
  \<^item> WriteLoop: the goroutine \<open>loop\<close>, the persist timer, clients, \<open>Shutdown\<close>, the answer channels and the
    clock as a transition system; every invariant is an interpretation of the locale
    \<open>invariant_system\<close>.  LoopProps: what follows for every interleaving; Draining: that and how the drain ends.
    Persistence: \<open>persist\<close>, \<open>restore\<close>, \<open>NewDiskMetricStore\<close>, the gob adapters, \<open>MetricFamiliesMap\<close>.
  \<^item> HttpWriter, Instrumentation: the response writer; the metrics about requests (handler/metrics.go)
    and how handlers are wrapped.
  \<^item> UrlLabels: base64 and \<open>splitLabels\<close>; Handlers: push, delete, wipe, health, static; the locale
    \<open>metric_store\<close> is what clients assume of the store, interpreted on \<open>handleWrite\<close>.
  \<^item> HistApi, ApiV1: native histograms, whose bucket iterators may panic; the JSON API with its two
    endpoints, CORS headers and registration.  ApiProps: what every route of its router answers.
  \<^item> AssetFile, AssetFS, AssetTable, AssetTree, AssetProps (asset/assets\_vfsdata.go): opened files,
    nodes and \<open>Open\<close>, the generated table, the tree built from it.  The locale \<open>opened_file\<close> is what a reader
    with a position promises; compressed and uncompressed files both interpret it.
  \<^item> StatusPage (handler/status.go): template functions, the handler with its error paths, and the embedded
    assets as its file system.  AssetGen: the file system of a development build, the program that generates the
    embedded one, and the build constraints that choose between them.
  \<^item> MainCfg: what \<open>main\<close> derives from its flags, routes, the router of the API with the wipe route and
    its mount, body decoding; a body is its bytes and the error with which reading ends.  Dispatch: the way
    of a message through mux, decoder and routes to the handler and its write request.
    Process, ProcessProps: the server with its running handlers, the store behind them, quit, signals
    and the shutdown in the order of \<open>main\<close>; every step of it is a step of the write loop or leaves the store as it is.
    Fairness, Liveness: what a fair scheduler guarantees of the loop, and of the handlers.  WipeProps: the wipe
    handler among the others.  ShutdownProps: that a process which is asked to quit ends.
    ReadProps: that scrapes, the API and the status page see what was pushed.  Restart: one
    life of the process after the other, on the file; \<open>persist\<close> on the file system refines what the loop sees of it.
  \<^item> Responses: the texts and bytes that the handlers write.

  Correspondence of state.  \<open>DiskMetricStore\<close> keeps the field names of the Go struct; its channels and
  lock are in \<open>loop_state\<close>, where one step is one communication or one critical section under the
  lock.  A nil map of families, a nil pointer and a nil channel are \<open>None\<close>; a panic is \<open>None\<close> in the
  result; other errors are values of a sum.  A Go map has no order: where the order of an
  iteration can be observed it is an argument (\<open>range_order\<close>, \<open>order_choice\<close>), and the step
  relation chooses it anew for each check.  A Go map is a reference: \<open>processWriteRequest\<close> returns
  the request it has changed, and the check hands that request on.  \<open>lsSubmitted\<close> and \<open>lsApplied\<close> are
  history, not program state; \<open>lsSent\<close> and \<open>lsClosed\<close> are the answer channels, numbered by the
  handler that makes them.  In \<open>process\<close> a push or deletion is in one of three phases and a wipe has what it has
  not yet deleted; \<open>psMain\<close> is the position of \<open>main\<close> after the server has started.  In \<open>shared_memory\<close> a pointer or a Go map is an
  address; the fields of \<open>shared_state\<close> are the roots: the groups, the requests that are parsed or checked, and all
  references that readers were given.  An opened compressed file has the two positions of the
  Go struct and \<open>cfRest\<close>, what its gzip reader has not yet delivered; positions wrap at 64 bits.

  Bounds.  The queue capacity is the code's 1000.  No definition needs fuel: loops are structural
  recursions or folds, the endless loop of the goroutine is a relation, and \<open>ReadAll\<close> recurs on
  the sizes of the buffers it is given; the theorems about it hold for every list of more buffers
  than there are bytes, which is enough, since a read that is not at the end delivers a byte.

  Parameters, each library or generated code: the gatherer and the instrumentation wrappers of client\_golang, the label
  checks and unescaping of package \<open>model\<close>, media type, protobuf and text parsers, gob, results of calls
  to package \<open>os\<close>, \<open>path.Join\<close>, the router, \<open>vfsgen.Generate\<close>, decompressors, html/template, the histogram iterators, number formatting, JSON
  marshalling, and the bytes of the embedded files.  What is assumed of them is a named predicate,
  each a documented promise: \<open>transparent\<close> (wrappers leave request and response alone),
  \<open>gz_ok\<close> (a read delivers at least one byte before the end), \<open>gob_ok\<close> (decoding undoes encoding),
  \<open>gatherer_ok\<close> (a gatherer does not depend on the order and refuses metrics of another type than their family),
  \<open>router_ok\<close> (a route is found exactly if a pattern matches), \<open>map_order\<close> (a loop over a map visits each key once),
  \<open>fresh_parser\<close> (a parsed request shares nothing with what was there before).

  Groups of properties.  Store: C8 to C10, C30, C31, C34, C35.  Labels and keys: C22, C33.  Check and
  store together: C2, C7, C29, C36, C37.  Reading: C12, C13, C24.  Shared objects: C3, C11, C18.  Loop and
  file: C1, C15, C16, C20, C27, and C38 and C39.  Process: C5, C6, C14, C17, C19, C23, C28.  From the URL: C4.
  API and status page: C26, C32, C40.  Assets: C21, C25.  C28 and C36 to C39 show behaviour that
  comments or documentation do not announce, as do some lemmas (\<open>seek_past_end_spoils_file\<close> and
  \<open>groupingKey_collision\<close>, for two).  C10, C33 and C34 are about labels without the separator byte of grouping
  keys; \<open>groupingKey_collision\<close> shows that the condition is needed.

  Not modelled: parsing of the command line, logging, TLS and the web configuration, the scrape endpoint of
  promhttp, and the text of the HTML template.
  The fairness that C17, C19 and C23 assume is that of the Go runtime: a goroutine that can run does run at some time, and a select with
  several ready cases takes each of them again and again.\<close>

end
